(* ===== verification/Prelude.thy ===== *)
theory Prelude
  imports Main "HOL-Library.Code_Target_Numeral"
begin

text \<open>
  The prelude of the development: the execution model of the Go code and its
  reasoning rules.

  A Go function is a state transformer \<open>('a, 's) go\<close>. It returns a value
  (\<open>Ret\<close>), or it does not return normally (\<open>Abn\<close>): it panics, it blocks for
  ever, or the fuel that bounds an unbounded loop is used up. A Go \<open>error\<close> is an ordinary
  value of the function's result and not an abnormal outcome, as in the source.

  The rules are a weakest-precondition calculus: \<open>wp m Q E s\<close> says that running
  \<open>m\<close> in \<open>s\<close> ends in \<open>Q\<close> when it returns and in \<open>E\<close> when it does not.
  Every combinator has an equation for \<open>wp\<close>, collected in \<open>wp_simps\<close>, so that
  the simplifier computes the condition of a composed operation.
\<close>

named_theorems wp_simps \<open>equations of the weakest-precondition calculus\<close>
named_theorems str_simps \<open>evaluation and algebra of the string functions\<close>

section \<open>Outcomes and composition\<close>

datatype abn = Panicked string | Blocked | OutOfFuel

datatype ('a, 's) out = Ret 'a 's | Abn abn 's

type_synonym ('a, 's) go = "'s \<Rightarrow> ('a, 's) out"

definition ret :: "'a \<Rightarrow> ('a, 's) go" where
  "ret a s = Ret a s"

definition abort_with :: "abn \<Rightarrow> ('a, 's) go" where
  "abort_with e s = Abn e s"

definition seq :: "('a, 's) go \<Rightarrow> ('a \<Rightarrow> ('b, 's) go) \<Rightarrow> ('b, 's) go" where
  "seq m f s = (case m s of Ret a s' \<Rightarrow> f a s' | Abn e s' \<Rightarrow> Abn e s')"

definition gets :: "('s \<Rightarrow> 'a) \<Rightarrow> ('a, 's) go" where
  "gets f s = Ret (f s) s"

definition modify :: "('s \<Rightarrow> 's) \<Rightarrow> (unit, 's) go" where
  "modify f s = Ret () (f s)"

text \<open>
  \<open>deferred d m\<close> is \<^verbatim>\<open>defer d()\<close> followed by the rest of the function: \<open>d\<close> runs after
  \<open>m\<close> when \<open>m\<close> returns and when it panics. A function that blocks for ever never
  reaches its deferred calls.
\<close>

definition deferred :: "(unit, 's) go \<Rightarrow> ('a, 's) go \<Rightarrow> ('a, 's) go" where
  "deferred d m s = (case m s of
      Ret a s' \<Rightarrow> (case d s' of Ret _ s'' \<Rightarrow> Ret a s'' | Abn e s'' \<Rightarrow> Abn e s'')
    | Abn e s' \<Rightarrow> (case e of
        Panicked _ \<Rightarrow> (case d s' of Ret _ s'' \<Rightarrow> Abn e s'' | Abn e' s'' \<Rightarrow> Abn e' s'')
      | _ \<Rightarrow> Abn e s'))"

text \<open>Running a transformer of one object inside a larger state, through a view of it.\<close>

definition zoom :: "('s \<Rightarrow> 't) \<Rightarrow> ('t \<Rightarrow> 's \<Rightarrow> 's) \<Rightarrow> ('a, 't) go \<Rightarrow> ('a, 's) go" where
  "zoom get put m s = (case m (get s) of
      Ret a t \<Rightarrow> Ret a (put t s)
    | Abn e t \<Rightarrow> Abn e (put t s))"

section \<open>Weakest preconditions\<close>

definition wp :: "('a, 's) go \<Rightarrow> ('a \<Rightarrow> 's \<Rightarrow> bool) \<Rightarrow> (abn \<Rightarrow> 's \<Rightarrow> bool) \<Rightarrow> 's \<Rightarrow> bool" where
  "wp m Q E s = (case m s of Ret a s' \<Rightarrow> Q a s' | Abn e s' \<Rightarrow> E e s')"

abbreviation never :: "abn \<Rightarrow> 's \<Rightarrow> bool" where
  "never \<equiv> (\<lambda>_ _. False)"

lemma wp_ret [wp_simps]: "wp (ret a) Q E s = Q a s"
  by (simp add: wp_def ret_def)

lemma wp_ret_fun: "wp (ret a) Q E = Q a"
  by (rule ext) (rule wp_ret)

lemma wp_abort_with [wp_simps]: "wp (abort_with e) Q E s = E e s"
  by (simp add: wp_def abort_with_def)

lemma wp_seq [wp_simps]: "wp (seq m f) Q E s = wp m (\<lambda>a. wp (f a) Q E) E s"
  by (simp add: wp_def seq_def split: out.split)

lemma wp_gets [wp_simps]: "wp (gets f) Q E s = Q (f s) s"
  by (simp add: wp_def gets_def)

lemma wp_modify [wp_simps]: "wp (modify f) Q E s = Q () (f s)"
  by (simp add: wp_def modify_def)

lemma wp_zoom [wp_simps]:
  "wp (zoom get put m) Q E s =
     wp m (\<lambda>a t. Q a (put t s)) (\<lambda>e t. E e (put t s)) (get s)"
  by (simp add: wp_def zoom_def split: out.split)

lemma wp_deferred [wp_simps]:
  "wp (deferred d m) Q E s =
     wp m (\<lambda>a. wp d (\<lambda>_. Q a) E)
          (\<lambda>e. case e of Panicked _ \<Rightarrow> wp d (\<lambda>_. E e) E | _ \<Rightarrow> E e) s"
  by (simp add: wp_def deferred_def split: out.split abn.split)

lemma wp_if [wp_simps]:
  "wp (if b then m else m') Q E s = (if b then wp m Q E s else wp m' Q E s)"
  by simp

lemma wp_let [wp_simps]: "wp (Let x f) Q E s = wp (f x) Q E s"
  by simp

lemma wp_case_option [wp_simps]:
  "wp (case x of None \<Rightarrow> m | Some y \<Rightarrow> f y) Q E s =
     (case x of None \<Rightarrow> wp m Q E s | Some y \<Rightarrow> wp (f y) Q E s)"
  by (cases x) auto

lemma wp_case_sum [wp_simps]:
  "wp (case x of Inl a \<Rightarrow> f a | Inr b \<Rightarrow> g b) Q E s =
     (case x of Inl a \<Rightarrow> wp (f a) Q E s | Inr b \<Rightarrow> wp (g b) Q E s)"
  by (cases x) auto

lemma wp_case_prod [wp_simps]:
  "wp (case p of (a, b) \<Rightarrow> f a b) Q E s = (case p of (a, b) \<Rightarrow> wp (f a b) Q E s)"
  by (cases p) auto

text \<open>A stronger postcondition is enough: how the contract of a callee is used.\<close>

lemma wp_mono:
  assumes "wp m Q E s"
    and "\<And>a s'. Q a s' \<Longrightarrow> Q' a s'" and "\<And>e s'. E e s' \<Longrightarrow> E' e s'"
  shows "wp m Q' E' s"
  using assms by (auto simp: wp_def split: out.splits)

lemma wp_conj:
  "wp m (\<lambda>a s'. Q a s' \<and> Q' a s') (\<lambda>e s'. E e s' \<and> E' e s') s \<longleftrightarrow>
     wp m Q E s \<and> wp m Q' E' s"
  by (auto simp: wp_def split: out.splits)

lemma wp_never_returns: "wp m Q never s \<Longrightarrow> \<exists>a s'. m s = Ret a s' \<and> Q a s'"
  by (auto simp: wp_def split: out.splits)

lemma wp_RetD: "wp m Q E s \<Longrightarrow> m s = Ret a s' \<Longrightarrow> Q a s'"
  by (simp add: wp_def)

lemma wp_AbnD: "wp m Q E s \<Longrightarrow> m s = Abn e s' \<Longrightarrow> E e s'"
  by (simp add: wp_def)

lemma wpI:
  "(\<And>a s'. m s = Ret a s' \<Longrightarrow> Q a s') \<Longrightarrow> (\<And>e s'. m s = Abn e s' \<Longrightarrow> E e s') \<Longrightarrow> wp m Q E s"
  by (auto simp: wp_def split: out.splits)

section \<open>Laws of the composition\<close>

lemma seq_ret_left [simp]: "seq (ret a) f = f a"
  by (rule ext) (simp add: seq_def ret_def)

lemma seq_ret_right [simp]: "seq m ret = m"
  by (rule ext) (simp add: seq_def ret_def split: out.split)

lemma seq_assoc: "seq (seq m f) g = seq m (\<lambda>a. seq (f a) g)"
  by (rule ext) (simp add: seq_def split: out.split)

section \<open>Invariants kept by an operation\<close>

definition keeps :: "('s \<Rightarrow> bool) \<Rightarrow> ('a, 's) go \<Rightarrow> bool" where
  "keeps I m \<longleftrightarrow> (\<forall>s. I s \<longrightarrow> wp m (\<lambda>_. I) (\<lambda>_. I) s)"

named_theorems keeps_rules \<open>what keeps an invariant\<close>

lemma keepsI: "(\<And>s. I s \<Longrightarrow> wp m (\<lambda>_. I) (\<lambda>_. I) s) \<Longrightarrow> keeps I m"
  by (simp add: keeps_def)

lemma keeps_wp: "keeps I m \<Longrightarrow> I s \<Longrightarrow> wp m (\<lambda>_. I) (\<lambda>_. I) s"
  by (simp add: keeps_def)

lemma keeps_ret [keeps_rules]: "keeps I (ret a)"
  by (simp add: keeps_def wp_simps)

lemma keeps_abort_with [keeps_rules]: "keeps I (abort_with e)"
  by (simp add: keeps_def wp_simps)

lemma keeps_gets [keeps_rules]: "keeps I (gets f)"
  by (simp add: keeps_def wp_simps)

lemma keeps_modify [keeps_rules]: "(\<And>s. I s \<Longrightarrow> I (f s)) \<Longrightarrow> keeps I (modify f)"
  by (simp add: keeps_def wp_simps)

lemma keeps_seq [keeps_rules]: "keeps I m \<Longrightarrow> (\<And>a. keeps I (f a)) \<Longrightarrow> keeps I (seq m f)"
  unfolding keeps_def wp_seq by (blast intro: wp_mono [of m])

lemma keeps_deferred [keeps_rules]:
  assumes d: "keeps I d" and m: "keeps I m"
  shows "keeps I (deferred d m)"
proof (rule keepsI)
  fix s assume "I s"
  with m have "wp m (\<lambda>_. I) (\<lambda>_. I) s" by (rule keeps_wp)
  then show "wp (deferred d m) (\<lambda>_. I) (\<lambda>_. I) s"
    unfolding wp_deferred by (rule wp_mono) (simp_all add: keeps_wp [OF d] split: abn.split)
qed

lemma keeps_if [keeps_rules]:
  "(b \<Longrightarrow> keeps I m) \<Longrightarrow> (\<not> b \<Longrightarrow> keeps I m') \<Longrightarrow> keeps I (if b then m else m')"
  by simp

lemma keeps_case_option [keeps_rules]:
  "(x = None \<Longrightarrow> keeps I m) \<Longrightarrow> (\<And>y. x = Some y \<Longrightarrow> keeps I (f y)) \<Longrightarrow>
     keeps I (case x of None \<Rightarrow> m | Some y \<Rightarrow> f y)"
  by (cases x) auto

lemma keeps_case_sum [keeps_rules]:
  "(\<And>a. x = Inl a \<Longrightarrow> keeps I (f a)) \<Longrightarrow> (\<And>b. x = Inr b \<Longrightarrow> keeps I (g b)) \<Longrightarrow>
     keeps I (case x of Inl a \<Rightarrow> f a | Inr b \<Rightarrow> g b)"
  by (cases x) auto

lemma keeps_case_prod [keeps_rules]:
  "(\<And>a b. p = (a, b) \<Longrightarrow> keeps I (f a b)) \<Longrightarrow> keeps I (case p of (a, b) \<Rightarrow> f a b)"
  by (cases p) auto

lemma keeps_let [keeps_rules]: "keeps I (f x) \<Longrightarrow> keeps I (Let x f)"
  by simp

end
