(* ===== verification/GoStrings.thy ===== *)
theory GoStrings
  imports Prelude
begin

text \<open>
  The functions of Go's packages \<open>strings\<close> and \<open>path/filepath\<close> that the client uses,
  on byte strings: a Go \<open>string\<close> is a sequence of bytes, and a \<open>char\<close> is a byte. Positions
  are \<open>int\<close>, with \<open>-1\<close> for "not found", as in Go. Letter case and white space are those of
  ASCII; the Unicode letters and spaces of several bytes are left unchanged. Paths are those of
  a Unix client, where the separator of \<open>filepath\<close> is the slash.
\<close>

section \<open>Searching\<close>

definition HasPrefix :: "string \<Rightarrow> string \<Rightarrow> bool" where
  "HasPrefix s p = (take (length p) s = p)"

definition HasSuffix :: "string \<Rightarrow> string \<Rightarrow> bool" where
  "HasSuffix s p = (length p \<le> length s \<and> drop (length s - length p) s = p)"

fun Index :: "string \<Rightarrow> string \<Rightarrow> int" where
  "Index [] sub = (if sub = [] then 0 else -1)"
| "Index (c # t) sub =
     (if HasPrefix (c # t) sub then 0
      else let i = Index t sub in if i < 0 then -1 else i + 1)"

fun LastIndex :: "string \<Rightarrow> string \<Rightarrow> int" where
  "LastIndex [] sub = (if sub = [] then 0 else -1)"
| "LastIndex (c # t) sub =
     (let i = LastIndex t sub
      in if 0 \<le> i then i + 1 else if HasPrefix (c # t) sub then 0 else -1)"

definition Contains :: "string \<Rightarrow> string \<Rightarrow> bool" where
  "Contains s sub = (0 \<le> Index s sub)"

text \<open>A slice expression \<open>s[i:j]\<close>, which panics in Go unless \<open>slice_ok s i j\<close>.\<close>

definition slice_ok :: "'a list \<Rightarrow> int \<Rightarrow> int \<Rightarrow> bool" where
  "slice_ok s i j \<longleftrightarrow> 0 \<le> i \<and> i \<le> j \<and> j \<le> int (length s)"

definition slice :: "'a list \<Rightarrow> int \<Rightarrow> int \<Rightarrow> 'a list" where
  "slice s i j = take (nat (j - i)) (drop (nat i) s)"

section \<open>Splitting and joining\<close>

function Split :: "string \<Rightarrow> string \<Rightarrow> string list" where
  "Split s sep =
     (let i = Index s sep
      in if i < 0 \<or> sep = [] then [s]
         else take (nat i) s # Split (drop (nat i + length sep) s) sep)"
  by pat_completeness auto

definition SplitN2 :: "string \<Rightarrow> string \<Rightarrow> string list" where
  "SplitN2 s sep =
     (let i = Index s sep
      in if i < 0 then [s] else [take (nat i) s, drop (nat i + length sep) s])"

fun Join :: "string list \<Rightarrow> string \<Rightarrow> string" where
  "Join [] sep = []"
| "Join [s] sep = s"
| "Join (s # t # ts) sep = s @ sep @ Join (t # ts) sep"

function Replace :: "string \<Rightarrow> string \<Rightarrow> string \<Rightarrow> string" where
  "Replace s old new =
     (let i = Index s old
      in if i < 0 \<or> old = [] then s
         else take (nat i) s @ new @ Replace (drop (nat i + length old) s) old new)"
  by pat_completeness auto

section \<open>Trimming, case and fields\<close>

definition is_space :: "char \<Rightarrow> bool" where
  "is_space c \<longleftrightarrow>
     c \<in> {CHR 0x09, CHR 0x0A, CHR 0x0B, CHR 0x0C, CHR 0x0D, CHR 0x20}"

definition TrimLeft :: "string \<Rightarrow> string \<Rightarrow> string" where
  "TrimLeft s cutset = dropWhile (\<lambda>c. c \<in> set cutset) s"

definition TrimRight :: "string \<Rightarrow> string \<Rightarrow> string" where
  "TrimRight s cutset = rev (dropWhile (\<lambda>c. c \<in> set cutset) (rev s))"

definition TrimSpace :: "string \<Rightarrow> string" where
  "TrimSpace s = rev (dropWhile is_space (rev (dropWhile is_space s)))"

definition TrimSuffix :: "string \<Rightarrow> string \<Rightarrow> string" where
  "TrimSuffix s p = (if HasSuffix s p then take (length s - length p) s else s)"

definition upper_char :: "char \<Rightarrow> char" where
  "upper_char c = (if 97 \<le> (of_char c :: nat) \<and> (of_char c :: nat) \<le> 122
                   then char_of ((of_char c :: nat) - 32) else c)"

definition lower_char :: "char \<Rightarrow> char" where
  "lower_char c = (if 65 \<le> (of_char c :: nat) \<and> (of_char c :: nat) \<le> 90
                   then char_of ((of_char c :: nat) + 32) else c)"

definition ToUpper :: "string \<Rightarrow> string" where
  "ToUpper s = map upper_char s"

definition ToLower :: "string \<Rightarrow> string" where
  "ToLower s = map lower_char s"

definition EqualFold :: "string \<Rightarrow> string \<Rightarrow> bool" where
  "EqualFold s t = (ToLower s = ToLower t)"

function Fields :: "string \<Rightarrow> string list" where
  "Fields s =
     (let t = dropWhile is_space s
      in if t = [] then []
         else takeWhile (\<lambda>c. \<not> is_space c) t # Fields (dropWhile (\<lambda>c. \<not> is_space c) t))"
  by pat_completeness auto

section \<open>Paths\<close>

abbreviation slash :: char where
  "slash \<equiv> CHR ''/''"

definition Base :: "string \<Rightarrow> string" where
  "Base path =
     (if path = [] then ''.''
      else let p = TrimRight path ''/'';
               q = rev (takeWhile (\<lambda>c. c \<noteq> slash) (rev p))
           in if q = [] then ''/'' else q)"

text \<open>
  \<open>Clean\<close> walks the elements of the path and keeps a stack of those that remain, the
  last on top: empty elements and \<^verbatim>\<open>.\<close> are dropped, and \<^verbatim>\<open>..\<close> removes the element before it,
  is dropped at the root, and stays at the start of a relative path.
\<close>

fun clean_elems :: "bool \<Rightarrow> string list \<Rightarrow> string list \<Rightarrow> string list" where
  "clean_elems rooted stack [] = rev stack"
| "clean_elems rooted stack (e # es) =
     (if e = [] \<or> e = ''.'' then clean_elems rooted stack es
      else if e = ''..'' then
        (case stack of
           [] \<Rightarrow> clean_elems rooted (if rooted then [] else [''..'']) es
         | t # ts \<Rightarrow>
             if t = ''..'' then clean_elems rooted (''..'' # stack) es
             else clean_elems rooted ts es)
      else clean_elems rooted (e # stack) es)"

definition Clean :: "string \<Rightarrow> string" where
  "Clean path =
     (let rooted = HasPrefix path ''/'';
          body = Join (clean_elems rooted [] (Split path ''/'')) ''/''
      in if rooted then ''/'' @ body else if body = [] then ''.'' else body)"

definition Dir :: "string \<Rightarrow> string" where
  "Dir path = Clean (rev (dropWhile (\<lambda>c. c \<noteq> slash) (rev path)))"

section \<open>Laws\<close>

subsection \<open>Searching\<close>

lemma HasPrefix_iff: "HasPrefix s p \<longleftrightarrow> (\<exists>t. s = p @ t)"
  unfolding HasPrefix_def by (metis append_eq_conv_conj append_take_drop_id)

lemma HasPrefix_append [simp]: "HasPrefix (p @ t) p"
  by (simp add: HasPrefix_def)

lemma Index_ge: "-1 \<le> Index s sub"
  by (induction s) (auto simp: Let_def)

lemma LastIndex_ge: "-1 \<le> LastIndex s sub"
  by (induction s) (auto simp: Let_def)

lemma Index_neg_iff: "Index s sub < 0 \<longleftrightarrow> Index s sub = -1"
  using Index_ge [of s sub] by linarith

lemma Index_nonneg_iff: "\<not> Index s sub = -1 \<longleftrightarrow> 0 \<le> Index s sub"
  using Index_ge [of s sub] by linarith

lemma LastIndex_neg_iff: "LastIndex s sub < 0 \<longleftrightarrow> LastIndex s sub = -1"
  using LastIndex_ge [of s sub] by linarith

lemma Index_bound: "0 \<le> Index s sub \<Longrightarrow> Index s sub + int (length sub) \<le> int (length s)"
proof (induction s)
  case (Cons c t)
  have "HasPrefix (c # t) sub \<Longrightarrow> length sub \<le> Suc (length t)"
    by (auto simp: HasPrefix_iff dest!: arg_cong [of _ _ length])
  with Cons show ?case by (auto simp: Let_def split: if_splits)
qed (auto split: if_splits)

lemma LastIndex_bound:
  "0 \<le> LastIndex s sub \<Longrightarrow> LastIndex s sub + int (length sub) \<le> int (length s)"
proof (induction s)
  case (Cons c t)
  have "HasPrefix (c # t) sub \<Longrightarrow> length sub \<le> Suc (length t)"
    by (auto simp: HasPrefix_iff dest!: arg_cong [of _ _ length])
  with Cons show ?case by (auto simp: Let_def split: if_splits)
qed (auto split: if_splits)

termination Split
proof (relation "measure (\<lambda>(s, sep). length s)")
  fix s sep :: string and i
  assume "i = Index s sep" and "\<not> (i < 0 \<or> sep = [])"
  with Index_bound [of s sep] show "((drop (nat i + length sep) s, sep), s, sep) \<in> measure (\<lambda>(s, sep). length s)"
    by (cases sep) auto
qed simp

termination Replace
proof (relation "measure (\<lambda>(s, old, new). length s)")
  fix s old new :: string and i
  assume "i = Index s old" and "\<not> (i < 0 \<or> old = [])"
  with Index_bound [of s old]
  show "((drop (nat i + length old) s, old, new), s, old, new) \<in> measure (\<lambda>(s, old, new). length s)"
    by (cases old) auto
qed simp

lemma length_dropWhile_less: "xs \<noteq> [] \<Longrightarrow> P (hd xs) \<Longrightarrow> length (dropWhile P xs) < length xs"
  by (cases xs) (auto simp: le_imp_less_Suc length_dropWhile_le)

termination Fields
proof (relation "measure length")
  fix s t :: string
  assume t: "t = dropWhile is_space s" and "t \<noteq> []"
  then have "\<not> is_space (hd t)" by (auto simp: hd_dropWhile)
  with \<open>t \<noteq> []\<close> have "length (dropWhile (\<lambda>c. \<not> is_space c) t) < length t"
    by (intro length_dropWhile_less) auto
  also have "length t \<le> length s" by (simp add: t length_dropWhile_le)
  finally show "(dropWhile (\<lambda>c. \<not> is_space c) t, s) \<in> measure length" by simp
qed simp

declare Split.simps [simp del] Replace.simps [simp del] Fields.simps [simp del]

subsection \<open>Searching for one character\<close>

lemma HasPrefix_singleton: "HasPrefix s [c] \<longleftrightarrow> s \<noteq> [] \<and> hd s = c"
  by (cases s) (auto simp: HasPrefix_def)

lemma Index_char_none: "c \<notin> set a \<Longrightarrow> Index a [c] = -1"
  by (induction a) (auto simp: HasPrefix_singleton)

lemma Index_char: "c \<notin> set a \<Longrightarrow> Index (a @ c # b) [c] = int (length a)"
  by (induction a) (auto simp: HasPrefix_singleton)

lemma LastIndex_char_none: "c \<notin> set a \<Longrightarrow> LastIndex a [c] = -1"
  by (induction a) (auto simp: HasPrefix_singleton)

lemma LastIndex_char: "c \<notin> set b \<Longrightarrow> LastIndex (a @ c # b) [c] = int (length a)"
  by (induction a) (auto simp: HasPrefix_singleton LastIndex_char_none Let_def)

subsection \<open>Splitting undoes joining\<close>

lemma Split_char_none: "c \<notin> set a \<Longrightarrow> Split a [c] = [a]"
  by (subst Split.simps) (simp add: Index_char_none)

lemma Split_char_Cons: "c \<notin> set a \<Longrightarrow> Split (a @ c # b) [c] = a # Split b [c]"
  by (subst Split.simps) (simp add: Index_char Let_def)

lemma Split_Join:
  "ls \<noteq> [] \<Longrightarrow> (\<And>l. l \<in> set ls \<Longrightarrow> c \<notin> set l) \<Longrightarrow> Split (Join ls [c]) [c] = ls"
  by (induction ls "[c]" rule: Join.induct) (auto simp: Split_char_none Split_char_Cons)

lemma Join_snoc: "ls \<noteq> [] \<Longrightarrow> Join (ls @ [l]) sep = Join ls sep @ sep @ l"
  by (induction ls sep rule: Join.induct) auto

end
