(* ===== verification/GoNum.thy ===== *)
theory GoNum
  imports GoStrings
begin

text \<open>
  The functions of Go's package \<open>strconv\<close> that the client uses, for the bases 8 and 10 it
  passes: a number is an optional sign (signed parsers only) and a non-empty run of digits
  below the base, and a value outside the width asked for is a range error.
\<close>

datatype numErr = ErrSyntax | ErrRange

definition is_digit :: "char \<Rightarrow> bool" where
  "is_digit c \<longleftrightarrow> 48 \<le> (of_char c :: nat) \<and> (of_char c :: nat) \<le> 57"

definition digit :: "char \<Rightarrow> nat" where
  "digit c = of_char c - 48"

fun uint_digits :: "nat \<Rightarrow> nat \<Rightarrow> nat \<Rightarrow> string \<Rightarrow> numErr + nat" where
  "uint_digits base limit n [] = Inr n"
| "uint_digits base limit n (c # cs) =
     (if \<not> is_digit c \<or> base \<le> digit c then Inl ErrSyntax
      else let n' = n * base + digit c
           in if limit < n' then Inl ErrRange else uint_digits base limit n' cs)"

definition ParseUint :: "string \<Rightarrow> nat \<Rightarrow> nat \<Rightarrow> numErr + nat" where
  "ParseUint s base bits =
     (if s = [] then Inl ErrSyntax else uint_digits base (2 ^ bits - 1) 0 s)"

definition ParseInt :: "string \<Rightarrow> nat \<Rightarrow> nat \<Rightarrow> numErr + int" where
  "ParseInt s base bits =
     (let neg = (case s of [] \<Rightarrow> False | c # _ \<Rightarrow> c = CHR ''-'');
          body = (case s of [] \<Rightarrow> [] | c # t \<Rightarrow> if c = CHR ''+'' \<or> c = CHR ''-'' then t else s)
      in case ParseUint body base bits of
           Inl e \<Rightarrow> Inl e
         | Inr un \<Rightarrow>
             if \<not> neg \<and> 2 ^ (bits - 1) \<le> un then Inl ErrRange
             else if neg \<and> 2 ^ (bits - 1) < un then Inl ErrRange
             else Inr (if neg then - int un else int un))"

definition Atoi :: "string \<Rightarrow> numErr + int" where
  "Atoi s = ParseInt s 10 64"

fun nat_digits :: "nat \<Rightarrow> string" where
  "nat_digits n =
     (if n < 10 then [char_of (48 + n)] else nat_digits (n div 10) @ [char_of (48 + n mod 10)])"

declare nat_digits.simps [simp del]

definition Itoa :: "int \<Rightarrow> string" where
  "Itoa i = (if i < 0 then CHR ''-'' # nat_digits (nat (- i)) else nat_digits (nat i))"

section \<open>Printing and parsing agree\<close>

lemma digit_char [simp]: "n < 10 \<Longrightarrow> digit (char_of (48 + n)) = n"
  by (simp add: digit_def)

lemma is_digit_char [simp]: "n < (10 :: nat) \<Longrightarrow> is_digit (char_of (48 + n))"
  by (simp add: is_digit_def)

lemma nat_digits_nonempty [simp]: "nat_digits n \<noteq> []"
  by (subst nat_digits.simps) simp

lemma nat_digits_digits: "c \<in> set (nat_digits n) \<Longrightarrow> is_digit c"
proof (induction n rule: nat_digits.induct)
  case (1 n)
  then show ?case by (subst (asm) (2) nat_digits.simps) (auto split: if_splits)
qed

lemma uint_digits_append:
  "uint_digits b l n (xs @ ys) =
     (case uint_digits b l n xs of Inl e \<Rightarrow> Inl e | Inr n' \<Rightarrow> uint_digits b l n' ys)"
  by (induction xs arbitrary: n) (auto simp: Let_def)

lemma uint_digits_nat_digits: "n \<le> l \<Longrightarrow> uint_digits 10 l 0 (nat_digits n) = Inr n"
proof (induction n rule: nat_digits.induct)
  case (1 n)
  show ?case
  proof (cases "n < 10")
    case True
    with "1.prems" show ?thesis by (subst nat_digits.simps) simp
  next
    case False
    with "1.IH" "1.prems" have "uint_digits 10 l 0 (nat_digits (n div 10)) = Inr (n div 10)"
      by simp
    moreover have "n div 10 * 10 + n mod 10 = n" by simp
    ultimately show ?thesis using False "1.prems"
      by (subst nat_digits.simps) (simp add: uint_digits_append)
  qed
qed

lemma ParseUint_nat_digits: "n < 2 ^ bits \<Longrightarrow> ParseUint (nat_digits n) 10 bits = Inr n"
  by (simp add: ParseUint_def uint_digits_nat_digits)

lemma hd_nat_digits: "is_digit (hd (nat_digits n))"
  by (rule nat_digits_digits [of _ n]) simp

lemma sign_not_digit [simp]: "\<not> is_digit CHR ''-''" "\<not> is_digit CHR ''+''"
  by (simp_all add: is_digit_def)

lemma Atoi_Itoa:
  assumes "- (2 ^ 63) \<le> i" and "i < 2 ^ 63"
  shows "Atoi (Itoa i) = Inr i"
proof (cases "i < 0")
  case True
  with assms have "ParseUint (nat_digits (nat (- i))) 10 64 = Inr (nat (- i))"
    by (intro ParseUint_nat_digits) simp
  with True assms show ?thesis by (simp add: Atoi_def ParseInt_def Itoa_def)
next
  case False
  obtain c t where ct: "nat_digits (nat i) = c # t" by (cases "nat_digits (nat i)") auto
  with hd_nat_digits [of "nat i"] have "is_digit c" by simp
  then have "c \<noteq> CHR ''-''" "c \<noteq> CHR ''+''" by auto
  moreover from False assms have "ParseUint (nat_digits (nat i)) 10 64 = Inr (nat i)"
    by (intro ParseUint_nat_digits) simp
  ultimately show ?thesis using False assms ct by (simp add: Atoi_def ParseInt_def Itoa_def)
qed

lemma uint_digits_limit: "n \<le> l \<Longrightarrow> uint_digits b l n s = Inr m \<Longrightarrow> m \<le> l"
proof (induction s arbitrary: n)
  case (Cons c s)
  then show ?case by (simp add: Let_def not_less split: if_splits)
qed simp

lemma ParseUint_bound: "ParseUint s base bits = Inr n \<Longrightarrow> n < 2 ^ bits"
proof -
  assume "ParseUint s base bits = Inr n"
  then have "n \<le> 2 ^ bits - 1"
    by (auto simp: ParseUint_def dest: uint_digits_limit [rotated] split: if_splits)
  moreover have "(0 :: nat) < 2 ^ bits" by simp
  ultimately show ?thesis by linarith
qed

lemma ParseInt_bounds:
  assumes "ParseInt s base bits = Inr i"
  shows "- (2 ^ (bits - 1)) \<le> i \<and> i < 2 ^ (bits - 1)"
proof -
  from assms obtain un where
    "i = int un \<and> un < 2 ^ (bits - 1) \<or> i = - int un \<and> un \<le> 2 ^ (bits - 1)"
    by (fastforce simp: ParseInt_def Let_def not_le not_less split: sum.splits if_splits)
  moreover have "un < 2 ^ (bits - 1) \<Longrightarrow> int un < 2 ^ (bits - 1)"
    by (metis of_nat_less_iff of_nat_numeral of_nat_power)
  moreover have "un \<le> 2 ^ (bits - 1) \<Longrightarrow> int un \<le> 2 ^ (bits - 1)"
    by (metis of_nat_le_iff of_nat_numeral of_nat_power)
  moreover have "(0 :: int) < 2 ^ (bits - 1)" by simp
  ultimately show ?thesis by linarith
qed

end
