(* ===== verification/Errors.thy ===== *)
theory Errors
  imports GoNum "HOL-Library.Signed_Division"
begin

text \<open>
  The FTP reply codes (\<^verbatim>\<open>reply_codes.go\<close>), the error type \<open>ftpError\<close> with its methods
  (\<^verbatim>\<open>client.go\<close>), and \<open>fmt.Sprintf\<close> as the client uses it to build commands.

  A Go \<open>error\<close> is a value of \<open>goerror\<close>: the client's own \<open>ftpError\<close>, an error built
  by \<open>fmt.Errorf\<close> or \<open>errors.New\<close> (kept as its format and operands, not rendered),
  or an error of a library. Text that is only shown to a person is kept in this structured form;
  text that goes over the wire is rendered by \<open>Sprintf\<close>.
\<close>

section \<open>Reply codes\<close>

definition replyGroupPreliminaryReply :: int where "replyGroupPreliminaryReply = 1"
definition replyGroupPositiveCompletion :: int where "replyGroupPositiveCompletion = 2"
definition replyCommandOkay :: int where "replyCommandOkay = 200"
definition replyFileStatus :: int where "replyFileStatus = 213"
definition replyServiceReady :: int where "replyServiceReady = 220"
definition replyEnteringPassiveMode :: int where "replyEnteringPassiveMode = 227"
definition replyEnteringExtendedPassiveMode :: int where "replyEnteringExtendedPassiveMode = 229"
definition replyAuthOkayNoDataNeeded :: int where "replyAuthOkayNoDataNeeded = 234"
definition replyFileActionOkay :: int where "replyFileActionOkay = 250"
definition replyDirCreated :: int where "replyDirCreated = 257"
definition replyNeedPassword :: int where "replyNeedPassword = 331"
definition replyFileActionPending :: int where "replyFileActionPending = 350"
definition replyCommandSyntaxError :: int where "replyCommandSyntaxError = 500"
definition replyCommandNotImplemented :: int where "replyCommandNotImplemented = 502"

lemmas reply_code_defs =
  replyGroupPreliminaryReply_def replyGroupPositiveCompletion_def replyCommandOkay_def
  replyFileStatus_def replyServiceReady_def replyEnteringPassiveMode_def
  replyEnteringExtendedPassiveMode_def replyAuthOkayNoDataNeeded_def replyFileActionOkay_def
  replyDirCreated_def replyNeedPassword_def replyFileActionPending_def
  replyCommandSyntaxError_def replyCommandNotImplemented_def

text \<open>Go's integer division truncates towards zero, as \<open>sdiv\<close> does.\<close>

definition positiveCompletionReply :: "int \<Rightarrow> bool" where
  "positiveCompletionReply code \<longleftrightarrow> code sdiv 100 = 2"

definition positivePreliminaryReply :: "int \<Rightarrow> bool" where
  "positivePreliminaryReply code \<longleftrightarrow> code sdiv 100 = 1"

definition transientNegativeCompletionReply :: "int \<Rightarrow> bool" where
  "transientNegativeCompletionReply code \<longleftrightarrow> code sdiv 100 = 4"

section \<open>Error values\<close>

datatype goerror =
    FtpError (fe_err: "goerror option") (fe_code: int) (fe_msg: string)
             (fe_timeout: bool) (fe_temporary: bool)
  | Errorf string "goarg list"
  | NumError string string numErr
  | TimeError string string
  | ProtocolError string
  | NetError string bool
  | LibError string
and goarg = AStr string | AInt int | AErr goerror | AStrs "string list"

text \<open>The three ways the client fills an \<open>ftpError\<close>: from a reply, around another error,
  and around another error as temporary.\<close>

abbreviation replyErr :: "int \<Rightarrow> string \<Rightarrow> goerror" where
  "replyErr code msg \<equiv> FtpError None code msg False False"

abbreviation wrapErr :: "goerror \<Rightarrow> goerror" where
  "wrapErr e \<equiv> FtpError (Some e) 0 [] False False"

abbreviation tempErr :: "goerror \<Rightarrow> goerror" where
  "tempErr e \<equiv> FtpError (Some e) 0 [] False True"

fun is_ftpError :: "goerror \<Rightarrow> bool" where
  "is_ftpError (FtpError _ _ _ _ _) = True"
| "is_ftpError _ = False"

fun Error :: "goerror \<Rightarrow> string \<times> goarg list" where
  "Error (FtpError (Some e) code msg tmo tmp) = Error e"
| "Error (FtpError None code msg tmo tmp) = (''unexpected response: %d-%s'', [AInt code, AStr msg])"
| "Error (Errorf f as) = (f, as)"
| "Error e = (''%s'', [AErr e])"

text \<open>\<open>Temporary\<close> of a library error is that of \<open>net.Error\<close>; other libraries have none.\<close>

fun Temporary :: "goerror \<Rightarrow> bool" where
  "Temporary (FtpError err code msg tmo tmp) = (tmp \<or> transientNegativeCompletionReply code)"
| "Temporary (NetError _ t) = t"
| "Temporary _ = False"

fun TimedOut :: "goerror \<Rightarrow> bool" where
  "TimedOut (FtpError err code msg tmo tmp) = tmo"
| "TimedOut _ = False"

fun Code :: "goerror \<Rightarrow> int" where
  "Code (FtpError (Some (FtpError e c m o' t)) code msg tmo tmp) = Code (FtpError e c m o' t)"
| "Code (FtpError err code msg tmo tmp) = code"
| "Code _ = 0"

fun Message :: "goerror \<Rightarrow> string" where
  "Message (FtpError (Some (FtpError e c m o' t)) code msg tmo tmp) = Message (FtpError e c m o' t)"
| "Message (FtpError err code msg tmo tmp) = msg"
| "Message _ = []"

section \<open>Formatting\<close>

text \<open>
  \<open>fmt.Sprintf\<close> in the two ways the client calls it: with one operand for each plain
  \<^verbatim>\<open>%s\<close> or \<^verbatim>\<open>%d\<close> of a fixed format, and with a format and no operands. The second is
  the interesting one: the format is then a finished command that may hold a path, and a
  percent sign in it is read as a directive whose operand is missing.
\<close>

definition fmt_arg :: "goarg \<Rightarrow> string" where
  "fmt_arg a = (case a of AStr x \<Rightarrow> x | AInt i \<Rightarrow> Itoa i | _ \<Rightarrow> [])"

fun sprintf_args :: "string \<Rightarrow> goarg list \<Rightarrow> string" where
  "sprintf_args [] as = []"
| "sprintf_args [c] as = [c]"
| "sprintf_args (c # v # t) [] = c # v # t"
| "sprintf_args (c # v # t) (a # as) =
     (if c = CHR ''%'' then fmt_arg a @ sprintf_args t as
      else c # sprintf_args (v # t) (a # as))"

fun parsenum :: "nat \<Rightarrow> bool \<Rightarrow> string \<Rightarrow> bool \<times> string" where
  "parsenum num isnum [] = (isnum, [])"
| "parsenum num isnum (c # cs) =
     (if is_digit c then
        if 1000000 < num then (False, []) else parsenum (num * 10 + digit c) True cs
      else (isnum, c # cs))"

text \<open>An argument index \<^verbatim>\<open>[n]\<close> with no operands: whether it was one, whether the operand it names
  exists (never), and the rest of the format.\<close>

definition argNumber0 :: "string \<Rightarrow> bool \<times> bool \<times> string" where
  "argNumber0 s =
     (if s = [] \<or> hd s \<noteq> CHR ''['' then (False, True, s)
      else let body = takeWhile (\<lambda>c. c \<noteq> CHR '']'') (tl s);
               rest = dropWhile (\<lambda>c. c \<noteq> CHR '']'') (tl s)
           in if length s < 3 \<or> rest = [] then (False, False, tl s)
              else (parsenum 0 False body = (True, []), False, tl rest))"

definition width0 :: "bool \<Rightarrow> string \<Rightarrow> string \<times> bool \<times> bool \<times> string" where
  "width0 afterIndex s =
     (if s \<noteq> [] \<and> hd s = CHR ''*'' then (''%!(BADWIDTH)'', False, True, tl s)
      else let (isnum, r) = parsenum 0 False s in ([], afterIndex, \<not> (afterIndex \<and> isnum), r))"

definition prec0 :: "bool \<Rightarrow> string \<Rightarrow> string \<times> bool \<times> bool \<times> string" where
  "prec0 afterIndex s =
     (if s = [] \<or> hd s \<noteq> CHR ''.'' then ([], afterIndex, True, s)
      else let (found, good, r) = argNumber0 (tl s)
           in if r \<noteq> [] \<and> hd r = CHR ''*'' then (''%!(BADPREC)'', False, good \<and> \<not> afterIndex, tl r)
              else ([], found, good \<and> \<not> afterIndex, snd (parsenum 0 False r)))"

text \<open>What one directive prints when there is no operand, and the format after it.\<close>

definition directive0 :: "string \<Rightarrow> string \<times> string" where
  "directive0 s =
     (let (a1, g1, s1) = argNumber0 (dropWhile (\<lambda>c. c \<in> set ''#0+- '') s);
          (w, a2, g2, s2) = width0 a1 s1;
          (p, a3, g3, s3) = prec0 a2 s2;
          (a4, g4, s4) = (if a3 then (True, True, s3) else argNumber0 s3)
      in if s4 = [] then (w @ p @ ''%!(NOVERB)'', [])
         else if hd s4 = CHR ''%'' then (w @ p @ ''%'', tl s4)
         else if \<not> (g1 \<and> g2 \<and> g3 \<and> g4) then (w @ p @ ''%!'' @ [hd s4] @ ''(BADINDEX)'', tl s4)
         else (w @ p @ ''%!'' @ [hd s4] @ ''(MISSING)'', tl s4))"

lemma parsenum_length: "length (snd (parsenum n b s)) \<le> length s"
  by (induction s arbitrary: n b) (auto simp: le_Suc_eq)

lemma argNumber0_length: "length (snd (snd (argNumber0 s))) \<le> length s"
proof -
  have "length (dropWhile P (tl s)) - 1 \<le> length s" for P
    using length_dropWhile_le [of P "tl s"] by simp
  then show ?thesis by (simp add: argNumber0_def Let_def)
qed

lemma width0_length: "length (snd (snd (snd (width0 a s)))) \<le> length s"
  using parsenum_length [of 0 False s] by (simp add: width0_def split_beta)

lemma prec0_length: "length (snd (snd (snd (prec0 a s)))) \<le> length s"
proof -
  let ?r = "snd (snd (argNumber0 (tl s)))"
  have r: "length ?r \<le> length s" using argNumber0_length [of "tl s"] by simp
  then have "length (snd (parsenum 0 False ?r)) \<le> length s"
    using parsenum_length [of 0 False ?r] by simp
  moreover from r have "length (tl ?r) \<le> length s" by simp
  ultimately show ?thesis by (simp add: prec0_def split_beta Let_def)
qed

lemma directive0_length: "length (snd (directive0 s)) \<le> length s"
proof -
  define f where "f = dropWhile (\<lambda>c. c \<in> set ''#0+- '') s"
  obtain a1 g1 s1 where 1: "argNumber0 f = (a1, g1, s1)" by (metis prod_cases3)
  obtain w a2 g2 s2 where 2: "width0 a1 s1 = (w, a2, g2, s2)" by (metis prod_cases4)
  obtain p a3 g3 s3 where 3: "prec0 a2 s2 = (p, a3, g3, s3)" by (metis prod_cases4)
  obtain a4 g4 s4 where 4: "(if a3 then (True, True, s3) else argNumber0 s3) = (a4, g4, s4)"
    by (metis prod_cases3)
  have "length s4 \<le> length s3"
    using 4 argNumber0_length [of s3] by (cases a3) simp_all
  also have "\<dots> \<le> length s2" using prec0_length [of a2 s2] 3 by simp
  also have "\<dots> \<le> length s1" using width0_length [of a1 s1] 2 by simp
  also have "\<dots> \<le> length f" using argNumber0_length [of f] 1 by simp
  also have "\<dots> \<le> length s" unfolding f_def by (rule length_dropWhile_le)
  finally have "length s4 \<le> length s" .
  moreover have "snd (directive0 s) = [] \<or> snd (directive0 s) = tl s4"
    unfolding directive0_def f_def [symmetric] 1 Let_def split 2 3 4 by simp
  ultimately show ?thesis by auto
qed

function sprintf0 :: "string \<Rightarrow> string" where
  "sprintf0 [] = []"
| "sprintf0 (c # t) =
     (if c = CHR ''%'' then fst (directive0 t) @ sprintf0 (snd (directive0 t))
      else c # sprintf0 t)"
  by pat_completeness auto
termination
  by (relation "measure length") (auto simp: le_imp_less_Suc directive0_length)

definition Sprintf :: "string \<Rightarrow> goarg list \<Rightarrow> string" where
  "Sprintf f as = (if as = [] then sprintf0 f else sprintf_args f as)"

section \<open>Laws\<close>

lemma sprintf0_plain: "CHR ''%'' \<notin> set s \<Longrightarrow> sprintf0 s = s"
  by (induction s) auto

lemma sdiv_100_eq:
  "(0 :: int) \<le> n \<Longrightarrow> n sdiv 100 = n div 100"
  by (simp add: signed_divide_int_def sgn_if)

end
