(* ===== verification/Net.thy ===== *)
theory Net
  imports Errors
begin

text \<open>
  The outside world of the client: sockets, the FTP server behind them, TLS, the caller's
  readers and writers. None of it is code of the repository, so it is a parameter \<open>net\<close> of the
  operations that use it. Each field of \<open>net\<close> answers one kind of request as a function of the
  whole history of the client's interactions; a server with any internal state is such a function,
  and nothing is assumed about the answers unless a theorem says so.

  The history is a list of events, the newest first. It is the only thing an operation on
  the outside world changes, and it records every byte sent and received, every socket opened
  and closed, every deadline set and every line logged. The handle of a socket is the length of the
  history at the moment the socket was opened, so that no two sockets share one.
\<close>

type_synonym handle = nat
type_synonym location = string

section \<open>Configuration\<close>

record tlsConfig =
  ServerName :: string
  ClientSessionCache :: "nat option"
  InsecureSkipVerify :: bool

datatype TLSMode = TLSExplicit | TLSImplicit

type_synonym stubResponse = "int \<times> string"

text \<open>
  The fields of \<open>Config\<close> that hold functions or interfaces are represented by whether they
  are set (\<open>Logger\<close>, \<open>DialFunc\<close>); what they do is part of \<open>net\<close>. A \<open>nil\<close> map and an
  empty map answer every lookup the same way.
\<close>

record Config =
  User :: string
  Password :: string
  ConnectionsPerHost :: int
  Timeout :: int
  TLSConfig :: "tlsConfig option"
  TLSMode :: TLSMode
  IPv6Lookup :: bool
  Logger :: bool
  ServerLocation :: "location option"
  ActiveTransfers :: bool
  ActiveListenAddr :: string
  DisableEPSV :: bool
  DialFunc :: bool
  EagerConnect :: bool
  stubResponses :: "string \<rightharpoonup> stubResponse"

definition zeroConfig :: Config where
  "zeroConfig = \<lparr>User = [], Password = [], ConnectionsPerHost = 0, Timeout = 0, TLSConfig = None,
     TLSMode = TLSExplicit, IPv6Lookup = False, Logger = False, ServerLocation = None,
     ActiveTransfers = False, ActiveListenAddr = [], DisableEPSV = False, DialFunc = False,
     EagerConnect = False, stubResponses = Map.empty\<rparr>"

section \<open>Connections, events and the environment\<close>

datatype conn = Sock handle | TLSClient conn tlsConfig | TLSServer conn tlsConfig

primrec sock :: "conn \<Rightarrow> handle" where
  "sock (Sock h) = h"
| "sock (TLSClient c _) = sock c"
| "sock (TLSServer c _) = sock c"

datatype event =
    EvDial string "goerror option"
  | EvListen string "goerror + string"
  | EvAccept handle "goerror option"
  | EvHandshake handle "goerror option"
  | EvReadDeadline handle int
  | EvWriteDeadline handle int
  | EvSend conn string "goerror option"
  | EvRecv handle nat
  | EvDataIn handle string "goerror option"
  | EvDataOut handle string nat "goerror option"
  | EvDest string nat "goerror option"
  | EvSrc string "goerror option"
  | EvSeek int "goerror option"
  | EvResolve string
  | EvClose handle "goerror option"
  | EvLog "int option" string "goarg list"

type_synonym history = "event list"

record net =
  net_dialTimeout :: "history \<Rightarrow> string \<Rightarrow> string \<Rightarrow> int \<Rightarrow> goerror option"
  net_dialFunc :: "history \<Rightarrow> string \<Rightarrow> string \<Rightarrow> goerror option"
  net_handshake :: "history \<Rightarrow> handle \<Rightarrow> tlsConfig \<Rightarrow> goerror option"
  net_write :: "history \<Rightarrow> handle \<Rightarrow> string \<Rightarrow> goerror option"
  net_lines :: "history \<Rightarrow> handle \<Rightarrow> string list \<times> goerror"
  net_read :: "history \<Rightarrow> handle \<Rightarrow> string \<times> goerror option"
  net_put :: "history \<Rightarrow> handle \<Rightarrow> string \<Rightarrow> nat \<times> goerror option"
  net_close :: "history \<Rightarrow> handle \<Rightarrow> goerror option"
  net_localAddr :: "history \<Rightarrow> handle \<Rightarrow> string"
  net_remoteAddr :: "history \<Rightarrow> handle \<Rightarrow> string"
  net_resolveTCP :: "history \<Rightarrow> string \<Rightarrow> goerror + string"
  net_listen :: "history \<Rightarrow> string \<Rightarrow> goerror + string"
  net_accept :: "history \<Rightarrow> handle \<Rightarrow> goerror option"
  net_lookupIP :: "history \<Rightarrow> string \<Rightarrow> goerror + string list"
  dest_write :: "history \<Rightarrow> string \<Rightarrow> nat \<times> goerror option"
  src_read :: "history \<Rightarrow> string \<times> goerror option"
  src_seek :: "history \<Rightarrow> int \<Rightarrow> goerror option"

section \<open>System calls\<close>

type_synonym 'a io = "('a, history) go"

definition emit :: "event \<Rightarrow> unit io" where
  "emit ev h = Ret () (ev # h)"

definition DialTimeout :: "net \<Rightarrow> string \<Rightarrow> string \<Rightarrow> int \<Rightarrow> (goerror + conn) io" where
  "DialTimeout net network address tmo h =
     (let r = net_dialTimeout net h network address tmo
      in Ret (case r of None \<Rightarrow> Inr (Sock (length h)) | Some e \<Rightarrow> Inl e) (EvDial address r # h))"

definition callDialFunc :: "net \<Rightarrow> string \<Rightarrow> string \<Rightarrow> (goerror + conn) io" where
  "callDialFunc net network address h =
     (let r = net_dialFunc net h network address
      in Ret (case r of None \<Rightarrow> Inr (Sock (length h)) | Some e \<Rightarrow> Inl e) (EvDial address r # h))"

definition Handshake :: "net \<Rightarrow> conn \<Rightarrow> tlsConfig \<Rightarrow> (goerror option) io" where
  "Handshake net c cfg h =
     (let r = net_handshake net h (sock c) cfg in Ret r (EvHandshake (sock c) r # h))"

definition closeConn :: "net \<Rightarrow> conn \<Rightarrow> (goerror option) io" where
  "closeConn net c h = (let r = net_close net h (sock c) in Ret r (EvClose (sock c) r # h))"

definition SetReadDeadline :: "conn \<Rightarrow> int \<Rightarrow> unit io" where
  "SetReadDeadline c tmo = emit (EvReadDeadline (sock c) tmo)"

definition SetWriteDeadline :: "conn \<Rightarrow> int \<Rightarrow> unit io" where
  "SetWriteDeadline c tmo = emit (EvWriteDeadline (sock c) tmo)"

text \<open>\<open>PrintfLine("%s", line)\<close> of \<open>textproto.Writer\<close>: the line, a CR LF, and a flush.\<close>

abbreviation crlf :: string where
  "crlf \<equiv> [CHR 0x0D, CHR 0x0A]"

definition PrintfLine :: "net \<Rightarrow> conn \<Rightarrow> string \<Rightarrow> (goerror option) io" where
  "PrintfLine net c line h =
     (let r = net_write net h (sock c) (line @ crlf) in Ret r (EvSend c (line @ crlf) r # h))"

subsection \<open>Reading a reply\<close>

text \<open>
  \<open>ReadResponse(0)\<close> of \<open>textproto.Reader\<close>. The environment answers with the lines that
  reach the reader before the deadline or the end of the connection, and the error the reader would meet
  after them; the reader takes from them the lines of one reply. A code line is
  three digits, a space or a hyphen, and a text; a hyphen continues the reply up to a line with the same
  code and a space.
\<close>

definition parseCodeLine :: "string \<Rightarrow> int \<times> bool \<times> string \<times> goerror option" where
  "parseCodeLine line =
     (if length line < 4 \<or> (line ! 3 \<noteq> CHR '' '' \<and> line ! 3 \<noteq> CHR ''-'')
      then (0, False, [], Some (ProtocolError (''short response: '' @ line)))
      else let continued = (line ! 3 = CHR ''-'');
               bad = Some (ProtocolError (''invalid response code: '' @ line))
           in case Atoi (take 3 line) of
                Inl _ \<Rightarrow> (0, continued, [], bad)
              | Inr code \<Rightarrow> if code < 100 then (code, continued, [], bad)
                           else (code, continued, drop 4 line, None))"

fun readMore :: "int \<Rightarrow> string \<Rightarrow> nat \<Rightarrow> string list \<Rightarrow> goerror \<Rightarrow>
    (goerror + string) \<times> nat" where
  "readMore code msg n [] eof = (Inl eof, n)"
| "readMore code msg n (line # ls) eof =
     (case parseCodeLine line of (code2, continued, moreMessage, err) \<Rightarrow>
        if err \<noteq> None \<or> code2 \<noteq> code
        then readMore code (msg @ [CHR 0x0A] @ TrimRight line crlf) (Suc n) ls eof
        else if continued then readMore code (msg @ [CHR 0x0A] @ moreMessage) (Suc n) ls eof
        else (Inr (msg @ [CHR 0x0A] @ moreMessage), Suc n))"

definition responseOf :: "string list \<Rightarrow> goerror \<Rightarrow> (int \<times> string \<times> goerror option) \<times> nat" where
  "responseOf lines eof =
     (case lines of
        [] \<Rightarrow> ((0, [], Some eof), 0)
      | line # ls \<Rightarrow>
          (case parseCodeLine line of (code, continued, msg, err) \<Rightarrow>
             if \<not> continued then ((code, msg, err), 1)
             else (case readMore code msg 1 ls eof of
                     (Inl e, n) \<Rightarrow> ((0, [], Some e), n)
                   | (Inr msg', n) \<Rightarrow> ((code, msg', err), n))))"

definition ReadResponse :: "net \<Rightarrow> conn \<Rightarrow> (int \<times> string \<times> goerror option) io" where
  "ReadResponse net c h =
     (case net_lines net h (sock c) of (lines, eof) \<Rightarrow>
        case responseOf lines eof of (r, n) \<Rightarrow> Ret r (EvRecv (sock c) n # h))"

section \<open>What a history says\<close>

text \<open>The sockets opened and not yet closed, and the lines written to a control connection,
  oldest first.\<close>

fun opened :: "history \<Rightarrow> handle list" where
  "opened [] = []"
| "opened (EvDial _ None # h) = length h # opened h"
| "opened (EvListen _ (Inr _) # h) = length h # opened h"
| "opened (EvAccept _ None # h) = length h # opened h"
| "opened (_ # h) = opened h"

fun closed_socks :: "history \<Rightarrow> handle list" where
  "closed_socks [] = []"
| "closed_socks (EvClose s _ # h) = s # closed_socks h"
| "closed_socks (_ # h) = closed_socks h"

definition live :: "history \<Rightarrow> handle set" where
  "live h = set (opened h) - set (closed_socks h)"

fun sent :: "history \<Rightarrow> string list" where
  "sent [] = []"
| "sent (EvSend _ bytes _ # h) = sent h @ [bytes]"
| "sent (_ # h) = sent h"

fun sent_on :: "history \<Rightarrow> (conn \<times> string) list" where
  "sent_on [] = []"
| "sent_on (EvSend c bytes _ # h) = sent_on h @ [(c, bytes)]"
| "sent_on (_ # h) = sent_on h"

fun logged :: "history \<Rightarrow> (string \<times> goarg list) list" where
  "logged [] = []"
| "logged (EvLog _ f as # h) = logged h @ [(f, as)]"
| "logged (_ # h) = logged h"

text \<open>
  The lines that the server reads on a control socket: it splits what it reads at every LF and drops a CR before it.
  Every write to a control socket ends in CR LF, so that no line spans two writes.
\<close>

definition dropCR :: "string \<Rightarrow> string" where
  "dropCR l = (if l \<noteq> [] \<and> last l = CHR 0x0D then butlast l else l)"

fun linesFrom :: "string \<Rightarrow> string \<Rightarrow> string list" where
  "linesFrom acc [] = []"
| "linesFrom acc (c # s) = (if c = CHR 0x0A then dropCR acc # linesFrom [] s else linesFrom (acc @ [c]) s)"

definition commandLines :: "handle \<Rightarrow> history \<Rightarrow> string list" where
  "commandLines s h = concat (map (\<lambda>(c, bytes). if sock c = s then linesFrom [] bytes else []) (sent_on h))"

text \<open>
  The dialogue on a control socket, the oldest utterance first: the lines that were said, and for every reply that was waited for its
  code, or \<open>Silence\<close> when what was read is not a reply. The code is what the environment answers at that moment.
\<close>

datatype utterance = Said string | Heard int | Silence

definition hearing :: "net \<Rightarrow> handle \<Rightarrow> history \<Rightarrow> utterance" where
  "hearing net s h = (case net_lines net h s of (ls, eof) \<Rightarrow>
     (case responseOf ls eof of ((code, msg, err), n) \<Rightarrow>
        (case err of None \<Rightarrow> Heard code | Some _ \<Rightarrow> Silence)))"

fun dialogue :: "net \<Rightarrow> handle \<Rightarrow> history \<Rightarrow> utterance list" where
  "dialogue net s [] = []"
| "dialogue net s (EvSend c bytes _ # h) =
     (if sock c = s then dialogue net s h @ [Said bytes] else dialogue net s h)"
| "dialogue net s (EvRecv s' _ # h) =
     (if s' = s then dialogue net s h @ [hearing net s h] else dialogue net s h)"
| "dialogue net s (_ # h) = dialogue net s h"

definition extends :: "history \<Rightarrow> history \<Rightarrow> bool" where
  "extends h h' \<longleftrightarrow> (\<exists>ev. h' = ev @ h)"

lemma extends_refl [simp, intro]: "extends h h"
  by (simp add: extends_def)

lemma extends_Cons [simp, intro]: "extends h h' \<Longrightarrow> extends h (e # h')"
  by (auto simp: extends_def)

lemma extends_trans [trans]: "extends h h' \<Longrightarrow> extends h' h'' \<Longrightarrow> extends h h''"
  by (auto simp: extends_def)

abbreviation EOF :: goerror where
  "EOF \<equiv> LibError ''EOF''"

text \<open>
  A scripted environment, on which the witnesses run the model: every call succeeds, a command is
  answered with the lines the script gives for it, and a data connection delivers \<open>data\<close>.
\<close>

fun lastSent :: "history \<Rightarrow> string" where
  "lastSent [] = []"
| "lastSent (EvSend _ bytes _ # h) = bytes"
| "lastSent (_ # h) = lastSent h"

definition scripted :: "(string \<Rightarrow> string list) \<Rightarrow> string \<Rightarrow> net" where
  "scripted script data = \<lparr>
     net_dialTimeout = (\<lambda>_ _ _ _. None), net_dialFunc = (\<lambda>_ _ _. None),
     net_handshake = (\<lambda>_ _ _. None), net_write = (\<lambda>_ _ _. None),
     net_lines = (\<lambda>h _. (script (lastSent h), EOF)),
     net_read = (\<lambda>_ _. (data, Some EOF)), net_put = (\<lambda>_ _ bs. (length bs, None)),
     net_close = (\<lambda>_ _. None), net_localAddr = (\<lambda>_ _. ''10.0.0.1:4000''),
     net_remoteAddr = (\<lambda>_ _. ''10.0.0.2:21''), net_resolveTCP = (\<lambda>_ a. Inr a),
     net_listen = (\<lambda>_ _. Inr ''10.0.0.1:5001''), net_accept = (\<lambda>_ _. None),
     net_lookupIP = (\<lambda>_ _. Inr []), dest_write = (\<lambda>_ bs. (length bs, None)),
     src_read = (\<lambda>_. (data, Some EOF)), src_seek = (\<lambda>_ _. None)\<rparr>"

text \<open>Talking on open sockets: the history grows, and no socket is opened or closed.\<close>

definition same_socks :: "history \<Rightarrow> history \<Rightarrow> bool" where
  "same_socks h h' \<longleftrightarrow>
     extends h h' \<and> opened h' = opened h \<and> closed_socks h' = closed_socks h"

lemma same_socks_refl [simp, intro]: "same_socks h h"
  by (simp add: same_socks_def)

lemma same_socks_trans [trans]: "same_socks h h' \<Longrightarrow> same_socks h' h'' \<Longrightarrow> same_socks h h''"
  by (auto simp: same_socks_def intro: extends_trans)

lemma same_socks_live: "same_socks h h' \<Longrightarrow> live h' = live h"
  by (simp add: same_socks_def live_def)

lemma same_socks_talk [simp]:
  "same_socks h (EvSend c b r # h') = same_socks h h'"
  "same_socks h (EvRecv s n # h') = same_socks h h'"
  "same_socks h (EvReadDeadline s t # h') = same_socks h h'"
  "same_socks h (EvWriteDeadline s t # h') = same_socks h h'"
  "same_socks h (EvLog i f as # h') = same_socks h h'"
  if "extends h h'"
  using that by (auto simp: same_socks_def)

lemma opened_less: "s \<in> set (opened h) \<Longrightarrow> s < length h"
  by (induction h rule: opened.induct) auto

lemma length_notin_live: "length h \<notin> live h"
  using opened_less [of "length h" h] by (auto simp: live_def)

lemma live_dial [simp]: "live (EvDial a (Some e) # h) = live h"
  "live (EvDial a None # h) - {length h} = live h"
  using length_notin_live [of h] by (auto simp: live_def)

lemma live_listen [simp]: "live (EvListen a (Inl e) # h) = live h"
  "live (EvListen a (Inr b) # h) - {length h} = live h"
  "live (EvAccept l (Some e) # h) = live h" "live (EvAccept l None # h) - {length h} = live h"
  using length_notin_live [of h] by (auto simp: live_def)

lemma live_quiet [simp]:
  "live (EvHandshake s r # h) = live h" "live (EvReadDeadline s t # h) = live h"
  "live (EvWriteDeadline s t # h) = live h" "live (EvSend c b r # h) = live h"
  "live (EvRecv s n # h) = live h" "live (EvDataIn s b r # h) = live h"
  "live (EvDataOut s b n r # h) = live h"
  "live (EvDest b n r # h) = live h" "live (EvSrc b r # h) = live h"
  "live (EvSeek i r # h) = live h"
  "live (EvResolve a # h) = live h" "live (EvLog j f as # h) = live h"
  by (simp_all add: live_def)

lemma live_close [simp]: "live (EvClose s r # h) = live h - {s}"
  by (auto simp: live_def)

section \<open>Command lines\<close>

lemma linesFrom_line: "CHR 0x0A \<notin> set l \<Longrightarrow> linesFrom acc (l @ crlf @ rest) = (acc @ l) # linesFrom [] rest"
  by (induction l arbitrary: acc) (auto simp: dropCR_def)

lemma linesFrom_Join:
  "ls \<noteq> [] \<Longrightarrow> (\<And>l. l \<in> set ls \<Longrightarrow> CHR 0x0A \<notin> set l) \<Longrightarrow> linesFrom [] (Join ls crlf @ crlf) = ls"
proof (induction ls crlf rule: Join.induct)
  case (2 l)
  then show ?case using linesFrom_line [of l "[]" "[]"] by simp
next
  case (3 l l' ls)
  then show ?case using linesFrom_line [of l "[]" "Join (l' # ls) crlf @ crlf"] by simp
qed simp

lemma length_linesFrom: "length (linesFrom acc s) = count_list s (CHR 0x0A)"
  by (induction s arbitrary: acc) simp_all

section \<open>Rules of the system calls\<close>

lemma wp_emit [wp_simps]: "wp (emit ev) Q E h = Q () (ev # h)"
  by (simp add: wp_def emit_def)

lemma wp_PrintfLine [wp_simps]:
  "wp (PrintfLine net c line) Q E h =
     (let r = net_write net h (sock c) (line @ crlf) in Q r (EvSend c (line @ crlf) r # h))"
  by (simp add: wp_def PrintfLine_def Let_def)

lemma wp_ReadResponse [wp_simps]:
  "wp (ReadResponse net c) Q E h =
     (case net_lines net h (sock c) of (lines, eof) \<Rightarrow>
        case responseOf lines eof of (r, n) \<Rightarrow> Q r (EvRecv (sock c) n # h))"
  by (simp add: wp_def ReadResponse_def split: prod.split)

lemma wp_closeConn [wp_simps]:
  "wp (closeConn net c) Q E h =
     (let r = net_close net h (sock c) in Q r (EvClose (sock c) r # h))"
  by (simp add: wp_def closeConn_def Let_def)

lemma wp_Handshake [wp_simps]:
  "wp (Handshake net c cfg) Q E h =
     (let r = net_handshake net h (sock c) cfg in Q r (EvHandshake (sock c) r # h))"
  by (simp add: wp_def Handshake_def Let_def)

lemma wp_DialTimeout [wp_simps]:
  "wp (DialTimeout net network address tmo) Q E h =
     (let r = net_dialTimeout net h network address tmo
      in Q (case r of None \<Rightarrow> Inr (Sock (length h)) | Some e \<Rightarrow> Inl e) (EvDial address r # h))"
  by (simp add: wp_def DialTimeout_def Let_def)

lemma wp_callDialFunc [wp_simps]:
  "wp (callDialFunc net network address) Q E h =
     (let r = net_dialFunc net h network address
      in Q (case r of None \<Rightarrow> Inr (Sock (length h)) | Some e \<Rightarrow> Inl e) (EvDial address r # h))"
  by (simp add: wp_def callDialFunc_def Let_def)

lemma wp_SetReadDeadline [wp_simps]:
  "wp (SetReadDeadline c tmo) Q E h = Q () (EvReadDeadline (sock c) tmo # h)"
  by (simp add: SetReadDeadline_def wp_simps)

lemma wp_SetWriteDeadline [wp_simps]:
  "wp (SetWriteDeadline c tmo) Q E h = Q () (EvWriteDeadline (sock c) tmo # h)"
  by (simp add: SetWriteDeadline_def wp_simps)

section \<open>Reading a reply of several lines\<close>

text \<open>The lines inside a reply that start with a space are not code lines, so they are taken as
  they are.\<close>

lemma Atoi_space: "Atoi (CHR '' '' # s) = Inl ErrSyntax"
  by (simp add: Atoi_def ParseInt_def ParseUint_def is_digit_def)

lemma parseCodeLine_space: "\<exists>c k m e. parseCodeLine (CHR '' '' # l) = (c, k, m, Some e)"
  by (auto simp: parseCodeLine_def Atoi_space Let_def)

lemma parseCodeLine_code:
  assumes "100 \<le> code" and "code < 1000" and "c \<in> {CHR '' '', CHR ''-''}"
  shows "parseCodeLine (Itoa code @ c # t) = (code, c = CHR ''-'', t, None)"
proof -
  define n where "n = nat code"
  have n: "100 \<le> n" "n < 1000" using assms(1,2) by (simp_all add: n_def)
  have "nat_digits (n div 10 div 10) = [char_of (48 + n div 10 div 10)]"
    using n by (subst nat_digits.simps) auto
  then have "nat_digits (n div 10) = [char_of (48 + n div 10 div 10), char_of (48 + n div 10 mod 10)]"
    using n by (subst nat_digits.simps) auto
  then have "length (nat_digits n) = 3" using n by (subst nat_digits.simps) auto
  then have len: "length (Itoa code) = 3" using assms(1) by (simp add: Itoa_def n_def)
  then have "take 3 (Itoa code @ c # t) = Itoa code" "drop 4 (Itoa code @ c # t) = t"
    "(Itoa code @ c # t) ! 3 = c" by (simp_all add: nth_append)
  moreover have "Atoi (Itoa code) = Inr code" using assms(1,2) by (intro Atoi_Itoa) simp_all
  ultimately show ?thesis using assms len by (auto simp: parseCodeLine_def)
qed

lemma readMore_body:
  assumes "\<And>l. l \<in> set body \<Longrightarrow> \<exists>t. l = CHR '' '' # t \<and> TrimRight l crlf = l"
    and "parseCodeLine final = (code, False, u, None)"
  shows "readMore code msg n (body @ [final]) eof =
    (Inr (Join (msg # body @ [u]) [CHR 0x0A]), n + length body + 1)"
  using assms(1)
proof (induction body arbitrary: msg n)
  case Nil
  then show ?case using assms(2) by simp
next
  case (Cons l body)
  from Cons.prems [of l] obtain t where l: "l = CHR '' '' # t" "TrimRight l crlf = l" by auto
  obtain c k m e where "parseCodeLine l = (c, k, m, Some e)"
    using parseCodeLine_space [of t] l(1) by auto
  then have "readMore code msg n ((l # body) @ [final]) eof =
      readMore code (msg @ [CHR 0x0A] @ l) (Suc n) (body @ [final]) eof"
    using l(2) by simp
  also have "\<dots> = (Inr (Join ((msg @ [CHR 0x0A] @ l) # body @ [u]) [CHR 0x0A]), Suc n + length body + 1)"
    using Cons by auto
  finally show ?case by (cases body) simp_all
qed

lemma responseOf_multiline:
  assumes code: "100 \<le> code" "code < 1000"
    and body: "\<And>l. l \<in> set body \<Longrightarrow> \<exists>t. l = CHR '' '' # t \<and> TrimRight l crlf = l"
  shows "responseOf ((Itoa code @ CHR ''-'' # t) # body @ [Itoa code @ CHR '' '' # u]) eof =
    ((code, Join (t # body @ [u]) [CHR 0x0A], None), length body + 2)"
  using readMore_body [OF body parseCodeLine_code [OF code, of "CHR '' ''" u, simplified]]
  by (simp add: responseOf_def parseCodeLine_code [OF code, of "CHR ''-''" t, simplified])

lemma responseOf_line:
  assumes "100 \<le> code" "code < 1000"
  shows "responseOf ((Itoa code @ CHR '' '' # t) # rest) eof = ((code, t, None), 1)"
  using parseCodeLine_code [OF assms, of "CHR '' ''" t] by (simp add: responseOf_def)

end
