(* ===== verification/NetAddr.thy ===== *)
theory NetAddr
  imports Errors
begin

text \<open>
  Addresses as Go's package \<open>net\<close> writes them: \<open>SplitHostPort\<close> and \<open>JoinHostPort\<close>.
\<close>

abbreviation colon :: char where "colon \<equiv> CHR '':''"
abbreviation lbracket :: char where "lbracket \<equiv> CHR ''[''"
abbreviation rbracket :: char where "rbracket \<equiv> CHR '']''"

definition addrErr :: "string \<Rightarrow> string \<Rightarrow> goerror" where
  "addrErr addr why = NetError (''address '' @ addr @ '': '' @ why) False"

text \<open>
  The port starts after the last colon. A host in brackets must be closed just before that
  colon; a host without brackets holds no colon; no bracket may appear anywhere else.
\<close>

definition SplitHostPort :: "string \<Rightarrow> goerror + string \<times> string" where
  "SplitHostPort hostport =
     (let i = LastIndex hostport '':'';
          port = drop (nat (i + 1)) hostport
      in if i < 0 then Inl (addrErr hostport ''missing port in address'')
         else if hd hostport = lbracket then
           (let end = Index hostport '']''
            in if end < 0 then Inl (addrErr hostport ''missing ']' in address'')
               else if end + 1 = int (length hostport)
                 then Inl (addrErr hostport ''missing port in address'')
               else if end + 1 \<noteq> i then
                 (if hostport ! nat (end + 1) = colon
                  then Inl (addrErr hostport ''too many colons in address'')
                  else Inl (addrErr hostport ''missing port in address''))
               else if lbracket \<in> set (tl hostport)
                 then Inl (addrErr hostport ''unexpected '[' in address'')
               else if rbracket \<in> set (drop (nat (end + 1)) hostport)
                 then Inl (addrErr hostport ''unexpected ']' in address'')
               else Inr (slice hostport 1 end, port))
         else
           (let host = take (nat i) hostport
            in if colon \<in> set host then Inl (addrErr hostport ''too many colons in address'')
               else if lbracket \<in> set hostport
                 then Inl (addrErr hostport ''unexpected '[' in address'')
               else if rbracket \<in> set hostport
                 then Inl (addrErr hostport ''unexpected ']' in address'')
               else Inr (host, port)))"

definition JoinHostPort :: "string \<Rightarrow> string \<Rightarrow> string" where
  "JoinHostPort host port =
     (if colon \<in> set host then ''['' @ host @ '']:'' @ port else host @ '':'' @ port)"

text \<open>What \<open>JoinHostPort\<close> writes, \<open>SplitHostPort\<close> reads back.\<close>

lemma SplitHostPort_JoinHostPort:
  assumes "set host \<inter> {lbracket, rbracket} = {}" and "set port \<inter> {colon, lbracket, rbracket} = {}"
  shows "SplitHostPort (JoinHostPort host port) = Inr (host, port)"
proof (cases "colon \<in> set host")
  case True
  let ?s = "''['' @ host @ '']:'' @ port"
  have "?s = (''['' @ host @ '']'') @ colon # port" by simp
  moreover have "LastIndex ((''['' @ host @ '']'') @ colon # port) [colon] = int (length (''['' @ host @ '']''))"
    using assms by (intro LastIndex_char) auto
  ultimately have last: "LastIndex ?s '':'' = int (length host) + 2" by simp
  have "Index ((''['' @ host) @ rbracket # (colon # port)) [rbracket] = int (length (''['' @ host))"
    using assms by (intro Index_char) auto
  then have first: "Index ?s '']'' = int (length host) + 1" by simp
  define s where "s = ?s"
  have s: "LastIndex s '':'' = int (length host) + 2" "Index s '']'' = int (length host) + 1"
    using last first by (simp_all only: s_def)
  have parts: "hd s = lbracket" "length s = length host + 3 + length port"
    "drop (nat (3 + int (length host))) s = port"
    "drop (nat (2 + int (length host))) s = colon # port" "take (length host) (drop (Suc 0) s) = host" "tl s = host @ '']:'' @ port"
    by (simp_all add: s_def nat_add_distrib numeral_3_eq_3)
  have "SplitHostPort s = Inr (host, port)"
    unfolding SplitHostPort_def Let_def s
    using assms by (simp add: parts slice_def)
  with True show ?thesis by (simp add: JoinHostPort_def s_def)
next
  case False
  have "LastIndex (host @ colon # port) [colon] = int (length host)"
    using assms by (intro LastIndex_char) auto
  then have last: "LastIndex (host @ '':'' @ port) '':'' = int (length host)" by simp
  have "hd (host @ '':'' @ port) \<noteq> lbracket" using assms by (cases host) auto
  moreover have "nat (int (length host) + 1) = Suc (length host)" by simp
  ultimately show ?thesis
    using False assms last unfolding JoinHostPort_def SplitHostPort_def Let_def by auto
qed

end
