(* ===== verification/Control.thy ===== *)
theory Control
  imports Net NetAddr
begin

text \<open>
  One connection to an FTP server (\<^verbatim>\<open>persistent_connection.go\<close>): its state
  \<open>persistentConn\<close>, sending commands and reading replies on the control channel, logging in,
  the features the server announced, the transfer type, and the TLS configuration of its channels.

  The Go methods change the connection they are called on, so they are transformers of a
  \<open>pworld\<close>: the connection and the history of the outside world. The buffered reader and
  writer of the control socket are those of \<open>controlConn\<close> at all times
  (\<open>setControlConn\<close> replaces the three together) and are not separate fields; the start time
  \<open>t0\<close> only labels log lines and is left out with the time stamps.
\<close>

record dataConn =
  Conn :: conn
  dcTimeout :: int

record persistentConn =
  controlConn :: "conn option"
  pdataConn :: "dataConn option"
  config :: Config
  broken :: bool
  idx :: int
  features :: "string \<rightharpoonup> string"
  sessionCache :: nat
  epsvNotSupported :: bool
  currentType :: string
  host :: string

record pworld =
  pconn :: persistentConn
  hist :: history

definition io :: "'a io \<Rightarrow> ('a, pworld) go" where
  "io m = zoom hist (\<lambda>h w. w\<lparr>hist := h\<rparr>) m"

definition updPconn :: "(persistentConn \<Rightarrow> persistentConn) \<Rightarrow> (unit, pworld) go" where
  "updPconn f = modify (\<lambda>w. w\<lparr>pconn := f (pconn w)\<rparr>)"

text \<open>A method call on a \<open>nil\<close> control connection is a \<open>nil\<close> dereference.\<close>

definition withControl :: "(conn \<Rightarrow> ('a, pworld) go) \<Rightarrow> ('a, pworld) go" where
  "withControl f = seq (gets (\<lambda>w. controlConn (pconn w))) (\<lambda>c.
     case c of None \<Rightarrow> abort_with (Panicked ''nil pointer dereference'') | Some c \<Rightarrow> f c)"

section \<open>The control channel\<close>

definition debug :: "string \<Rightarrow> goarg list \<Rightarrow> (unit, pworld) go" where
  "debug f as = seq (gets pconn) (\<lambda>pc.
     if \<not> Logger (config pc) then ret () else io (emit (EvLog (Some (idx pc)) f as)))"

definition setControlConn :: "conn \<Rightarrow> (unit, pworld) go" where
  "setControlConn c = updPconn (\<lambda>pc. pc\<lparr>controlConn := Some c\<rparr>)"

definition close :: "net \<Rightarrow> (goerror option, pworld) go" where
  "close net =
     seq (debug ''closing'' []) (\<lambda>_.
     seq (gets pconn) (\<lambda>pc.
     seq (case pdataConn pc of None \<Rightarrow> ret None | Some dc \<Rightarrow> io (closeConn net (Conn dc))) (\<lambda>_.
     case controlConn pc of None \<Rightarrow> ret None | Some c \<Rightarrow> io (closeConn net c))))"

definition readResponse :: "net \<Rightarrow> (int \<times> string \<times> goerror option, pworld) go" where
  "readResponse net =
     withControl (\<lambda>c.
     seq (gets pconn) (\<lambda>pc.
     seq (io (SetReadDeadline c (Timeout (config pc)))) (\<lambda>_.
     seq (io (ReadResponse net c)) (\<lambda>(code, msg, err).
     case err of
       None \<Rightarrow> ret (code, msg, None)
     | Some e \<Rightarrow>
         seq (updPconn (\<lambda>pc. pc\<lparr>broken := True\<rparr>)) (\<lambda>_.
         seq (debug ''error reading response: %s'' [AErr e]) (\<lambda>_.
         ret (code, msg, Some (tempErr (Errorf ''error reading response: %s'' [AErr e])))))))))"

definition sendCommand :: "net \<Rightarrow> string \<Rightarrow> goarg list \<Rightarrow>
    (int \<times> string \<times> goerror option, pworld) go" where
  "sendCommand net f as =
     (let cmd = Sprintf f as;
          logName = (if HasPrefix cmd ''PASS'' then ''PASS ******'' else cmd)
      in seq (debug ''sending command %s'' [AStr logName]) (\<lambda>_.
         seq (gets pconn) (\<lambda>pc.
         case stubResponses (config pc) cmd of
           Some (code, msg) \<Rightarrow>
             seq (debug ''got stub response %d-%s'' [AInt code, AStr msg]) (\<lambda>_.
             ret (code, msg, None))
         | None \<Rightarrow>
             withControl (\<lambda>c.
             seq (io (SetWriteDeadline c (Timeout (config pc)))) (\<lambda>_.
             seq (io (PrintfLine net c cmd)) (\<lambda>werr.
             case werr of
               Some e \<Rightarrow>
                 seq (updPconn (\<lambda>pc. pc\<lparr>broken := True\<rparr>)) (\<lambda>_.
                 seq (debug ''error sending command \"%s\": %s'' [AStr logName, AErr e]) (\<lambda>_.
                 ret (0, [], Some (tempErr (Errorf ''error writing command: %s'' [AErr e])))))
             | None \<Rightarrow>
                 seq (readResponse net) (\<lambda>(code, msg, err).
                 case err of
                   Some e \<Rightarrow> ret (0, [], Some e)
                 | None \<Rightarrow>
                     seq (debug ''got %d-%s'' [AInt code, AStr msg]) (\<lambda>_.
                     ret (code, msg, None)))))))))"

definition replyOk :: "int \<Rightarrow> int \<Rightarrow> bool" where
  "replyOk expected code =
     (if expected = replyGroupPositiveCompletion \<or> expected = replyGroupPreliminaryReply
      then code sdiv 100 = expected else code = expected)"

definition sendCommandExpected :: "net \<Rightarrow> int \<Rightarrow> string \<Rightarrow> goarg list \<Rightarrow>
    (goerror option, pworld) go" where
  "sendCommandExpected net expected f as =
     seq (sendCommand net f as) (\<lambda>(code, msg, err).
     case err of
       Some e \<Rightarrow> ret (Some e)
     | None \<Rightarrow> if \<not> replyOk expected code then ret (Some (replyErr code msg)) else ret None)"

section \<open>Features\<close>

definition featureLine :: "string \<Rightarrow> (string \<times> string) option" where
  "featureLine line =
     (if line \<noteq> [] \<and> hd line = CHR '' '' then
        (case SplitN2 (TrimSpace line) '' '' of
           [name] \<Rightarrow> Some (ToUpper name, [])
         | [name, arg] \<Rightarrow> Some (ToUpper name, arg)
         | _ \<Rightarrow> None)
      else None)"

fun addFeatures :: "string list \<Rightarrow> (string \<rightharpoonup> string) \<Rightarrow> (string \<rightharpoonup> string)" where
  "addFeatures [] m = m"
| "addFeatures (line # ls) m =
     addFeatures ls (case featureLine line of None \<Rightarrow> m | Some (name, arg) \<Rightarrow> m(name \<mapsto> arg))"

definition fetchFeatures :: "net \<Rightarrow> (goerror option, pworld) go" where
  "fetchFeatures net =
     seq (sendCommand net ''FEAT'' []) (\<lambda>(code, msg, err).
     case err of
       Some e \<Rightarrow> ret (Some e)
     | None \<Rightarrow>
         if \<not> positiveCompletionReply code then
           seq (debug ''server doesn't support FEAT: %d-%s'' [AInt code, AStr msg]) (\<lambda>_. ret None)
         else
           seq (updPconn (\<lambda>pc. pc\<lparr>features := addFeatures (Split msg [CHR 0x0A]) (features pc)\<rparr>))
             (\<lambda>_. ret None))"

definition hasFeature :: "persistentConn \<Rightarrow> string \<Rightarrow> bool" where
  "hasFeature pc name \<longleftrightarrow> features pc name \<noteq> None"

definition hasFeatureWithArg :: "persistentConn \<Rightarrow> string \<Rightarrow> string \<Rightarrow> bool" where
  "hasFeatureWithArg pc name arg = (features pc name = Some (ToUpper arg))"

section \<open>Logging in\<close>

definition logIn :: "net \<Rightarrow> (goerror option, pworld) go" where
  "logIn net =
     seq (gets (\<lambda>w. config (pconn w))) (\<lambda>cfg.
     if User cfg = [] then ret None
     else
       seq (sendCommand net ''USER %s'' [AStr (User cfg)]) (\<lambda>(code, msg, err).
       case err of
         Some e \<Rightarrow> seq (updPconn (\<lambda>pc. pc\<lparr>broken := True\<rparr>)) (\<lambda>_. ret (Some e))
       | None \<Rightarrow>
           seq (if code = replyNeedPassword
                then sendCommand net ''PASS %s'' [AStr (Password cfg)]
                else ret (code, msg, None)) (\<lambda>(code, msg, err).
           case err of
             Some e \<Rightarrow> ret (Some e)
           | None \<Rightarrow>
               if \<not> positiveCompletionReply code then ret (Some (replyErr code msg))
               else if TLSConfig cfg \<noteq> None \<and> TLSMode cfg = TLSImplicit then
                 seq (sendCommandExpected net replyGroupPositiveCompletion ''PBSZ 0'' []) (\<lambda>err.
                 case err of
                   Some e \<Rightarrow> ret (Some e)
                 | None \<Rightarrow> sendCommandExpected net replyGroupPositiveCompletion ''PROT P'' [])
               else ret None)))"

definition dataChannelTLSConfig :: "persistentConn \<Rightarrow> tlsConfig option" where
  "dataChannelTLSConfig pc =
     (case TLSConfig (config pc) of
        None \<Rightarrow> None
      | Some cfg \<Rightarrow>
          let cfg1 = (if ClientSessionCache cfg = None
                      then cfg\<lparr>ClientSessionCache := Some (sessionCache pc)\<rparr> else cfg)
          in Some (if ServerName cfg1 = []
                   then cfg1\<lparr>ServerName := (case SplitHostPort (host pc) of
                                              Inr (h, _) \<Rightarrow> h | Inl _ \<Rightarrow> host pc),
                             InsecureSkipVerify := InsecureSkipVerify cfg\<rparr>
                   else cfg1))"

text \<open>A \<open>nil\<close> configuration is the zero configuration, as \<^verbatim>\<open>crypto/tls\<close> has it.\<close>

definition zeroTLSConfig :: tlsConfig where
  "zeroTLSConfig = \<lparr>ServerName = [], ClientSessionCache = None, InsecureSkipVerify = False\<rparr>"

definition tlsClient :: "conn \<Rightarrow> tlsConfig option \<Rightarrow> conn" where
  "tlsClient c cfg = TLSClient c (case cfg of None \<Rightarrow> zeroTLSConfig | Some cfg \<Rightarrow> cfg)"

definition logInTLS :: "net \<Rightarrow> (goerror option, pworld) go" where
  "logInTLS net =
     seq (sendCommandExpected net replyAuthOkayNoDataNeeded ''AUTH TLS'' []) (\<lambda>err.
     case err of
       Some e \<Rightarrow> ret (Some e)
     | None \<Rightarrow>
         withControl (\<lambda>c.
         seq (gets pconn) (\<lambda>pc.
         seq (setControlConn (tlsClient c (dataChannelTLSConfig pc))) (\<lambda>_.
         seq (logIn net) (\<lambda>err.
         case err of
           Some e \<Rightarrow> ret (Some e)
         | None \<Rightarrow>
             seq (sendCommandExpected net replyGroupPositiveCompletion ''PBSZ 0'' []) (\<lambda>err.
             case err of
               Some e \<Rightarrow> ret (Some e)
             | None \<Rightarrow>
                 seq (sendCommandExpected net replyGroupPositiveCompletion ''PROT P'' []) (\<lambda>err.
                 case err of
                   Some e \<Rightarrow> ret (Some e)
                 | None \<Rightarrow>
                     seq (debug ''successfully upgraded to TLS'' []) (\<lambda>_. ret None))))))))"

section \<open>The transfer type\<close>

definition setType :: "net \<Rightarrow> string \<Rightarrow> (goerror option, pworld) go" where
  "setType net t =
     seq (gets pconn) (\<lambda>pc.
     if currentType pc = t then
       seq (debug ''type already set to %s'' [AStr t]) (\<lambda>_. ret None)
     else
       seq (sendCommandExpected net replyCommandOkay ''TYPE %s'' [AStr t]) (\<lambda>err.
       case err of
         Some e \<Rightarrow> seq (updPconn (\<lambda>pc. pc\<lparr>currentType := t\<rparr>)) (\<lambda>_. ret (Some e))
       | None \<Rightarrow> ret None))"

text \<open>A connection to run the witnesses on.\<close>

definition sampleConfig :: Config where
  "sampleConfig = zeroConfig\<lparr>User := ''joe'', Password := ''secret'', ConnectionsPerHost := 2,
     Timeout := 5, Logger := True, ServerLocation := Some ''UTC'', ActiveListenAddr := '':0''\<rparr>"

definition sampleConn :: persistentConn where
  "sampleConn = \<lparr>controlConn = Some (Sock 0), pdataConn = None, config = sampleConfig,
     broken = False, idx = 1, features = Map.empty, sessionCache = 0, epsvNotSupported = False,
     currentType = ''A'', host = ''10.0.0.2:21''\<rparr>"

definition sampleWorld :: pworld where
  "sampleWorld = \<lparr>pconn = sampleConn, hist = [EvDial ''10.0.0.2:21'' None]\<rparr>"

section \<open>Rules\<close>

lemma wp_io [wp_simps]:
  "wp (io m) Q E w = wp m (\<lambda>a h. Q a (w\<lparr>hist := h\<rparr>)) (\<lambda>e h. E e (w\<lparr>hist := h\<rparr>)) (hist w)"
  by (simp add: io_def wp_simps)

lemma wp_updPconn [wp_simps]: "wp (updPconn f) Q E w = Q () (w\<lparr>pconn := f (pconn w)\<rparr>)"
  by (simp add: updPconn_def wp_simps)

lemma wp_debug [wp_simps]:
  "wp (debug f as) Q E w =
     Q () (if Logger (config (pconn w))
           then w\<lparr>hist := EvLog (Some (idx (pconn w))) f as # hist w\<rparr> else w)"
  by (simp add: debug_def wp_simps)

lemma wp_withControl [wp_simps]:
  "wp (withControl f) Q E w =
     (case controlConn (pconn w) of
        None \<Rightarrow> E (Panicked ''nil pointer dereference'') w | Some c \<Rightarrow> wp (f c) Q E w)"
  by (simp add: withControl_def wp_simps split: option.split)

section \<open>The contract of the control-channel operations\<close>

text \<open>
  Every operation on the control channel keeps the identity of the connection, never repairs a broken one,
  and opens and closes no socket (\<open>ctl_step\<close>). It does not panic on a connection that has
  a control socket, and the error it returns is an \<open>ftpError\<close> (\<open>ctl_ok\<close>).
\<close>

definition connected :: "pworld \<Rightarrow> bool" where
  "connected w \<longleftrightarrow> controlConn (pconn w) \<noteq> None"

definition ctl_step :: "pworld \<Rightarrow> pworld \<Rightarrow> bool" where
  "ctl_step w w' \<longleftrightarrow>
     same_socks (hist w) (hist w') \<and> (broken (pconn w) \<longrightarrow> broken (pconn w')) \<and>
     idx (pconn w') = idx (pconn w) \<and> host (pconn w') = host (pconn w) \<and>
     config (pconn w') = config (pconn w) \<and> sessionCache (pconn w') = sessionCache (pconn w) \<and>
     pdataConn (pconn w') = pdataConn (pconn w) \<and>
     map_option sock (controlConn (pconn w')) = map_option sock (controlConn (pconn w))"

definition ctl_ok :: "('a, pworld) go \<Rightarrow> ('a \<Rightarrow> goerror option) \<Rightarrow> bool" where
  "ctl_ok m err \<longleftrightarrow>
     (\<forall>w. connected w \<longrightarrow>
        wp m (\<lambda>a w'. ctl_step w w' \<and> (\<forall>e. err a = Some e \<longrightarrow> is_ftpError e)) never w)"

named_theorems ctl_rules \<open>operations within the control-channel contract\<close>

lemma ctl_step_refl [simp, intro]: "ctl_step w w"
  by (simp add: ctl_step_def)

lemma ctl_step_trans [trans]: "ctl_step w w' \<Longrightarrow> ctl_step w' w'' \<Longrightarrow> ctl_step w w''"
  by (auto simp: ctl_step_def intro: same_socks_trans)

lemma ctl_step_connected: "ctl_step w w' \<Longrightarrow> connected w \<Longrightarrow> connected w'"
  by (auto simp: ctl_step_def connected_def)

lemma ctl_okI:
  "(\<And>w. connected w \<Longrightarrow>
      wp m (\<lambda>a w'. ctl_step w w' \<and> (\<forall>e. err a = Some e \<longrightarrow> is_ftpError e)) never w) \<Longrightarrow>
     ctl_ok m err"
  by (simp add: ctl_ok_def)

lemma ctl_okD:
  "ctl_ok m err \<Longrightarrow> connected w \<Longrightarrow>
     wp m (\<lambda>a w'. ctl_step w w' \<and> (\<forall>e. err a = Some e \<longrightarrow> is_ftpError e)) never w"
  by (simp add: ctl_ok_def)

lemma ctl_ok_ret [ctl_rules]: "(\<And>e. err a = Some e \<Longrightarrow> is_ftpError e) \<Longrightarrow> ctl_ok (ret a) err"
  by (simp add: ctl_ok_def wp_simps)

lemma ctl_ok_gets [ctl_rules]: "ctl_ok (gets f) (\<lambda>_. None)"
  by (simp add: ctl_ok_def wp_simps)

lemma ctl_ok_debug [ctl_rules]: "ctl_ok (debug f as) (\<lambda>_. None)"
  by (simp add: ctl_ok_def wp_simps ctl_step_def)

lemma ctl_ok_seq:
  assumes m: "ctl_ok m err'"
    and f: "\<And>a. (\<forall>e. err' a = Some e \<longrightarrow> is_ftpError e) \<Longrightarrow> ctl_ok (f a) err"
  shows "ctl_ok (seq m f) err"
proof (rule ctl_okI)
  fix w assume w: "connected w"
  show "wp (seq m f) (\<lambda>a w'. ctl_step w w' \<and> (\<forall>e. err a = Some e \<longrightarrow> is_ftpError e)) never w"
    unfolding wp_seq
  proof (rule wp_mono [OF ctl_okD [OF m w]])
    fix a w' assume a: "ctl_step w w' \<and> (\<forall>e. err' a = Some e \<longrightarrow> is_ftpError e)"
    with f have "ctl_ok (f a) err" by blast
    moreover from a w have "connected w'" by (blast intro: ctl_step_connected)
    ultimately have "wp (f a) (\<lambda>b w''. ctl_step w' w'' \<and> (\<forall>e. err b = Some e \<longrightarrow> is_ftpError e)) never w'"
      by (rule ctl_okD)
    then show "wp (f a) (\<lambda>b w''. ctl_step w w'' \<and> (\<forall>e. err b = Some e \<longrightarrow> is_ftpError e)) never w'"
      by (rule wp_mono) (use a ctl_step_trans in blast)+
  qed simp
qed

lemma ctl_ok_readResponse: "ctl_ok (readResponse net) (\<lambda>(code, msg, err). err)"
proof (rule ctl_okI)
  fix w assume "connected w"
  then obtain c where c: "controlConn (pconn w) = Some c" by (auto simp: connected_def)
  then show "wp (readResponse net)
      (\<lambda>a w'. ctl_step w w' \<and> (\<forall>e. (case a of (code, msg, err) \<Rightarrow> err) = Some e \<longrightarrow> is_ftpError e)) never w"
    by (auto simp: readResponse_def wp_simps ctl_step_def split: prod.split option.split)
qed

lemma ctl_ok_sendCommand: "ctl_ok (sendCommand net f as) (\<lambda>(code, msg, err). err)"
proof (rule ctl_okI)
  fix w assume "connected w"
  then obtain c where c: "controlConn (pconn w) = Some c" by (auto simp: connected_def)
  then show "wp (sendCommand net f as)
      (\<lambda>a w'. ctl_step w w' \<and> (\<forall>e. (case a of (code, msg, err) \<Rightarrow> err) = Some e \<longrightarrow> is_ftpError e)) never w"
    by (auto simp: sendCommand_def readResponse_def wp_simps ctl_step_def Let_def
        split: prod.split option.split)
qed

lemma ctl_ok_if [ctl_rules]:
  "(b \<Longrightarrow> ctl_ok m err) \<Longrightarrow> (\<not> b \<Longrightarrow> ctl_ok m' err) \<Longrightarrow> ctl_ok (if b then m else m') err"
  by simp

lemma ctl_ok_updPconn:
  assumes "\<And>pc. broken pc \<Longrightarrow> broken (f pc)"
    and "\<And>pc. idx (f pc) = idx pc" "\<And>pc. host (f pc) = host pc" "\<And>pc. config (f pc) = config pc"
    and "\<And>pc. sessionCache (f pc) = sessionCache pc" "\<And>pc. pdataConn (f pc) = pdataConn pc"
    and "\<And>pc. controlConn (f pc) = controlConn pc"
  shows "ctl_ok (updPconn f) (\<lambda>_. None)"
  using assms by (simp add: ctl_ok_def wp_simps ctl_step_def)

text \<open>Composition with an operation that reports no error, and with one that does: in Go
  terms, the statement after an assignment and the \<^verbatim>\<open>if err != nil\<close> after a call.\<close>

lemma ctl_ok_then:
  "ctl_ok m (\<lambda>_. None) \<Longrightarrow> (\<And>a. ctl_ok (f a) err) \<Longrightarrow> ctl_ok (seq m f) err"
  by (rule ctl_ok_seq) auto

lemma ctl_ok_call3:
  assumes "ctl_ok m (\<lambda>(code, msg, err). err)"
    and "\<And>code msg. ctl_ok (f (code, msg, None)) err"
    and "\<And>code msg e. is_ftpError e \<Longrightarrow> ctl_ok (f (code, msg, Some e)) err"
  shows "ctl_ok (seq m f) err"
proof (rule ctl_ok_seq [OF assms(1)])
  fix a :: "'a \<times> 'b \<times> goerror option"
  assume "\<forall>e. (case a of (code, msg, err) \<Rightarrow> err) = Some e \<longrightarrow> is_ftpError e"
  then show "ctl_ok (f a) err"
    using assms(2,3) by (cases a; cases "snd (snd a)") auto
qed

lemma ctl_ok_call1:
  assumes "ctl_ok m (\<lambda>err. err)"
    and "ctl_ok (f None) err" and "\<And>e. is_ftpError e \<Longrightarrow> ctl_ok (f (Some e)) err"
  shows "ctl_ok (seq m f) err"
proof (rule ctl_ok_seq [OF assms(1)])
  fix a :: "goerror option" assume "\<forall>e. a = Some e \<longrightarrow> is_ftpError e"
  then show "ctl_ok (f a) err" using assms(2,3) by (cases a) auto
qed

lemma ctl_ok_sendCommandExpected: "ctl_ok (sendCommandExpected net x f as) (\<lambda>err. err)"
  unfolding sendCommandExpected_def
  by (rule ctl_ok_call3 [OF ctl_ok_sendCommand]) (auto intro!: ctl_rules)

lemma ctl_ok_fetchFeatures: "ctl_ok (fetchFeatures net) (\<lambda>err. err)"
  unfolding fetchFeatures_def
  by (rule ctl_ok_call3 [OF ctl_ok_sendCommand])
    (auto intro!: ctl_rules ctl_ok_then [OF ctl_ok_debug] ctl_ok_then [OF ctl_ok_updPconn])

lemma ctl_ok_pass:
  "ctl_ok (if b then sendCommand net f as else ret (code, msg, None)) (\<lambda>(code, msg, err). err)"
  by (auto intro!: ctl_rules ctl_ok_sendCommand)

lemma ctl_ok_logIn: "ctl_ok (logIn net) (\<lambda>err. err)"
  unfolding logIn_def
  by (rule ctl_ok_then [OF ctl_ok_gets])
    (auto intro!: ctl_ok_if ctl_ok_ret ctl_ok_call3 [OF ctl_ok_sendCommand]
      ctl_ok_call3 [OF ctl_ok_pass] ctl_ok_call1 [OF ctl_ok_sendCommandExpected]
      ctl_ok_sendCommandExpected ctl_ok_then [OF ctl_ok_updPconn])

lemma ctl_ok_setType: "ctl_ok (setType net t) (\<lambda>err. err)"
  unfolding setType_def
  by (rule ctl_ok_then [OF ctl_ok_gets])
    (auto intro!: ctl_rules ctl_ok_call1 [OF ctl_ok_sendCommandExpected]
      ctl_ok_then [OF ctl_ok_debug] ctl_ok_then [OF ctl_ok_updPconn])

lemma sock_tlsClient [simp]: "sock (tlsClient c cfg) = sock c"
  by (simp add: tlsClient_def)

lemma ctl_ok_upgrade:
  assumes "\<And>a. ctl_ok (f a) err"
  shows "ctl_ok (withControl (\<lambda>c. seq (gets pconn) (\<lambda>pc.
     seq (setControlConn (tlsClient c (dataChannelTLSConfig pc))) f))) err"
proof (rule ctl_okI)
  fix w assume "connected w"
  then obtain c where c: "controlConn (pconn w) = Some c" by (auto simp: connected_def)
  let ?w = "w\<lparr>pconn := (pconn w)\<lparr>controlConn := Some (tlsClient c (dataChannelTLSConfig (pconn w)))\<rparr>\<rparr>"
  have "ctl_step w ?w" "connected ?w" using c by (simp_all add: ctl_step_def connected_def)
  with ctl_okD [OF assms, of ?w]
  have "wp (f ()) (\<lambda>b w''. ctl_step w w'' \<and> (\<forall>e. err b = Some e \<longrightarrow> is_ftpError e)) never ?w"
    by (auto elim!: wp_mono intro: ctl_step_trans)
  with c show "wp (withControl (\<lambda>c. seq (gets pconn) (\<lambda>pc.
      seq (setControlConn (tlsClient c (dataChannelTLSConfig pc))) f)))
      (\<lambda>a w'. ctl_step w w' \<and> (\<forall>e. err a = Some e \<longrightarrow> is_ftpError e)) never w"
    by (simp add: wp_simps setControlConn_def)
qed

lemma ctl_ok_logInTLS: "ctl_ok (logInTLS net) (\<lambda>err. err)"
  unfolding logInTLS_def
  by (auto intro!: ctl_rules ctl_ok_call1 [OF ctl_ok_sendCommandExpected]
      ctl_ok_call1 [OF ctl_ok_logIn] ctl_ok_upgrade ctl_ok_then [OF ctl_ok_debug])

text \<open>The contract as an interface: what a caller may rely on, whichever operation it calls.\<close>

locale control_op =
  fixes op :: "('a, pworld) go" and err_of :: "'a \<Rightarrow> goerror option"
  assumes op_ok: "ctl_ok op err_of"
begin

lemma op_returns: "connected w \<Longrightarrow> \<exists>a w'. op w = Ret a w' \<and> ctl_step w w'"
  using wp_never_returns [OF ctl_okD [OF op_ok]] by blast

lemma op_step: "connected w \<Longrightarrow> op w = Ret a w' \<Longrightarrow> ctl_step w w'"
  using wp_RetD [OF ctl_okD [OF op_ok]] by blast

lemma op_error_ftp: "connected w \<Longrightarrow> op w = Ret a w' \<Longrightarrow> err_of a = Some e \<Longrightarrow> is_ftpError e"
  using wp_RetD [OF ctl_okD [OF op_ok]] by blast

lemma op_live: "connected w \<Longrightarrow> op w = Ret a w' \<Longrightarrow> live (hist w') = live (hist w)"
  using op_step [of w a w'] by (auto simp: ctl_step_def same_socks_live)

end

interpretation send: control_op "sendCommand net f as" "\<lambda>(code, msg, err). err" for net f as
  by unfold_locales (rule ctl_ok_sendCommand)

interpretation expect: control_op "sendCommandExpected net x f as" "\<lambda>err. err" for net x f as
  by unfold_locales (rule ctl_ok_sendCommandExpected)

interpretation login: control_op "logIn net" "\<lambda>err. err" for net
  by unfold_locales (rule ctl_ok_logIn)

interpretation loginTLS: control_op "logInTLS net" "\<lambda>err. err" for net
  by unfold_locales (rule ctl_ok_logInTLS)

interpretation feat: control_op "fetchFeatures net" "\<lambda>err. err" for net
  by unfold_locales (rule ctl_ok_fetchFeatures)

interpretation settype: control_op "setType net t" "\<lambda>err. err" for net t
  by unfold_locales (rule ctl_ok_setType)

section \<open>What goes over the wire and into the log\<close>

text \<open>
  What one command does, in full: the connection changes only in being broken, exactly
  when an error is returned; one line is sent unless a stub answers; an error is temporary and
  comes with no code and no text.
\<close>

definition exchange :: "pworld \<Rightarrow> conn \<Rightarrow> string \<Rightarrow> int \<times> string \<times> goerror option \<Rightarrow> pworld \<Rightarrow> bool" where
  "exchange w c cmd r w' = (case r of (code, msg, err) \<Rightarrow>
     pconn w' = (pconn w)\<lparr>broken := broken (pconn w) \<or> err \<noteq> None\<rparr> \<and>
     same_socks (hist w) (hist w') \<and>
     sent_on (hist w') = sent_on (hist w) @
       (if stubResponses (config (pconn w)) cmd = None then [(c, cmd @ crlf)] else []) \<and>
     (\<forall>e. err = Some e \<longrightarrow> is_ftpError e \<and> Temporary e \<and> code = 0 \<and> msg = []))"

lemma sendCommand_contract:
  assumes "controlConn (pconn w) = Some c"
  shows "wp (sendCommand net f as) (exchange w c (Sprintf f as)) never w"
  using assms by (auto simp: sendCommand_def readResponse_def exchange_def wp_simps Let_def
      split: prod.split option.split)

lemma sendCommandExpected_contract:
  assumes "controlConn (pconn w) = Some c"
  shows "wp (sendCommandExpected net x f as) (\<lambda>r w'. \<exists>code msg err.
    exchange w c (Sprintf f as) (code, msg, err) w' \<and>
    r = (case err of Some e \<Rightarrow> Some e
         | None \<Rightarrow> if replyOk x code then None else Some (replyErr code msg))) never w"
  unfolding sendCommandExpected_def wp_seq
  by (rule wp_mono [OF sendCommand_contract [OF assms]])
    (fastforce simp: wp_simps split: prod.splits option.splits)+

text \<open>What the two sides said in one exchange: the command, and then the code of the reply when the command succeeds, or
  nothing or something that is not a reply when it fails.\<close>

definition exchanged :: "string \<Rightarrow> int option \<Rightarrow> utterance list \<Rightarrow> bool" where
  "exchanged cmd answer us \<longleftrightarrow> (case answer of
     Some code \<Rightarrow> us = [Said (cmd @ crlf), Heard code]
   | None \<Rightarrow> us = [Said (cmd @ crlf)] \<or> us = [Said (cmd @ crlf), Silence])"

lemma sendCommand_dialogue:
  assumes "controlConn (pconn w) = Some c" "stubResponses (config (pconn w)) (Sprintf f as) = None"
  shows "wp (sendCommand net f as) (\<lambda>(code, msg, err) w'. \<exists>us.
     dialogue net (sock c) (hist w') = dialogue net (sock c) (hist w) @ us \<and>
     exchanged (Sprintf f as) (if err = None then Some code else None) us) never w"
  using assms by (auto simp: sendCommand_def readResponse_def exchanged_def hearing_def wp_simps Let_def
      split: prod.split option.split)

lemma commandLines_sent:
  "sent_on h' = sent_on h @ [(c, bytes)] \<Longrightarrow>
     commandLines (sock c) h' = commandLines (sock c) h @ linesFrom [] bytes"
  by (simp add: commandLines_def)

text \<open>C18. One command is one write: the formatted command and CR LF, after which one reply is waited for. The connection
  is marked broken exactly when an error is returned, and nothing else of it changes; the error is temporary and comes with no code and
  no text. The server reads as many command lines as there are line feeds in the write. So a command is one line
  exactly when it holds no line feed, and a command made of several lines, as when a path holds
  CR LF, is read by the server as that many commands, although only one reply is waited for.\<close>

theorem sendCommand_exchange:
  assumes "controlConn (pconn w) = Some c"
    and "stubResponses (config (pconn w)) (Sprintf f as) = None"
  shows "\<exists>code msg err w' us lines. sendCommand net f as w = Ret (code, msg, err) w' \<and>
    sent_on (hist w') = sent_on (hist w) @ [(c, Sprintf f as @ crlf)] \<and>
    pconn w' = (pconn w)\<lparr>broken := broken (pconn w) \<or> err \<noteq> None\<rparr> \<and>
    (err = None \<or> code = 0 \<and> msg = [] \<and> Temporary (the err)) \<and>
    dialogue net (sock c) (hist w') = dialogue net (sock c) (hist w) @ us \<and>
    exchanged (Sprintf f as) (if err = None then Some code else None) us \<and>
    commandLines (sock c) (hist w') = commandLines (sock c) (hist w) @ lines \<and>
    length lines = Suc (count_list (Sprintf f as) (CHR 0x0A)) \<and>
    (\<forall>ls. ls \<noteq> [] \<and> (\<forall>l \<in> set ls. CHR 0x0A \<notin> set l) \<and> Sprintf f as = Join ls crlf \<longrightarrow> lines = ls)"
proof -
  let ?lines = "linesFrom [] (Sprintf f as @ crlf)"
  from wp_never_returns [OF sendCommand_contract [OF assms(1)], of net f as] assms(2)
  obtain code msg err w' where run: "sendCommand net f as w = Ret (code, msg, err) w'"
    and sent: "sent_on (hist w') = sent_on (hist w) @ [(c, Sprintf f as @ crlf)]"
    and conn: "pconn w' = (pconn w)\<lparr>broken := broken (pconn w) \<or> err \<noteq> None\<rparr>"
      "err = None \<or> code = 0 \<and> msg = [] \<and> Temporary (the err)" by (fastforce simp: exchange_def)
  from wp_RetD [OF sendCommand_dialogue [OF assms] run] obtain us where
    "dialogue net (sock c) (hist w') = dialogue net (sock c) (hist w) @ us"
    "exchanged (Sprintf f as) (if err = None then Some code else None) us" by auto
  moreover have "length ?lines = Suc (count_list (Sprintf f as) (CHR 0x0A))" by (simp add: length_linesFrom)
  moreover have "?lines = ls" if "ls \<noteq> [] \<and> (\<forall>l \<in> set ls. CHR 0x0A \<notin> set l) \<and> Sprintf f as = Join ls crlf" for ls
    using that linesFrom_Join [of ls] by simp
  ultimately show ?thesis using run sent conn commandLines_sent [OF sent] by blast
qed

text \<open>A path with a line break in it makes two commands.\<close>

definition brokenPath :: string where
  "brokenPath = ''f'' @ crlf @ ''DELE g''"

theorem sendCommand_exchange_witness:
  "\<exists>code msg err w'.
    sendCommand (scripted (\<lambda>_. [''213 5'', ''250 deleted'']) []) ''SIZE %s'' [AStr brokenPath] sampleWorld =
      Ret (code, msg, err) w' \<and>
    sent_on (hist w') = sent_on (hist sampleWorld) @ [(Sock 0, ''SIZE f'' @ crlf @ ''DELE g'' @ crlf)] \<and>
    commandLines 0 (hist w') = commandLines 0 (hist sampleWorld) @ [''SIZE f'', ''DELE g'']"
proof -
  let ?as = "[AStr brokenPath]" and ?ls = "[''SIZE f'', ''DELE g'']"
  have cmd: "Sprintf ''SIZE %s'' ?as = Join ?ls crlf" by (simp add: Sprintf_def fmt_arg_def brokenPath_def)
  have lines: "?ls \<noteq> [] \<and> (\<forall>l \<in> set ?ls. CHR 0x0A \<notin> set l) \<and> Sprintf ''SIZE %s'' ?as = Join ?ls crlf"
    unfolding cmd by simp
  have c: "controlConn (pconn sampleWorld) = Some (Sock 0)"
    "stubResponses (config (pconn sampleWorld)) (Sprintf ''SIZE %s'' ?as) = None"
    by (simp_all add: sampleWorld_def sampleConn_def sampleConfig_def zeroConfig_def)
  from sendCommand_exchange [OF c, of "scripted (\<lambda>_. [''213 5'', ''250 deleted'']) []"]
  obtain code msg err w' ls where
    "sendCommand (scripted (\<lambda>_. [''213 5'', ''250 deleted'']) []) ''SIZE %s'' ?as sampleWorld = Ret (code, msg, err) w'"
    "sent_on (hist w') = sent_on (hist sampleWorld) @ [(Sock 0, Sprintf ''SIZE %s'' ?as @ crlf)]"
    "commandLines (sock (Sock 0)) (hist w') = commandLines (sock (Sock 0)) (hist sampleWorld) @ ls" "ls = ?ls"
    using lines by blast
  then show ?thesis unfolding cmd by simp
qed

section \<open>The transfer type is cached the wrong way round\<close>

text \<open>C35. \<open>setType\<close> records the type when the server refuses it and not when the server accepts it.
  After an accepted \<^verbatim>\<open>TYPE\<close> the recorded type is still the old one, so the next call sends the command again;
  after a failed one the next call reports success without sending anything.\<close>

theorem setType_cache_inverted:
  assumes "connected w" and "currentType (pconn w) \<noteq> t" and "setType net t w = Ret r w'"
  shows "(r = None \<and> currentType (pconn w') = currentType (pconn w)) \<or>
    (r \<noteq> None \<and> currentType (pconn w') = t \<and>
     (\<exists>w''. setType net' t w' = Ret None w'' \<and> sent_on (hist w'') = sent_on (hist w')))"
proof -
  from assms(1) obtain c where c: "controlConn (pconn w) = Some c" by (auto simp: connected_def)
  have send: "wp (sendCommandExpected net replyCommandOkay ''TYPE %s'' [AStr t])
      (\<lambda>_ w'. currentType (pconn w') = currentType (pconn w)) never w"
    by (rule wp_mono [OF sendCommandExpected_contract [OF c]]) (auto simp: exchange_def)
  have "wp (setType net t) (\<lambda>r w'. (r = None \<and> currentType (pconn w') = currentType (pconn w)) \<or>
      (r \<noteq> None \<and> currentType (pconn w') = t)) never w"
    using assms(2) unfolding setType_def
    by (auto simp: wp_simps split: option.split intro: wp_mono [OF send])
  with assms(3) have r: "(r = None \<and> currentType (pconn w') = currentType (pconn w)) \<or>
      (r \<noteq> None \<and> currentType (pconn w') = t)" by (auto dest: wp_RetD)
  moreover have "\<exists>w''. setType net' t w' = Ret None w'' \<and> sent_on (hist w'') = sent_on (hist w')"
    if "currentType (pconn w') = t"
  proof -
    have "wp (setType net' t) (\<lambda>r w''. r = None \<and> sent_on (hist w'') = sent_on (hist w')) never w'"
      using that by (simp add: setType_def wp_simps)
    from wp_never_returns [OF this] show ?thesis by auto
  qed
  ultimately show ?thesis by auto
qed

theorem setType_cache_inverted_witness:
  "\<exists>r w'. setType (scripted (\<lambda>_. [''504 no'']) []) ''I'' sampleWorld = Ret r w' \<and>
    ((r = None \<and> currentType (pconn w') = currentType (pconn sampleWorld)) \<or>
     (r \<noteq> None \<and> currentType (pconn w') = ''I'' \<and>
      (\<exists>w''. setType (scripted (\<lambda>_. []) []) ''I'' w' = Ret None w'' \<and>
             sent_on (hist w'') = sent_on (hist w'))))"
proof -
  have w: "connected sampleWorld" "currentType (pconn sampleWorld) \<noteq> ''I''"
    by (simp_all add: connected_def sampleWorld_def sampleConn_def)
  from settype.op_returns [OF w(1)] obtain r w'
    where run: "setType (scripted (\<lambda>_. [''504 no'']) []) ''I'' sampleWorld = Ret r w'" by blast
  show ?thesis
    by (intro exI conjI, rule run, rule setType_cache_inverted [OF w run])
qed

section \<open>Features\<close>

text \<open>
  How a server announces a feature, as RFC 2389 has it: a space, the name, and after another space the argument if there is one.
\<close>

definition featureText :: "string \<times> string \<Rightarrow> string" where
  "featureText f = '' '' @ fst f @ (if snd f = [] then [] else '' '' @ snd f)"

definition announceable :: "string \<times> string \<Rightarrow> bool" where
  "announceable f \<longleftrightarrow> fst f \<noteq> [] \<and> (\<forall>c \<in> set (fst f). \<not> is_space c) \<and> CHR 0x0A \<notin> set (snd f) \<and>
     (snd f \<noteq> [] \<longrightarrow> \<not> is_space (last (snd f)))"

lemma featureText_ends:
  assumes "announceable f"
  shows "\<exists>x. featureText f = CHR '' '' # x \<and> x \<noteq> [] \<and> \<not> is_space (hd x) \<and> \<not> is_space (last x)"
  using assms by (auto simp: featureText_def announceable_def)

lemma TrimSpace_inner:
  assumes "x \<noteq> []" "\<not> is_space (hd x)" "\<not> is_space (last x)"
  shows "TrimSpace (CHR '' '' # x) = x"
proof -
  have "dropWhile is_space (CHR '' '' # x) = x" using assms by (cases x) (auto simp: is_space_def)
  moreover have "dropWhile is_space (rev x) = rev x" using assms by (cases x rule: rev_cases) auto
  ultimately show ?thesis unfolding TrimSpace_def by simp
qed

lemma featureText_line:
  assumes "announceable f"
  shows "featureText f \<noteq> []" "hd (featureText f) = CHR '' ''" "CHR 0x0A \<notin> set (featureText f)"
    "TrimRight (featureText f) crlf = featureText f"
proof -
  from featureText_ends [OF assms] obtain x where x: "featureText f = CHR '' '' # x" "x \<noteq> []" "\<not> is_space (last x)" by blast
  then show "featureText f \<noteq> []" "hd (featureText f) = CHR '' ''" by simp_all
  show "CHR 0x0A \<notin> set (featureText f)"
    using assms by (auto simp: featureText_def announceable_def is_space_def)
  from x(2,3) show "TrimRight (featureText f) crlf = featureText f"
    unfolding x(1) by (cases x rule: rev_cases) (auto simp: TrimRight_def is_space_def)
qed

lemma featureText_body: "announceable f \<Longrightarrow> (\<exists>t. featureText f = CHR '' '' # t) \<and> TrimRight (featureText f) crlf = featureText f"
  using featureText_ends [of f] featureText_line(4) [of f] by blast

lemma featureLine_text:
  assumes "announceable f"
  shows "featureLine (featureText f) = Some (ToUpper (fst f), snd f)"
proof -
  from featureText_ends [OF assms] have trim: "TrimSpace (featureText f) = tl (featureText f)"
    by (auto simp: TrimSpace_inner)
  have name: "CHR '' '' \<notin> set (fst f)" using assms by (auto simp: announceable_def is_space_def)
  have "SplitN2 (tl (featureText f)) '' '' = (if snd f = [] then [fst f] else [fst f, snd f])"
    using Index_char_none [OF name] Index_char [OF name, of "snd f"]
    by (simp add: featureText_def SplitN2_def)
  then show ?thesis
    using featureText_line [OF assms] by (simp add: featureLine_def trim)
qed

lemma addFeatures_announced:
  assumes "\<And>f. f \<in> set fs \<Longrightarrow> announceable f"
  shows "addFeatures (map featureText fs @ ls) m =
    addFeatures ls (m ++ map_of (rev (map (\<lambda>f. (ToUpper (fst f), snd f)) fs)))"
  using assms
proof (induction fs arbitrary: m)
  case (Cons f fs)
  then have "addFeatures (map featureText (f # fs) @ ls) m =
      addFeatures ls (m(ToUpper (fst f) \<mapsto> snd f) ++ map_of (rev (map (\<lambda>f. (ToUpper (fst f), snd f)) fs)))"
    by (simp add: featureLine_text)
  also have "m(ToUpper (fst f) \<mapsto> snd f) ++ map_of (rev (map (\<lambda>f. (ToUpper (fst f), snd f)) fs)) =
      m ++ map_of (rev (map (\<lambda>f. (ToUpper (fst f), snd f)) (f # fs)))"
    by (simp add: map_add_def fun_eq_iff split: option.split)
  finally show ?case .
qed simp

text \<open>C19. A \<^verbatim>\<open>FEAT\<close> reply is read back. When the server announces the features \<open>fs\<close>, each on a line of its own between the first and the
  last line of the reply, in any letter case but no name twice, then after \<open>fetchFeatures\<close> exactly those are known, under
  their names in capitals and with their arguments, beside what was known before: \<open>hasFeature\<close> finds every one of them and
  \<open>hasFeatureWithArg\<close> compares with its argument.\<close>

theorem fetchFeatures_advertised:
  assumes c: "controlConn (pconn w) = Some c" "stubResponses (config (pconn w)) ''FEAT'' = None"
    and wr: "\<And>h. net_write net h (sock c) (''FEAT'' @ crlf) = None"
    and reply: "\<And>h. net_lines net h (sock c) =
      ((Itoa 211 @ CHR ''-'' # t) # map featureText fs @ [Itoa 211 @ CHR '' '' # u], eof)"
    and fs: "\<And>f. f \<in> set fs \<Longrightarrow> announceable f" "distinct (map (\<lambda>f. ToUpper (fst f)) fs)"
    and ends: "\<And>l. l \<in> {t, u} \<Longrightarrow> CHR 0x0A \<notin> set l \<and> \<not> HasPrefix l '' ''"
  shows "\<exists>w'. fetchFeatures net w = Ret None w' \<and>
    (\<forall>(name, arg) \<in> set fs. hasFeature (pconn w') (ToUpper name) \<and>
       (\<forall>b. hasFeatureWithArg (pconn w') (ToUpper name) b \<longleftrightarrow> arg = ToUpper b)) \<and>
    (\<forall>k. k \<notin> (\<lambda>f. ToUpper (fst f)) ` set fs \<longrightarrow> features (pconn w') k = features (pconn w) k)"
proof -
  let ?body = "map featureText fs" and ?known = "map (\<lambda>f. (ToUpper (fst f), snd f)) fs"
  have feat: "Sprintf ''FEAT'' [] = ''FEAT''" by (simp add: Sprintf_def)
  have resp: "responseOf ((Itoa 211 @ CHR ''-'' # t) # ?body @ [Itoa 211 @ CHR '' '' # u]) eof =
      ((211, Join (t # ?body @ [u]) [CHR 0x0A], None), length ?body + 2)"
    by (intro responseOf_multiline) (use featureText_body fs(1) in force)+
  have split: "Split (Join (t # ?body @ [u]) [CHR 0x0A]) [CHR 0x0A] = t # ?body @ [u]"
    using ends fs(1) featureText_line(3) by (intro Split_Join) auto
  have none: "featureLine t = None" "featureLine u = None"
    using ends by (auto simp: featureLine_def HasPrefix_singleton)
  have known: "addFeatures (t # ?body @ [u]) m = m ++ map_of (rev ?known)" for m
    using addFeatures_announced [OF fs(1), of fs "[u]" m] none by simp
  have "wp (fetchFeatures net) (\<lambda>r w'. r = None \<and>
      features (pconn w') = addFeatures (t # ?body @ [u]) (features (pconn w))) never w"
    using c unfolding fetchFeatures_def sendCommand_def readResponse_def Let_def feat
    by (simp add: wp_simps wr reply resp split positiveCompletionReply_def sdiv_100_eq
        del: Join.simps append_Cons append.simps addFeatures.simps)
  from wp_never_returns [OF this] obtain w' where
    w': "fetchFeatures net w = Ret None w'" "features (pconn w') = features (pconn w) ++ map_of (rev ?known)"
    by (auto simp only: known)
  have dist: "distinct (map fst (rev ?known))" using fs(2) by (simp add: rev_map [symmetric] o_def)
  have "features (pconn w') (ToUpper name) = Some arg" if "(name, arg) \<in> set fs" for name arg
  proof -
    have "(ToUpper name, arg) \<in> set (rev ?known)" using that by force
    with map_of_is_SomeI [OF dist] show ?thesis by (simp add: w'(2) map_add_Some_iff)
  qed
  moreover have "features (pconn w') k = features (pconn w) k" if "k \<notin> (\<lambda>f. ToUpper (fst f)) ` set fs" for k
  proof -
    have "map_of (rev ?known) k = None" using that by (force simp: map_of_eq_None_iff)
    then show ?thesis by (simp add: w'(2) map_add_def)
  qed
  ultimately show ?thesis
    using w'(1) by (intro exI [of _ w']) (auto simp: hasFeature_def hasFeatureWithArg_def)
qed

theorem fetchFeatures_advertised_witness:
  "\<exists>w'. fetchFeatures (scripted (\<lambda>_. [''211-Features:'', '' Size'', '' REST STREAM'', ''211 End'']) [])
        sampleWorld = Ret None w' \<and> hasFeature (pconn w') ''SIZE'' \<and> hasFeatureWithArg (pconn w') ''REST'' ''stream'' \<and>
    \<not> hasFeature (pconn w') ''MLST''"
proof -
  let ?fs = "[(''Size'', []), (''REST'', ''STREAM'')]"
  let ?net = "scripted (\<lambda>_. [''211-Features:'', '' Size'', '' REST STREAM'', ''211 End'']) []"
  have i: "Itoa 211 = ''211''" by code_simp
  have up: "ToUpper ''Size'' = ''SIZE''" "ToUpper ''REST'' = ''REST''" "ToUpper ''stream'' = ''STREAM''" by code_simp+
  have c: "controlConn (pconn sampleWorld) = Some (Sock 0)"
    "stubResponses (config (pconn sampleWorld)) ''FEAT'' = None"
    by (simp_all add: sampleWorld_def sampleConn_def sampleConfig_def zeroConfig_def)
  have wr: "net_write ?net h (sock (Sock 0)) (''FEAT'' @ crlf) = None" for h
    by (simp add: scripted_def)
  have reply: "net_lines ?net h (sock (Sock 0)) =
      ((Itoa 211 @ CHR ''-'' # ''Features:'') # map featureText ?fs @ [Itoa 211 @ CHR '' '' # ''End''], EOF)" for h
    by (simp add: scripted_def i featureText_def)
  have fs: "announceable f" if "f \<in> set ?fs" for f
    using that by (auto simp: announceable_def is_space_def)
  have dist: "distinct (map (\<lambda>f. ToUpper (fst f)) ?fs)" by (simp add: up)
  have ends: "CHR 0x0A \<notin> set l \<and> \<not> HasPrefix l '' ''" if "l \<in> {''Features:'', ''End''}" for l
    using that by (auto simp: HasPrefix_singleton)
  from fetchFeatures_advertised [OF c wr reply fs dist ends] obtain w' where
    w': "fetchFeatures ?net sampleWorld = Ret None w'"
    "\<forall>(name, arg) \<in> set ?fs. hasFeature (pconn w') (ToUpper name) \<and>
       (\<forall>b. hasFeatureWithArg (pconn w') (ToUpper name) b \<longleftrightarrow> arg = ToUpper b)"
    "\<forall>k. k \<notin> (\<lambda>f. ToUpper (fst f)) ` set ?fs \<longrightarrow> features (pconn w') k = features (pconn sampleWorld) k" by blast
  from w'(2) have "hasFeature (pconn w') ''SIZE''" "hasFeatureWithArg (pconn w') ''REST'' ''stream''" by (simp_all add: up)
  moreover from w'(3) have "features (pconn w') ''MLST'' = features (pconn sampleWorld) ''MLST''" by (simp add: up)
  then have "\<not> hasFeature (pconn w') ''MLST''" by (simp add: hasFeature_def sampleWorld_def sampleConn_def)
  ultimately show ?thesis using w'(1) by blast
qed

end
