(* ===== verification/Pool.thy ===== *)
theory Pool
  imports Control "HOL-Library.AList"
begin

text \<open>
  The client and its connection pool (\<^verbatim>\<open>client.go\<close>): \<open>newClient\<close>, opening and closing
  connections, \<open>getIdleConn\<close> and \<open>returnConn\<close>, as one goroutine runs them.

  Connections are shared objects: the channel of free connections and the map of all
  connections hold pointers to them. So the client has a store \<open>heap\<close> from references to connections, and
  \<open>freeConnCh\<close> and \<open>allCons\<close> hold references. The channel is the list of the references queued in
  it, the oldest first; sending on it blocks when it holds \<open>chanCap\<close> references, and
  receiving blocks when it is empty. The map \<open>numConnsPerHost\<close> is an association list with one entry
  for each key, so that its values can be summed; a missing key counts as zero, as in Go.
\<close>

record client =
  clConfig :: Config
  hosts :: "string list"
  freeConnCh :: "nat list"
  numConnsPerHost :: "(string \<times> int) list"
  allCons :: "int \<rightharpoonup> nat"
  connIdx :: int
  rawConnIdx :: int
  closed :: bool
  clSessionCache :: nat
  heap :: "nat \<Rightarrow> persistentConn"
  nextRef :: nat
  chist :: history

section \<open>Construction\<close>

definition defaultConfig :: "Config \<Rightarrow> Config" where
  "defaultConfig cfg = cfg\<lparr>
     ConnectionsPerHost := (if ConnectionsPerHost cfg \<le> 0 then 5 else ConnectionsPerHost cfg),
     Timeout := (if Timeout cfg \<le> 0 then 5 * 1000000000 else Timeout cfg),
     User := (if User cfg = [] then ''anonymous'' else User cfg),
     Password := (if Password cfg = [] then ''anonymous'' else Password cfg),
     ServerLocation := (if ServerLocation cfg = None then Some ''UTC'' else ServerLocation cfg),
     ActiveListenAddr := (if ActiveListenAddr cfg = [] then '':0'' else ActiveListenAddr cfg)\<rparr>"

definition emptyConn :: persistentConn where
  "emptyConn = \<lparr>controlConn = None, pdataConn = None, config = zeroConfig, broken = False, idx = 0,
     features = Map.empty, sessionCache = 0, epsvNotSupported = False, currentType = [], host = []\<rparr>"

definition newClient :: "Config \<Rightarrow> string list \<Rightarrow> history \<Rightarrow> client" where
  "newClient cfg hs h = \<lparr>clConfig = defaultConfig cfg, hosts = hs, freeConnCh = [],
     numConnsPerHost = [], allCons = Map.empty, connIdx = 0, rawConnIdx = 0, closed = False,
     clSessionCache = 0, heap = (\<lambda>_. emptyConn), nextRef = 0, chist = h\<rparr>"

definition chanCap :: "client \<Rightarrow> int" where
  "chanCap c = int (length (hosts c)) * ConnectionsPerHost (clConfig c)"

section \<open>Counting connections\<close>

definition numConns :: "client \<Rightarrow> string \<Rightarrow> int" where
  "numConns c h = (case map_of (numConnsPerHost c) h of None \<Rightarrow> 0 | Some n \<Rightarrow> n)"

definition addConns :: "string \<Rightarrow> int \<Rightarrow> client \<Rightarrow> client" where
  "addConns h n c = c\<lparr>numConnsPerHost := AList.update h (numConns c h + n) (numConnsPerHost c)\<rparr>"

definition numOpenConns :: "client \<Rightarrow> int" where
  "numOpenConns c = sum_list (map snd (numConnsPerHost c))"

text \<open>The search for the next host, from position \<open>i\<close> on, at most \<open>k\<close> steps; the empty string
  when there is none.\<close>

fun findHost :: "client \<Rightarrow> nat \<Rightarrow> nat \<Rightarrow> string" where
  "findHost c i 0 = []"
| "findHost c i (Suc k) =
     (let h = hosts c ! (i mod length (hosts c))
      in if numConns c h < ConnectionsPerHost (clConfig c) then h else findHost c (Suc i) k)"

definition canOpen :: "client \<Rightarrow> bool" where
  "canOpen c \<longleftrightarrow> numOpenConns c < int (length (hosts c)) * ConnectionsPerHost (clConfig c)"

text \<open>The critical section that claims a slot: the next index, and the host it is for.\<close>

definition reserveSlot :: "(int \<times> string, client) go" where
  "reserveSlot =
     seq (modify (\<lambda>c. c\<lparr>connIdx := connIdx c + 1\<rparr>)) (\<lambda>_.
     seq (gets (\<lambda>c. c)) (\<lambda>c.
     let idx = connIdx c;
         host = findHost c (nat idx) (length (hosts c))
     in if host = [] then abort_with (Panicked ''this shouldn't be possible'')
        else seq (modify (addConns host 1)) (\<lambda>_. ret (idx, host))))"

section \<open>Opening a connection\<close>

definition onConn :: "nat \<Rightarrow> ('a, pworld) go \<Rightarrow> ('a, client) go" where
  "onConn r m = zoom (\<lambda>c. \<lparr>pconn = heap c r, hist = chist c\<rparr>)
     (\<lambda>w c. c\<lparr>heap := (heap c)(r := pconn w), chist := hist w\<rparr>) m"

definition clDebug :: "string \<Rightarrow> goarg list \<Rightarrow> (unit, client) go" where
  "clDebug f as = seq (gets (\<lambda>c. c)) (\<lambda>c.
     if \<not> Logger (clConfig c) then ret () else modify (\<lambda>c. c\<lparr>chist := EvLog None f as # chist c\<rparr>))"

text \<open>\<^verbatim>\<open>Config.dial\<close> (\<^verbatim>\<open>goftp.go\<close>): the caller's function if there is one.\<close>

definition dial :: "net \<Rightarrow> Config \<Rightarrow> string \<Rightarrow> string \<Rightarrow> (goerror + conn) io" where
  "dial net cfg network address =
     (if DialFunc cfg then callDialFunc net network address
      else DialTimeout net network address (Timeout cfg))"

text \<open>\<open>tls.DialWithDialer\<close>: dial, shake hands under the host's name, close on failure.\<close>

definition DialWithDialer :: "net \<Rightarrow> int \<Rightarrow> string \<Rightarrow> string \<Rightarrow> tlsConfig \<Rightarrow> (goerror + conn) io" where
  "DialWithDialer net tmo network address cfg =
     seq (DialTimeout net network address tmo) (\<lambda>r.
     case r of
       Inl e \<Rightarrow> ret (Inl e)
     | Inr raw \<Rightarrow>
         let i = LastIndex address '':'';
             hostname = (if i < 0 then address else take (nat i) address);
             cfg' = (if ServerName cfg = [] then cfg\<lparr>ServerName := hostname\<rparr> else cfg)
         in seq (Handshake net raw cfg') (\<lambda>err.
            case err of
              Some e \<Rightarrow> seq (closeConn net raw) (\<lambda>_. ret (Inl e))
            | None \<Rightarrow> ret (Inr (TLSClient raw cfg'))))"

definition isTemporary :: "goerror \<Rightarrow> bool" where
  "isTemporary e = (case e of NetError _ t \<Rightarrow> t | _ \<Rightarrow> False)"

definition connectControl :: "net \<Rightarrow> Config \<Rightarrow> string \<Rightarrow> (goerror + conn, pworld) go" where
  "connectControl net cfg addr =
     (case (TLSConfig cfg, TLSMode cfg) of
        (Some tcfg, TLSImplicit) \<Rightarrow>
          seq (debug ''opening TLS control connection to %s'' [AStr addr]) (\<lambda>_.
          if DialFunc cfg then
            seq (io (callDialFunc net ''tcp'' addr)) (\<lambda>r.
            case r of
              Inl e \<Rightarrow> ret (Inl e)
            | Inr raw \<Rightarrow>
                seq (io (Handshake net raw tcfg)) (\<lambda>err.
                case err of
                  Some e \<Rightarrow> seq (io (closeConn net raw)) (\<lambda>_. ret (Inl e))
                | None \<Rightarrow> ret (Inr (TLSClient raw tcfg))))
          else io (DialWithDialer net (Timeout cfg) ''tcp'' addr tcfg))
      | _ \<Rightarrow>
          seq (debug ''opening control connection to %s'' [AStr addr]) (\<lambda>_.
          io (dial net cfg ''tcp'' addr)))"

text \<open>From the greeting to the features, on a connection whose control socket is set.\<close>

definition greetAndLogIn :: "net \<Rightarrow> Config \<Rightarrow> (goerror option, pworld) go" where
  "greetAndLogIn net cfg =
     seq (readResponse net) (\<lambda>(code, msg, err).
     case err of
       Some e \<Rightarrow> ret (Some e)
     | None \<Rightarrow>
         if code \<noteq> replyServiceReady then ret (Some (replyErr code msg))
         else
           seq (if TLSConfig cfg \<noteq> None \<and> TLSMode cfg = TLSExplicit then logInTLS net else logIn net)
             (\<lambda>err.
           case err of Some e \<Rightarrow> ret (Some e) | None \<Rightarrow> fetchFeatures net))"

definition openSession :: "net \<Rightarrow> Config \<Rightarrow> string \<Rightarrow> (goerror option, pworld) go" where
  "openSession net cfg addr =
     seq (connectControl net cfg addr) (\<lambda>r.
     case r of
       Inl e \<Rightarrow> ret (Some (FtpError (Some e) 0 [] False (isTemporary e)))
     | Inr conn \<Rightarrow> seq (setControlConn conn) (\<lambda>_. greetAndLogIn net cfg))"

definition newConn :: "client \<Rightarrow> int \<Rightarrow> string \<Rightarrow> persistentConn" where
  "newConn c i h = \<lparr>controlConn = None, pdataConn = None, config = clConfig c, broken = False,
     idx = i, features = Map.empty, sessionCache = clSessionCache c,
     epsvNotSupported = DisableEPSV (clConfig c), currentType = ''A'', host = h\<rparr>"

definition openConn :: "net \<Rightarrow> int \<Rightarrow> string \<Rightarrow> (goerror + nat, client) go" where
  "openConn net i h =
     seq (gets (\<lambda>c. c)) (\<lambda>c.
     let r = nextRef c in
     seq (modify (\<lambda>c. c\<lparr>nextRef := Suc r, heap := (heap c)(r := newConn c i h)\<rparr>)) (\<lambda>_.
     seq (onConn r (openSession net (clConfig c) h)) (\<lambda>err.
     case err of
       Some e \<Rightarrow> seq (onConn r (close net)) (\<lambda>_. ret (Inl e))
     | None \<Rightarrow>
         seq (gets closed) (\<lambda>isClosed.
         if isClosed then
           seq (onConn r (close net)) (\<lambda>_. ret (Inl (wrapErr (Errorf ''client closed'' []))))
         else
           seq (modify (\<lambda>c. if 0 \<le> i then c\<lparr>allCons := (allCons c)(i \<mapsto> r)\<rparr> else c)) (\<lambda>_.
           ret (Inr r))))))"

section \<open>The pool\<close>

definition removeConn :: "net \<Rightarrow> nat \<Rightarrow> (unit, client) go" where
  "removeConn net r =
     seq (modify (\<lambda>c. c\<lparr>allCons := (allCons c)(idx (heap c r) := None)\<rparr>)) (\<lambda>_.
     seq (onConn r (close net)) (\<lambda>_. ret ()))"

definition returnConn :: "nat \<Rightarrow> (unit, client) go" where
  "returnConn r =
     seq (gets (\<lambda>c. c)) (\<lambda>c.
     if int (length (freeConnCh c)) < chanCap c
     then modify (\<lambda>c. c\<lparr>freeConnCh := freeConnCh c @ [r]\<rparr>)
     else abort_with Blocked)"

text \<open>A broken connection received from the channel gives its slot back and is removed.\<close>

definition dropBroken :: "net \<Rightarrow> string \<Rightarrow> nat \<Rightarrow> (unit, client) go" where
  "dropBroken net why r =
     seq (gets (\<lambda>c. heap c r)) (\<lambda>pc.
     seq (clDebug why [AInt (idx pc)]) (\<lambda>_.
     seq (modify (addConns (host pc) (- 1))) (\<lambda>_.
     removeConn net r)))"

text \<open>
  The first loop of \<open>getIdleConn\<close>: take what the channel holds without waiting. Every turn
  receives one reference, so the length of the channel bounds the number of turns.
\<close>

fun drainFree :: "net \<Rightarrow> nat \<Rightarrow> (nat option, client) go" where
  "drainFree net n =
     seq (gets (\<lambda>c. c)) (\<lambda>c.
     case freeConnCh c of
       [] \<Rightarrow> ret None
     | r # rest \<Rightarrow>
         (case n of
            0 \<Rightarrow> abort_with OutOfFuel
          | Suc n' \<Rightarrow>
              seq (modify (\<lambda>c. c\<lparr>freeConnCh := rest\<rparr>)) (\<lambda>_.
              if broken (heap c r) then
                seq (dropBroken net ''#%d was ready (broken)'' r) (\<lambda>_. drainFree net n')
              else
                seq (clDebug ''#%d was ready'' [AInt (idx (heap c r))]) (\<lambda>_. ret (Some r)))))"

definition openSlot :: "net \<Rightarrow> (goerror + nat, client) go" where
  "openSlot net =
     seq reserveSlot (\<lambda>(i, h).
     seq (openConn net i h) (\<lambda>r.
     case r of
       Inl e \<Rightarrow>
         seq (modify (addConns h (- 1))) (\<lambda>_.
         seq (clDebug ''#%d error connecting: %s'' [AInt i, AErr e]) (\<lambda>_. ret (Inl e)))
     | Inr p \<Rightarrow> ret (Inr p)))"

text \<open>The second loop: open a connection if there is a slot, or wait for one to be returned.\<close>

fun waitFree :: "net \<Rightarrow> nat \<Rightarrow> (goerror + nat, client) go" where
  "waitFree net n =
     seq (gets (\<lambda>c. c)) (\<lambda>c.
     if canOpen c then openSlot net
     else
       (case freeConnCh c of
          [] \<Rightarrow> abort_with Blocked
        | r # rest \<Rightarrow>
            (case n of
               0 \<Rightarrow> abort_with OutOfFuel
             | Suc n' \<Rightarrow>
                 seq (modify (\<lambda>c. c\<lparr>freeConnCh := rest\<rparr>)) (\<lambda>_.
                 if broken (heap c r) then
                   seq (dropBroken net ''waited and got #%d (broken)'' r) (\<lambda>_. waitFree net n')
                 else
                   seq (clDebug ''waited and got #%d'' [AInt (idx (heap c r))]) (\<lambda>_.
                   ret (Inr r))))))"

definition getIdleConn :: "net \<Rightarrow> (goerror + nat, client) go" where
  "getIdleConn net =
     seq (gets (\<lambda>c. length (freeConnCh c))) (\<lambda>n.
     seq (drainFree net n) (\<lambda>r.
     case r of Some p \<Rightarrow> ret (Inr p) | None \<Rightarrow> waitFree net n))"

definition OpenRawConn :: "net \<Rightarrow> (goerror + nat, client) go" where
  "OpenRawConn net =
     seq (gets (\<lambda>c. c)) (\<lambda>c.
     if hosts c = [] then abort_with (Panicked ''integer divide by zero'')
     else
       let i = rawConnIdx c;
           h = hosts c ! (nat i mod length (hosts c))
       in seq (modify (\<lambda>c. c\<lparr>rawConnIdx := rawConnIdx c + 1\<rparr>)) (\<lambda>_.
          openConn net (- (i + 1)) h))"

text \<open>
  \<open>Close\<close> collects the connections of the map and removes each. Go ranges over a map in
  no particular order: \<open>order\<close> is the order of this run.
\<close>

fun removeAll :: "net \<Rightarrow> nat list \<Rightarrow> (unit, client) go" where
  "removeAll net [] = ret ()"
| "removeAll net (r # rs) = seq (removeConn net r) (\<lambda>_. removeAll net rs)"

definition Close :: "net \<Rightarrow> (nat set \<Rightarrow> nat list) \<Rightarrow> (goerror option, client) go" where
  "Close net order =
     seq (gets (\<lambda>c. c)) (\<lambda>c.
     if closed c then ret (Some (wrapErr (Errorf ''already closed'' [])))
     else
       seq (modify (\<lambda>c. c\<lparr>closed := True\<rparr>)) (\<lambda>_.
       seq (removeAll net (order (ran (allCons c)))) (\<lambda>_. ret None)))"

declare drainFree.simps [simp del] waitFree.simps [simp del]

section \<open>Rules\<close>

lemma wp_onConn [wp_simps]:
  "wp (onConn r m) Q E c =
     wp m (\<lambda>a w. Q a (c\<lparr>heap := (heap c)(r := pconn w), chist := hist w\<rparr>))
          (\<lambda>e w. E e (c\<lparr>heap := (heap c)(r := pconn w), chist := hist w\<rparr>))
          \<lparr>pconn = heap c r, hist = chist c\<rparr>"
  by (simp add: onConn_def wp_simps)

lemma wp_clDebug [wp_simps]:
  "wp (clDebug f as) Q E c =
     Q () (if Logger (clConfig c) then c\<lparr>chist := EvLog None f as # chist c\<rparr> else c)"
  by (simp add: clDebug_def wp_simps)

section \<open>Opening and closing sockets\<close>

definition conn_socks :: "persistentConn \<Rightarrow> handle set" where
  "conn_socks pc = (case controlConn pc of None \<Rightarrow> {} | Some c \<Rightarrow> {sock c}) \<union>
     (case pdataConn pc of None \<Rightarrow> {} | Some dc \<Rightarrow> {sock (Conn dc)})"

lemma close_contract:
  "wp (close net) (\<lambda>_ w'. pconn w' = pconn w \<and> live (hist w') = live (hist w) - conn_socks (pconn w)) never w"
  by (auto simp: close_def wp_simps conn_socks_def Let_def split: option.split)

text \<open>Connecting yields a socket that was not open before, or leaves nothing open.\<close>

definition opens :: "history \<Rightarrow> goerror + conn \<Rightarrow> history \<Rightarrow> bool" where
  "opens h r h' \<longleftrightarrow> sent_on h' = sent_on h \<and>
     (case r of
        Inl e \<Rightarrow> live h' = live h
      | Inr c \<Rightarrow> live h' - {sock c} = live h \<and> sock c \<notin> live h)"

lemma opens_log [simp]: "opens (EvLog i f as # h) = opens h"
  by (simp add: opens_def fun_eq_iff split: sum.split)

lemma callDialFunc_opens: "wp (callDialFunc net network a) (opens h) never h"
  using length_notin_live [of h] by (simp add: wp_simps opens_def Let_def split: option.split)

lemma DialTimeout_opens: "wp (DialTimeout net network a tmo) (opens h) never h"
  using length_notin_live [of h] by (simp add: wp_simps opens_def Let_def split: option.split)

lemma dial_opens: "wp (dial net cfg network a) (opens h) never h"
  unfolding dial_def wp_if using callDialFunc_opens DialTimeout_opens by simp

text \<open>Shaking hands on a fresh socket keeps it when it succeeds and closes it when it fails.\<close>

lemma upgrade_opens:
  assumes "\<And>h. wp d (opens h) never h"
  shows "wp (seq d (\<lambda>r. case r of Inl e \<Rightarrow> ret (Inl e)
      | Inr raw \<Rightarrow> seq (Handshake net raw (cfg raw)) (\<lambda>err. case err of
            Some e \<Rightarrow> seq (closeConn net raw) (\<lambda>_. ret (Inl e))
          | None \<Rightarrow> ret (Inr (TLSClient raw (cfg raw)))))) (opens h) never h"
  unfolding wp_seq
  by (rule wp_mono [OF assms])
    (simp_all add: wp_simps Let_def opens_def split: sum.splits option.split)

lemma DialWithDialer_opens: "wp (DialWithDialer net tmo network a cfg) (opens h) never h"
  unfolding DialWithDialer_def Let_def by (rule upgrade_opens [OF DialTimeout_opens])

lemma connectControl_contract:
  "wp (connectControl net cfg a) (\<lambda>r w'. pconn w' = pconn w \<and> opens (hist w) r (hist w')) never w"
proof -
  have io: "wp (io m) (\<lambda>r w'. pconn w' = pconn w \<and> opens (hist w) r (hist w')) never w"
    if "\<And>h. wp m (opens h) never h" for m w
    unfolding wp_io by (rule wp_mono [OF that]) simp_all
  have io_upgrade: "seq (io d) (\<lambda>r. case r of Inl e \<Rightarrow> ret (Inl e)
      | Inr raw \<Rightarrow> seq (io (Handshake net raw t)) (\<lambda>err. case err of
            Some e \<Rightarrow> seq (io (closeConn net raw)) (\<lambda>_. ret (Inl e))
          | None \<Rightarrow> ret (Inr (TLSClient raw t)))) =
      io (seq d (\<lambda>r. case r of Inl e \<Rightarrow> ret (Inl e)
      | Inr raw \<Rightarrow> seq (Handshake net raw t) (\<lambda>err. case err of
            Some e \<Rightarrow> seq (closeConn net raw) (\<lambda>_. ret (Inl e))
          | None \<Rightarrow> ret (Inr (TLSClient raw t)))))" for d t
    by (rule ext) (simp add: io_def zoom_def seq_def ret_def Handshake_def closeConn_def Let_def
        split: out.split sum.split option.split)
  have log: "wp (seq (debug f as) (\<lambda>_. m)) (\<lambda>r w'. pconn w' = pconn w \<and> opens (hist w) r (hist w')) never w"
    if "\<And>w. wp m (\<lambda>r w'. pconn w' = pconn w \<and> opens (hist w) r (hist w')) never w" for f as m w
    using that [of w] that [of "w\<lparr>hist := EvLog (Some (idx (pconn w))) f as # hist w\<rparr>"]
    by (simp add: wp_simps)
  show ?thesis
    unfolding connectControl_def io_upgrade
    by (simp add: log wp_if io [OF dial_opens] io [OF DialWithDialer_opens]
        io [OF upgrade_opens [OF callDialFunc_opens]] split: option.split TLSMode.split)
qed

end
