(* ===== verification/PoolInv.thy ===== *)
theory PoolInv
  imports Pool "HOL-Library.Multiset"
begin

text \<open>
  The invariant of the connection pool. At any moment the pool accounts for the connections queued in
  the channel, the connections \<open>held\<close> by goroutines, and the slots \<open>pend\<close> that are reserved for a
  connection being opened; each is one unit of the count of its host, and no host has more than
  \<open>ConnectionsPerHost\<close>. The same invariant serves one goroutine and, in \<open>PoolSteps\<close>, many.
\<close>

definition units :: "string list \<Rightarrow> nat list \<Rightarrow> client \<Rightarrow> string list" where
  "units pend held c = map (\<lambda>r. host (heap c r)) (freeConnCh c @ held) @ pend"

definition pool_inv :: "string list \<Rightarrow> nat list \<Rightarrow> client \<Rightarrow> bool" where
  "pool_inv pend held c \<longleftrightarrow>
     distinct (map fst (numConnsPerHost c)) \<and>
     fst ` set (numConnsPerHost c) \<subseteq> set (hosts c) \<and>
     distinct (freeConnCh c @ held) \<and>
     (\<forall>r \<in> set (freeConnCh c @ held). r < nextRef c) \<and>
     set (units pend held c) \<subseteq> set (hosts c) \<and>
     (\<forall>h. numConns c h = int (count_list (units pend held c) h)) \<and>
     (\<forall>h. numConns c h \<le> ConnectionsPerHost (clConfig c)) \<and>
     0 \<le> ConnectionsPerHost (clConfig c)"

definition hosts_ok :: "client \<Rightarrow> bool" where
  "hosts_ok c \<longleftrightarrow> distinct (hosts c) \<and> [] \<notin> set (hosts c) \<and> hosts c \<noteq> [] \<and> 0 < ConnectionsPerHost (clConfig c)"

lemma pool_invD:
  assumes "pool_inv pend held c"
  shows pool_keys: "distinct (map fst (numConnsPerHost c))"
    and pool_keys_hosts: "fst ` set (numConnsPerHost c) \<subseteq> set (hosts c)"
    and pool_distinct: "distinct (freeConnCh c @ held)"
    and pool_refs: "\<And>r. r \<in> set (freeConnCh c @ held) \<Longrightarrow> r < nextRef c"
    and pool_hosts: "set (units pend held c) \<subseteq> set (hosts c)"
    and pool_count: "\<And>h. numConns c h = int (count_list (units pend held c) h)"
    and pool_limit: "\<And>h. numConns c h \<le> ConnectionsPerHost (clConfig c)"
    and pool_nonneg: "0 \<le> ConnectionsPerHost (clConfig c)"
  using assms unfolding pool_inv_def by blast+

lemma pool_invI:
  assumes "distinct (map fst (numConnsPerHost c))" "fst ` set (numConnsPerHost c) \<subseteq> set (hosts c)"
    and "distinct (freeConnCh c @ held)" "\<And>r. r \<in> set (freeConnCh c @ held) \<Longrightarrow> r < nextRef c"
    and "set (units pend held c) \<subseteq> set (hosts c)"
    and "\<And>h. numConns c h = int (count_list (units pend held c) h)"
    and "\<And>h. numConns c h \<le> ConnectionsPerHost (clConfig c)" "0 \<le> ConnectionsPerHost (clConfig c)"
  shows "pool_inv pend held c"
  using assms unfolding pool_inv_def by blast

section \<open>Sums and counts\<close>

lemma sum_count_list:
  assumes "finite S" and "set xs \<subseteq> S"
  shows "(\<Sum>h\<in>S. int (count_list xs h)) = int (length xs)"
  using assms sum_count_set [OF assms(2,1)] by (simp flip: of_nat_sum)

lemma sum_list_map_of:
  fixes al :: "('k \<times> int) list"
  assumes "distinct (map fst al)"
  shows "sum_list (map snd al) = (\<Sum>h\<in>fst ` set al. (case map_of al h of None \<Rightarrow> 0 | Some n \<Rightarrow> n))"
proof -
  have "sum_list (map snd al) = (\<Sum>p\<in>set al. snd p)"
    using assms by (simp add: sum_list_distinct_conv_sum_set distinct_map)
  also have "\<dots> = (\<Sum>p\<in>set al. (case map_of al (fst p) of None \<Rightarrow> 0 | Some n \<Rightarrow> n))"
    using assms by (intro sum.cong) (auto simp: map_of_is_SomeI)
  also have "\<dots> = (\<Sum>h\<in>fst ` set al. (case map_of al h of None \<Rightarrow> 0 | Some n \<Rightarrow> n))"
    using assms by (simp add: sum.reindex distinct_map)
  finally show ?thesis .
qed

lemma numOpenConns_sum:
  assumes "distinct (map fst (numConnsPerHost c))" "fst ` set (numConnsPerHost c) \<subseteq> set (hosts c)"
  shows "numOpenConns c = (\<Sum>h\<in>set (hosts c). numConns c h)"
proof -
  have "numOpenConns c = (\<Sum>h\<in>fst ` set (numConnsPerHost c). numConns c h)"
    using sum_list_map_of [OF assms(1)] by (simp add: numOpenConns_def numConns_def)
  also have "\<dots> = (\<Sum>h\<in>set (hosts c). numConns c h)"
    using assms(2) by (intro sum.mono_neutral_left)
      (auto simp: numConns_def map_of_eq_None_iff split: option.split intro: rev_image_eqI dest: map_of_SomeD)
  finally show ?thesis .
qed

text \<open>The number of open connections is what the channel, the holders and the reserved slots add up
  to, and it fits the capacity of the channel.\<close>

lemma pool_sum: "pool_inv pend held c \<Longrightarrow> numOpenConns c = (\<Sum>h\<in>set (hosts c). numConns c h)"
  by (rule numOpenConns_sum [OF pool_keys pool_keys_hosts])

lemma pool_total:
  assumes "pool_inv pend held c"
  shows "numOpenConns c = int (length (freeConnCh c) + length held + length pend)"
proof -
  have "numOpenConns c = (\<Sum>h\<in>set (hosts c). int (count_list (units pend held c) h))"
    by (simp only: pool_sum [OF assms] pool_count [OF assms])
  also have "\<dots> = int (length (units pend held c))"
    using pool_hosts [OF assms] by (intro sum_count_list) simp_all
  finally show ?thesis by (simp add: units_def)
qed

lemma pool_capacity:
  assumes "pool_inv pend held c"
  shows "numOpenConns c \<le> chanCap c"
proof -
  have "numOpenConns c \<le> (\<Sum>h\<in>set (hosts c). ConnectionsPerHost (clConfig c))"
    unfolding pool_sum [OF assms] by (intro sum_mono pool_limit [OF assms])
  also have "\<dots> = int (card (set (hosts c))) * ConnectionsPerHost (clConfig c)" by simp
  also have "\<dots> \<le> chanCap c"
    unfolding chanCap_def using pool_nonneg [OF assms]
    by (intro mult_right_mono) (simp_all add: card_length)
  finally show ?thesis .
qed

section \<open>The host search\<close>

lemma findHost_found:
  assumes "findHost c i k = h" "h \<noteq> []" "hosts c \<noteq> []"
  shows "h \<in> set (hosts c) \<and> numConns c h < ConnectionsPerHost (clConfig c)"
  using assms by (induction k arbitrary: i) (auto simp: Let_def split: if_splits)

lemma findHost_none:
  assumes "findHost c i k = []" "[] \<notin> set (hosts c)" "hosts c \<noteq> []" "j < k"
  shows "ConnectionsPerHost (clConfig c) \<le> numConns c (hosts c ! ((i + j) mod length (hosts c)))"
  using assms
proof (induction k arbitrary: i j)
  case (Suc k)
  have ne: "hosts c ! (i mod length (hosts c)) \<noteq> []"
    using Suc.prems by (metis length_greater_0_conv mod_less_divisor nth_mem)
  with Suc.prems have now: "\<not> numConns c (hosts c ! (i mod length (hosts c))) < ConnectionsPerHost (clConfig c)"
    and rest: "findHost c (Suc i) k = []"
    by (auto simp: Let_def split: if_splits)
  show ?case
  proof (cases j)
    case 0
    with now show ?thesis by simp
  next
    case (Suc j')
    with Suc.prems Suc.IH [of "Suc i" j'] rest show ?thesis by simp
  qed
qed simp

lemma mod_window: "n < len \<Longrightarrow> \<exists>j<len. (i + j) mod len = (n :: nat)"
proof -
  assume n: "n < len"
  let ?j = "(n + (len - i mod len)) mod len"
  have "(i + ?j) mod len = (i mod len + (n + (len - i mod len))) mod len"
    by (metis mod_add_left_eq mod_add_right_eq)
  also have "i mod len + (n + (len - i mod len)) = n + len"
    using n mod_less_divisor [of len i] by linarith
  finally show ?thesis using n by (intro exI [of _ ?j]) auto
qed

text \<open>With distinct, non-empty hosts, a free slot is the slot of some host, and the search finds one:
  the panic of \<open>getIdleConn\<close> is not reached.\<close>

lemma findHost_total:
  assumes inv: "pool_inv pend held c" and ok: "hosts_ok c" and room: "canOpen c"
  shows "findHost c i (length (hosts c)) \<noteq> []"
proof
  assume none: "findHost c i (length (hosts c)) = []"
  from room have ne: "hosts c \<noteq> []"
    using pool_total [OF inv] by (auto simp: canOpen_def)
  have "ConnectionsPerHost (clConfig c) \<le> numConns c h" if "h \<in> set (hosts c)" for h
  proof -
    from that obtain n where n: "n < length (hosts c)" "hosts c ! n = h" by (metis in_set_conv_nth)
    with mod_window [OF n(1), of i] obtain j where "j < length (hosts c)" "(i + j) mod length (hosts c) = n"
      by blast
    with findHost_none [OF none _ ne] ok n(2) show ?thesis by (auto simp: hosts_ok_def)
  qed
  then have "(\<Sum>h\<in>set (hosts c). ConnectionsPerHost (clConfig c)) \<le> (\<Sum>h\<in>set (hosts c). numConns c h)"
    by (intro sum_mono)
  with room ok show False
    by (simp add: canOpen_def hosts_ok_def distinct_card pool_sum [OF inv])
qed

section \<open>Updates of the counts\<close>

lemma numConns_addConns:
  "numConns (addConns h n c) h' = numConns c h' + (if h' = h then n else 0)"
  by (simp add: numConns_def addConns_def update_conv')

lemma addConns_fields [simp]:
  "clConfig (addConns h n c) = clConfig c" "hosts (addConns h n c) = hosts c"
  "freeConnCh (addConns h n c) = freeConnCh c" "allCons (addConns h n c) = allCons c"
  "connIdx (addConns h n c) = connIdx c" "rawConnIdx (addConns h n c) = rawConnIdx c"
  "closed (addConns h n c) = closed c" "clSessionCache (addConns h n c) = clSessionCache c"
  "heap (addConns h n c) = heap c" "nextRef (addConns h n c) = nextRef c"
  "chist (addConns h n c) = chist c"
  by (simp_all add: addConns_def)

lemma addConns_keys:
  "fst ` set (numConnsPerHost (addConns h n c)) = insert h (fst ` set (numConnsPerHost c))"
  "distinct (map fst (numConnsPerHost c)) \<Longrightarrow> distinct (map fst (numConnsPerHost (addConns h n c)))"
  by (simp_all add: addConns_def dom_update distinct_update)

lemma units_addConns [simp]: "units pend held (addConns h n c) = units pend held c"
  by (simp add: units_def)

section \<open>What the operations do to the invariant\<close>

text \<open>The invariant does not look at the history, the indices, the map of all connections or anything
  in a connection but its host, nor at the order of what is held and reserved.\<close>

lemma pool_inv_move:
  assumes inv: "pool_inv pend held c"
    and eq: "numConnsPerHost c' = numConnsPerHost c" "hosts c' = hosts c" "clConfig c' = clConfig c"
    and refs: "distinct (freeConnCh c' @ held')" "\<And>r. r \<in> set (freeConnCh c' @ held') \<Longrightarrow> r < nextRef c'"
    and us: "mset (units pend' held' c') = mset (units pend held c)"
  shows "pool_inv pend' held' c'"
proof (rule pool_invI)
  have n: "numConns c' h = numConns c h" for h using eq(1) by (simp add: numConns_def)
  have u: "count_list (units pend' held' c') h = count_list (units pend held c) h" for h
    using us by (metis count_mset)
  show "numConns c' h = int (count_list (units pend' held' c') h)" for h
    unfolding n u by (rule pool_count [OF inv])
  show "numConns c' h \<le> ConnectionsPerHost (clConfig c')" for h
    unfolding n eq by (rule pool_limit [OF inv])
  show "set (units pend' held' c') \<subseteq> set (hosts c')"
    unfolding eq mset_eq_setD [OF us] by (rule pool_hosts [OF inv])
qed (use eq refs pool_keys [OF inv] pool_keys_hosts [OF inv] pool_nonneg [OF inv] in auto)

lemma pool_inv_cong:
  assumes inv: "pool_inv pend held c" and eq: "numConnsPerHost c' = numConnsPerHost c" "hosts c' = hosts c"
      "freeConnCh c' = freeConnCh c" "clConfig c' = clConfig c"
    and "nextRef c \<le> nextRef c'"
    and hosts: "\<And>r. r < nextRef c \<Longrightarrow> host (heap c' r) = host (heap c r)"
  shows "pool_inv pend held c'"
proof (rule pool_inv_move [OF inv eq(1,2,4)])
  show "mset (units pend held c') = mset (units pend held c)"
    using hosts pool_refs [OF inv] eq(3) by (auto simp: units_def intro!: arg_cong2 [of _ _ _ _ "(+)"] image_mset_cong)
qed (use pool_distinct [OF inv] pool_refs [OF inv] eq(3) assms(6) in \<open>auto intro: less_le_trans\<close>)

lemma pool_inv_perm:
  assumes inv: "pool_inv pend held c" and held: "mset held' = mset held" and pend: "mset pend' = mset pend"
  shows "pool_inv pend' held' c"
proof (rule pool_inv_move [OF inv])
  have rs: "mset (freeConnCh c @ held') = mset (freeConnCh c @ held)" using held by simp
  show "distinct (freeConnCh c @ held')"
    using pool_distinct [OF inv] mset_eq_imp_distinct_iff [OF rs] by simp
  show "r < nextRef c" if "r \<in> set (freeConnCh c @ held')" for r
    using that unfolding mset_eq_setD [OF rs] by (rule pool_refs [OF inv])
qed (use held pend in \<open>simp_all add: units_def\<close>)

lemma pool_receive:
  assumes inv: "pool_inv pend held c" and "freeConnCh c = r # rest"
  shows "pool_inv pend (r # held) (c\<lparr>freeConnCh := rest\<rparr>)"
  by (rule pool_inv_move [OF inv])
    (use assms(2) pool_distinct [OF inv] pool_refs [OF inv] in \<open>auto simp: units_def\<close>)

lemma pool_return:
  assumes inv: "pool_inv pend (r # held) c"
  shows "pool_inv pend held (c\<lparr>freeConnCh := freeConnCh c @ [r]\<rparr>)"
  by (rule pool_inv_move [OF inv])
    (use pool_distinct [OF inv] pool_refs [OF inv] in \<open>auto simp: units_def\<close>)

lemma pool_return_room:
  assumes "pool_inv pend (r # held) c"
  shows "int (length (freeConnCh c)) < chanCap c"
  using pool_total [OF assms] pool_capacity [OF assms] by simp

lemma pool_attach:
  assumes inv: "pool_inv (host (heap c r) # pend) held c" and "r < nextRef c" "r \<notin> set (freeConnCh c @ held)"
  shows "pool_inv pend (r # held) c"
  by (rule pool_inv_move [OF inv])
    (use assms(2,3) pool_distinct [OF inv] pool_refs [OF inv] in \<open>auto simp: units_def\<close>)

lemma pool_detach:
  assumes inv: "pool_inv pend (r # held) c"
  shows "pool_inv (host (heap c r) # pend) held c"
  by (rule pool_inv_move [OF inv])
    (use pool_distinct [OF inv] pool_refs [OF inv] in \<open>auto simp: units_def\<close>)

lemma pool_reserve:
  assumes inv: "pool_inv pend held c" and "h \<in> set (hosts c)" "numConns c h < ConnectionsPerHost (clConfig c)"
  shows "pool_inv (h # pend) held (addConns h 1 c)"
proof (rule pool_invI)
  show "numConns (addConns h 1 c) h' = int (count_list (units (h # pend) held (addConns h 1 c)) h')" for h'
    using pool_count [OF inv, of h'] by (simp add: numConns_addConns units_def)
  show "numConns (addConns h 1 c) h' \<le> ConnectionsPerHost (clConfig (addConns h 1 c))" for h'
    using pool_limit [OF inv, of h'] assms(3) by (simp add: numConns_addConns)
qed (use assms pool_invD [OF inv] in \<open>auto simp: addConns_keys units_def\<close>)

lemma pool_release:
  assumes inv: "pool_inv (h # pend) held c"
  shows "pool_inv pend held (addConns h (- 1) c)"
proof (rule pool_invI)
  show "numConns (addConns h (- 1) c) h' = int (count_list (units pend held (addConns h (- 1) c)) h')" for h'
    using pool_count [OF inv, of h'] by (simp add: numConns_addConns units_def)
  show "numConns (addConns h (- 1) c) h' \<le> ConnectionsPerHost (clConfig (addConns h (- 1) c))" for h'
    using pool_limit [OF inv, of h'] by (auto simp: numConns_addConns)
qed (use pool_invD [OF inv] in \<open>auto simp: addConns_keys units_def\<close>)

end
