(* ===== verification/Views.thy ===== *)
theory Views
  imports Pool
begin

text \<open>
  Views of the history. A view reads something off the history, as the payload of a transfer, or where the server stands in a file;
  an operation that adds only events the view does not look at keeps it. The locale \<open>event_view\<close> has the operations that only open, close and
  prepare sockets and write the log; \<open>command_view\<close> adds commands that are quiet for the view, and with them opening
  connections and the pool.
\<close>

section \<open>What a view of the history keeps\<close>

abbreviation kept_h :: "(history \<Rightarrow> 'v) \<Rightarrow> 'v \<Rightarrow> 'a io \<Rightarrow> bool" where
  "kept_h view X \<equiv> keeps (\<lambda>h. view h = X)"

abbreviation kept_w :: "(history \<Rightarrow> 'v) \<Rightarrow> 'v \<Rightarrow> ('a, pworld) go \<Rightarrow> bool" where
  "kept_w view X \<equiv> keeps (\<lambda>w. view (hist w) = X)"

abbreviation kept_c :: "(history \<Rightarrow> 'v) \<Rightarrow> 'v \<Rightarrow> ('a, client) go \<Rightarrow> bool" where
  "kept_c view X \<equiv> keeps (\<lambda>c. view (chist c) = X)"

declare TrueI [keeps_rules]

lemma keeps_case_list [keeps_rules]:
  "(xs = [] \<Longrightarrow> keeps I m) \<Longrightarrow> (\<And>y ys. xs = y # ys \<Longrightarrow> keeps I (f y ys)) \<Longrightarrow>
     keeps I (case xs of [] \<Rightarrow> m | y # ys \<Rightarrow> f y ys)"
  by (cases xs) auto

lemma keeps_unchanged: "(\<And>X. keeps (\<lambda>s. v s = X) m) \<Longrightarrow> wp m (\<lambda>_ s'. v s' = v s) (\<lambda>_ s'. v s' = v s) s"
  by (simp add: keeps_def)

text \<open>Events of the sockets and of the log.\<close>

fun is_setup :: "event \<Rightarrow> bool" where
  "is_setup (EvDial _ _) = True"
| "is_setup (EvListen _ _) = True"
| "is_setup (EvAccept _ _) = True"
| "is_setup (EvHandshake _ _) = True"
| "is_setup (EvReadDeadline _ _) = True"
| "is_setup (EvWriteDeadline _ _) = True"
| "is_setup (EvResolve _) = True"
| "is_setup (EvClose _ _) = True"
| "is_setup (EvLog _ _ _) = True"
| "is_setup _ = False"

locale event_view =
  fixes view :: "history \<Rightarrow> 'v"
  assumes silent: "\<And>ev h. is_setup ev \<Longrightarrow> view (ev # h) = view h"
begin

lemma kept_system [keeps_rules]:
  "is_setup ev \<Longrightarrow> kept_h view X (emit ev)"
  "kept_h view X (DialTimeout net nw a tmo)" "kept_h view X (callDialFunc net nw a)"
  "kept_h view X (Handshake net c cfg)" "kept_h view X (closeConn net c)"
  "kept_h view X (SetReadDeadline c t)" "kept_h view X (SetWriteDeadline c t)"
  by (auto simp: keeps_def wp_simps Let_def silent split: prod.split)

lemma kept_io [keeps_rules]: "kept_h view X m \<Longrightarrow> kept_w view X (io m)"
  by (auto simp: keeps_def wp_io elim!: wp_mono)

lemma kept_onConn [keeps_rules]: "kept_w view X m \<Longrightarrow> kept_c view X (onConn r m)"
  by (auto simp: keeps_def wp_onConn elim!: wp_mono)

lemma kept_updPconn [keeps_rules]: "kept_w view X (updPconn f)"
  by (simp add: keeps_def wp_simps)

lemma kept_withControl [keeps_rules]: "(\<And>c. kept_w view X (f c)) \<Longrightarrow> kept_w view X (withControl f)"
  by (auto simp: keeps_def wp_simps split: option.split)

lemma kept_debug [keeps_rules]: "kept_w view X (debug f as)"
  by (simp add: keeps_def wp_simps silent)

lemma kept_clDebug [keeps_rules]: "kept_c view X (clDebug f as)"
  by (simp add: keeps_def wp_simps silent)

lemma kept_setControlConn [keeps_rules]: "kept_w view X (setControlConn c)"
  unfolding setControlConn_def by (intro keeps_rules)

lemma kept_close [keeps_rules]: "kept_w view X (close net)"
  unfolding close_def by (intro keeps_rules)

lemma kept_dial [keeps_rules]: "kept_h view X (dial net cfg nw a)"
  unfolding dial_def by (intro keeps_rules)

lemma kept_DialWithDialer [keeps_rules]: "kept_h view X (DialWithDialer net tmo nw a cfg)"
  unfolding DialWithDialer_def Let_def by (intro keeps_rules)

lemma kept_connectControl [keeps_rules]: "kept_w view X (connectControl net cfg a)"
  unfolding connectControl_def by (auto intro!: keeps_rules split: option.split TLSMode.split)

lemma kept_dropBroken [keeps_rules]: "kept_c view X (dropBroken net why r)"
  unfolding dropBroken_def removeConn_def by (intro keeps_rules) (simp_all add: addConns_def)

lemma kept_returnConn [keeps_rules]: "kept_c view X (returnConn r)"
  unfolding returnConn_def by (intro keeps_rules) simp_all

end

text \<open>The dialogue is a view, so connecting says nothing.\<close>

interpretation talk: event_view "dialogue net s" for net s
proof
  show "dialogue net s (ev # h) = dialogue net s h" if "is_setup ev" for ev h
    using that by (cases ev) simp_all
qed

section \<open>Quiet commands\<close>

text \<open>
  Commands that say nothing about the place in a file: all but those that set it and those that start a transfer of a
  file. The other commands the client builds itself are such, whatever their arguments.
\<close>

definition about_files :: "string \<Rightarrow> bool" where
  "about_files bytes \<longleftrightarrow> HasPrefix bytes ''REST '' \<or> HasPrefix bytes ''RETR '' \<or> HasPrefix bytes ''STOR ''"

lemma not_about_files [simp]:
  "\<not> about_files (Sprintf ''USER %s'' as @ crlf)" "\<not> about_files (Sprintf ''PASS %s'' as @ crlf)"
  "\<not> about_files (Sprintf ''AUTH TLS'' as @ crlf)" "\<not> about_files (Sprintf ''PBSZ 0'' as @ crlf)"
  "\<not> about_files (Sprintf ''PROT P'' as @ crlf)" "\<not> about_files (Sprintf ''FEAT'' as @ crlf)"
  "\<not> about_files (Sprintf ''TYPE %s'' as @ crlf)" "\<not> about_files (Sprintf ''SIZE %s'' as @ crlf)"
  "\<not> about_files (Sprintf ''PASV'' as @ crlf)" "\<not> about_files (Sprintf ''EPSV'' as @ crlf)"
  "\<not> about_files (Sprintf ''EPRT |%d|%s|%d|'' as @ crlf)" "\<not> about_files (Sprintf ''PORT %d,%d,%d,%d,%d,%d'' as @ crlf)"
  by (cases as; simp add: about_files_def HasPrefix_def Sprintf_def)+

locale command_view = event_view +
  fixes quiet :: "string \<Rightarrow> bool"
  assumes recv: "\<And>s n h. view (EvRecv s n # h) = view h"
    and send: "\<And>c bytes r h. quiet bytes \<Longrightarrow> view (EvSend c bytes r # h) = view h"
    and quietI: "\<And>bytes. \<not> about_files bytes \<Longrightarrow> quiet bytes"
begin

lemma kept_talk [keeps_rules]:
  "quiet (line @ crlf) \<Longrightarrow> kept_h view X (PrintfLine net c line)" "kept_h view X (ReadResponse net c)"
  by (auto simp: keeps_def wp_simps Let_def send recv split: prod.split)

lemma kept_readResponse [keeps_rules]: "kept_w view X (readResponse net)"
  unfolding readResponse_def by (intro keeps_rules)

lemma kept_sendCommand [keeps_rules]: "quiet (Sprintf f as @ crlf) \<Longrightarrow> kept_w view X (sendCommand net f as)"
  unfolding sendCommand_def Let_def by (intro keeps_rules)

lemma kept_sendCommandExpected [keeps_rules]:
  "quiet (Sprintf f as @ crlf) \<Longrightarrow> kept_w view X (sendCommandExpected net x f as)"
  unfolding sendCommandExpected_def by (intro keeps_rules)

lemma kept_fetchFeatures [keeps_rules]: "kept_w view X (fetchFeatures net)"
  unfolding fetchFeatures_def by (intro keeps_rules quietI) simp

lemma kept_logIn [keeps_rules]: "kept_w view X (logIn net)"
  unfolding logIn_def by (intro keeps_rules quietI) simp_all

lemma kept_logInTLS [keeps_rules]: "kept_w view X (logInTLS net)"
  unfolding logInTLS_def by (intro keeps_rules quietI) simp_all

lemma kept_setType [keeps_rules]: "kept_w view X (setType net t)"
  unfolding setType_def by (intro keeps_rules quietI) simp

lemma kept_openSession [keeps_rules]: "kept_w view X (openSession net cfg a)"
  unfolding openSession_def greetAndLogIn_def by (intro keeps_rules)

lemma kept_openConn [keeps_rules]: "kept_c view X (openConn net i h)"
  unfolding openConn_def Let_def by (intro keeps_rules) simp_all

lemma kept_openSlot [keeps_rules]: "kept_c view X (openSlot net)"
  unfolding openSlot_def reserveSlot_def Let_def by (intro keeps_rules) (simp_all add: addConns_def)

lemma kept_drainFree [keeps_rules]: "kept_c view X (drainFree net n)"
proof (induction n)
  case 0
  show ?case by (subst drainFree.simps) (auto intro!: keeps_rules)
next
  case (Suc n)
  show ?case by (subst drainFree.simps) (auto intro!: keeps_rules Suc)
qed

lemma kept_waitFree [keeps_rules]: "kept_c view X (waitFree net n)"
proof (induction n)
  case 0
  show ?case by (subst waitFree.simps) (auto intro!: keeps_rules)
next
  case (Suc n)
  show ?case by (subst waitFree.simps) (auto intro!: keeps_rules Suc)
qed

lemma kept_getIdleConn [keeps_rules]: "kept_c view X (getIdleConn net)"
  unfolding getIdleConn_def by (intro keeps_rules)

end

end
