(* ===== verification/Dialogue.thy ===== *)
theory Dialogue
  imports Control
begin

text \<open>
  What the client and the server say to each other on a control connection. \<open>speaks\<close> relates an operation to the part of the
  dialogue it adds and to its result; it composes along the code, so that the dialogue of a login is the login's commands in their
  order, each with the reply that lets the client go on.
\<close>

section \<open>The dialogue of an operation\<close>

text \<open>A connection with the configuration \<open>cfg\<close> whose control socket is \<open>s\<close>.\<close>

definition talking :: "Config \<Rightarrow> handle \<Rightarrow> pworld \<Rightarrow> bool" where
  "talking cfg s w \<longleftrightarrow> config (pconn w) = cfg \<and> map_option sock (controlConn (pconn w)) = Some s"

definition speaks :: "net \<Rightarrow> Config \<Rightarrow> handle \<Rightarrow> ('a, pworld) go \<Rightarrow> ('a \<Rightarrow> utterance list \<Rightarrow> bool) \<Rightarrow> bool" where
  "speaks net cfg s m P \<longleftrightarrow> (\<forall>w. talking cfg s w \<longrightarrow> wp m (\<lambda>a w'. talking cfg s w' \<and>
     (\<exists>us. dialogue net s (hist w') = dialogue net s (hist w) @ us \<and> P a us)) never w)"

named_theorems speaks_rules \<open>dialogues of the basic operations\<close>

lemma talkingE:
  assumes "talking cfg s w"
  obtains c where "controlConn (pconn w) = Some c" "sock c = s" "config (pconn w) = cfg"
  using assms by (auto simp: talking_def)

lemma speaksI:
  "(\<And>w. talking cfg s w \<Longrightarrow> wp m (\<lambda>a w'. talking cfg s w' \<and>
     (\<exists>us. dialogue net s (hist w') = dialogue net s (hist w) @ us \<and> P a us)) never w) \<Longrightarrow> speaks net cfg s m P"
  by (simp add: speaks_def)

lemma speaksD:
  "speaks net cfg s m P \<Longrightarrow> talking cfg s w \<Longrightarrow> wp m (\<lambda>a w'. talking cfg s w' \<and>
     (\<exists>us. dialogue net s (hist w') = dialogue net s (hist w) @ us \<and> P a us)) never w"
  by (simp add: speaks_def)

lemma speaks_weaken: "speaks net cfg s m P \<Longrightarrow> (\<And>a us. P a us \<Longrightarrow> Q a us) \<Longrightarrow> speaks net cfg s m Q"
  unfolding speaks_def by (blast intro: wp_mono)

lemma speaks_seq:
  assumes m: "speaks net cfg s m P" and f: "\<And>a us. P a us \<Longrightarrow> speaks net cfg s (f a) (\<lambda>b us'. Q b (us @ us'))"
  shows "speaks net cfg s (seq m f) Q"
proof (rule speaksI)
  fix w assume w: "talking cfg s w"
  show "wp (seq m f) (\<lambda>a w'. talking cfg s w' \<and>
      (\<exists>us. dialogue net s (hist w') = dialogue net s (hist w) @ us \<and> Q a us)) never w"
    unfolding wp_seq
  proof (rule wp_mono [OF speaksD [OF m w]], goal_cases)
    case (1 a w')
    then obtain us where us: "dialogue net s (hist w') = dialogue net s (hist w) @ us" "P a us" by blast
    from 1 have w': "talking cfg s w'" by blast
    show ?case
      by (rule wp_mono [OF speaksD [OF f [OF us(2)] w']]) (use us(1) in auto)
  qed simp
qed

text \<open>What is said before a silent operation and after it.\<close>

lemma speaks_silent:
  "speaks net cfg s m (\<lambda>_ us. us = []) \<Longrightarrow> (\<And>a. speaks net cfg s (f a) Q) \<Longrightarrow> speaks net cfg s (seq m f) Q"
  by (rule speaks_seq [where P = "\<lambda>_ us. us = []"]) simp_all

lemma speaks_ret [speaks_rules]: "P a [] \<Longrightarrow> speaks net cfg s (ret a) P"
  by (simp add: speaks_def wp_simps)

lemma speaks_debug [speaks_rules]: "speaks net cfg s (debug f as) (\<lambda>_ us. us = [])"
  by (simp add: speaks_def wp_simps talking_def)

lemma speaks_updPconn:
  assumes "\<And>pc. config (f pc) = config pc" "\<And>pc. map_option sock (controlConn (f pc)) = map_option sock (controlConn pc)"
  shows "speaks net cfg s (updPconn f) (\<lambda>_ us. us = [])"
  using assms by (simp add: speaks_def wp_simps talking_def del: map_option_eq_Some)

lemma speaks_config: "speaks net cfg s (f cfg) P \<Longrightarrow> speaks net cfg s (seq (gets (\<lambda>w. config (pconn w))) f) P"
  by (auto simp: speaks_def wp_seq wp_gets talking_def)

lemma speaks_if: "(b \<Longrightarrow> speaks net cfg s m P) \<Longrightarrow> (\<not> b \<Longrightarrow> speaks net cfg s m' P) \<Longrightarrow> speaks net cfg s (if b then m else m') P"
  by simp

text \<open>Putting TLS on the control socket says nothing and keeps the socket.\<close>

lemma speaks_upgrade:
  assumes "speaks net cfg s (f ()) P"
  shows "speaks net cfg s (withControl (\<lambda>c. seq (gets pconn) (\<lambda>pc. seq (setControlConn (tlsClient c (t pc))) f))) P"
proof (rule speaksI)
  fix w assume w: "talking cfg s w"
  then obtain c where c: "controlConn (pconn w) = Some c" "sock c = s" "config (pconn w) = cfg" by (rule talkingE)
  let ?w = "w\<lparr>pconn := (pconn w)\<lparr>controlConn := Some (tlsClient c (t (pconn w)))\<rparr>\<rparr>"
  have "talking cfg s ?w" using c by (simp add: talking_def)
  from speaksD [OF assms this]
  show "wp (withControl (\<lambda>c. seq (gets pconn) (\<lambda>pc. seq (setControlConn (tlsClient c (t pc))) f)))
      (\<lambda>a w'. talking cfg s w' \<and> (\<exists>us. dialogue net s (hist w') = dialogue net s (hist w) @ us \<and> P a us)) never w"
    by (simp add: wp_simps c(1) setControlConn_def)
qed

section \<open>Commands and replies\<close>

lemma speaks_readResponse:
  "speaks net cfg s (readResponse net) (\<lambda>(code, msg, err) us. err = None \<longrightarrow> us = [Heard code])"
proof (rule speaksI)
  fix w assume w: "talking cfg s w"
  then obtain c where c: "controlConn (pconn w) = Some c" "sock c = s" by (rule talkingE)
  with w show "wp (readResponse net) (\<lambda>a w'. talking cfg s w' \<and> (\<exists>us. dialogue net s (hist w') = dialogue net s (hist w) @ us \<and>
      (case a of (code, msg, err) \<Rightarrow> \<lambda>us. err = None \<longrightarrow> us = [Heard code]) us)) never w"
    by (auto simp: readResponse_def wp_simps talking_def hearing_def split: prod.split option.split)
qed

lemma exchange_talking: "exchange w c cmd r w' \<Longrightarrow> talking cfg s w \<Longrightarrow> talking cfg s w'"
  by (auto simp: exchange_def talking_def split: prod.splits)

lemma speaks_sendCommand:
  assumes stubs: "stubResponses cfg = Map.empty"
  shows "speaks net cfg s (sendCommand net f as)
    (\<lambda>(code, msg, err). exchanged (Sprintf f as) (if err = None then Some code else None))"
proof (rule speaksI)
  fix w assume w: "talking cfg s w"
  then obtain c where c: "controlConn (pconn w) = Some c" "sock c = s" "config (pconn w) = cfg" by (rule talkingE)
  with stubs have "stubResponses (config (pconn w)) (Sprintf f as) = None" by simp
  from sendCommand_dialogue [where net = net, OF c(1) this] sendCommand_contract [OF c(1), of net f as]
  show "wp (sendCommand net f as) (\<lambda>a w'. talking cfg s w' \<and> (\<exists>us. dialogue net s (hist w') = dialogue net s (hist w) @ us \<and>
      (case a of (code, msg, err) \<Rightarrow> exchanged (Sprintf f as) (if err = None then Some code else None)) us)) never w"
    using exchange_talking [OF _ w] c(2) unfolding wp_def by (auto split: out.splits)
qed

lemma speaks_sendCommandExpected:
  assumes "stubResponses cfg = Map.empty"
  shows "speaks net cfg s (sendCommandExpected net x f as) (\<lambda>err us. \<exists>answer.
    exchanged (Sprintf f as) answer us \<and> (err = None \<longleftrightarrow> (\<exists>code. answer = Some code \<and> replyOk x code)))"
  unfolding sendCommandExpected_def
proof (rule speaks_seq [OF speaks_sendCommand [OF assms]], clarify, goal_cases)
  case (1 code msg err us)
  then show ?case
    by (cases err) (auto intro!: speaks_ret exI [of _ "if err = None then Some code else None"])
qed

text \<open>A command that must be answered as expected before the client goes on.\<close>

lemma speaks_expect:
  fixes P :: "goerror option \<Rightarrow> utterance list \<Rightarrow> bool"
  assumes stubs: "stubResponses cfg = Map.empty" and fail: "\<And>e us. P (Some e) us"
    and go: "\<And>code. replyOk x code \<Longrightarrow> speaks net cfg s m (\<lambda>err us. P err ([Said (Sprintf f as @ crlf), Heard code] @ us))"
  shows "speaks net cfg s (seq (sendCommandExpected net x f as) (\<lambda>err. case err of Some e \<Rightarrow> ret (Some e) | None \<Rightarrow> m)) P"
proof (rule speaks_seq [OF speaks_sendCommandExpected [OF stubs]], elim exE conjE)
  fix err :: "goerror option" and us answer
  assume ex: "exchanged (Sprintf f as) answer us" and iff: "(err = None) = (\<exists>code. answer = Some code \<and> replyOk x code)"
  show "speaks net cfg s (case err of None \<Rightarrow> m | Some e \<Rightarrow> ret (Some e)) (\<lambda>b us'. P b (us @ us'))"
  proof (cases err)
    case None
    with iff obtain code where code: "answer = Some code" "replyOk x code" by blast
    with ex have "us = [Said (Sprintf f as @ crlf), Heard code]" by (simp add: exchanged_def)
    with None go [OF code(2)] show ?thesis by simp
  qed (simp add: fail speaks_ret)
qed

lemma speaks_expect_last:
  fixes P :: "goerror option \<Rightarrow> utterance list \<Rightarrow> bool"
  assumes stubs: "stubResponses cfg = Map.empty" and fail: "\<And>e us. P (Some e) us"
    and go: "\<And>code. replyOk x code \<Longrightarrow> P None [Said (Sprintf f as @ crlf), Heard code]"
  shows "speaks net cfg s (sendCommandExpected net x f as) P"
proof (rule speaks_weaken [OF speaks_sendCommandExpected [OF stubs]])
  fix err :: "goerror option" and us assume "\<exists>answer. exchanged (Sprintf f as) answer us \<and> (err = None \<longleftrightarrow> (\<exists>code. answer = Some code \<and> replyOk x code))"
  then show "P err us" by (cases err) (auto simp: exchanged_def fail go)
qed

section \<open>Logging in\<close>

text \<open>
  The dialogue of a login that succeeds. \<open>accepted_by\<close> is a command and the positive completion reply to it: the user is accepted
  as such, or after the server asked for the password with code 331 and accepted it. A client without a user name says
  nothing.
\<close>

definition accepted_by :: "string \<Rightarrow> utterance list \<Rightarrow> bool" where
  "accepted_by cmd us \<longleftrightarrow> (\<exists>k. 200 \<le> k \<and> k < 300 \<and> us = [Said (cmd @ crlf), Heard k])"

definition loginTalk :: "Config \<Rightarrow> utterance list \<Rightarrow> bool" where
  "loginTalk cfg us \<longleftrightarrow>
     (if User cfg = [] then us = []
      else accepted_by (''USER '' @ User cfg) us \<or>
        (\<exists>vs. us = [Said (''USER '' @ User cfg @ crlf), Heard 331] @ vs \<and> accepted_by (''PASS '' @ Password cfg) vs))"

lemma append_split: "A us \<Longrightarrow> B vs \<Longrightarrow> \<exists>xs ys. us @ vs = xs @ ys \<and> A xs \<and> B ys"
  by blast

text \<open>The protection of the data channels is asked for in two commands.\<close>

definition protectTalk :: "utterance list \<Rightarrow> bool" where
  "protectTalk us \<longleftrightarrow> (\<exists>vs vs'. us = vs @ vs' \<and> accepted_by ''PBSZ 0'' vs \<and> accepted_by ''PROT P'' vs')"

lemma positiveCompletionReply_iff: "positiveCompletionReply code \<longleftrightarrow> 200 \<le> code \<and> code < 300"
proof (cases "0 \<le> code")
  case False
  then have "code sdiv 100 \<le> 0" by (simp add: signed_divide_int_def sgn_if)
  with False show ?thesis by (simp add: positiveCompletionReply_def)
qed (auto simp: positiveCompletionReply_def sdiv_100_eq)

lemma replyOk_completion: "replyOk replyGroupPositiveCompletion code \<longleftrightarrow> 200 \<le> code \<and> code < 300"
  unfolding positiveCompletionReply_iff [symmetric]
  by (simp add: replyOk_def positiveCompletionReply_def replyGroupPositiveCompletion_def)

lemma replyOk_code: "x \<noteq> 1 \<Longrightarrow> x \<noteq> 2 \<Longrightarrow> replyOk x code \<longleftrightarrow> code = x"
  by (simp add: replyOk_def reply_code_defs)

lemma Sprintf_fixed:
  "Sprintf ''AUTH TLS'' [] = ''AUTH TLS''" "Sprintf ''PBSZ 0'' [] = ''PBSZ 0''" "Sprintf ''PROT P'' [] = ''PROT P''"
  "Sprintf ''FEAT'' [] = ''FEAT''" "Sprintf ''USER %s'' [AStr u] = ''USER '' @ u" "Sprintf ''PASS %s'' [AStr u] = ''PASS '' @ u"
  by (simp_all add: Sprintf_def fmt_arg_def)

lemma speaks_protect:
  fixes P :: "goerror option \<Rightarrow> utterance list \<Rightarrow> bool"
  assumes stubs: "stubResponses cfg = Map.empty" and fail: "\<And>e us. P (Some e) us"
    and go: "\<And>us. protectTalk us \<Longrightarrow> speaks net cfg s m (\<lambda>err us'. P err (us @ us'))"
  shows "speaks net cfg s (seq (sendCommandExpected net replyGroupPositiveCompletion ''PBSZ 0'' []) (\<lambda>err.
     case err of
       Some e \<Rightarrow> ret (Some e)
     | None \<Rightarrow> seq (sendCommandExpected net replyGroupPositiveCompletion ''PROT P'' []) (\<lambda>err.
         case err of Some e \<Rightarrow> ret (Some e) | None \<Rightarrow> m))) P"
proof (rule speaks_expect [OF stubs], rule fail, rule speaks_expect [OF stubs], rule fail)
  fix k l assume "replyOk replyGroupPositiveCompletion k" "replyOk replyGroupPositiveCompletion l"
  then have "protectTalk ([Said (''PBSZ 0'' @ crlf), Heard k] @ [Said (''PROT P'' @ crlf), Heard l])"
    unfolding protectTalk_def accepted_by_def replyOk_completion by blast
  from go [OF this] show "speaks net cfg s m (\<lambda>err us. P err ([Said (Sprintf ''PBSZ 0'' [] @ crlf), Heard k] @
      [Said (Sprintf ''PROT P'' [] @ crlf), Heard l] @ us))"
    by (simp add: Sprintf_fixed)
qed

text \<open>The whole of \<open>logIn\<close>: in implicit mode it asks for protected data channels, but not for a client without a user name.\<close>

definition logInTalk :: "Config \<Rightarrow> utterance list \<Rightarrow> bool" where
  "logInTalk cfg us \<longleftrightarrow>
     (if User cfg \<noteq> [] \<and> TLSConfig cfg \<noteq> None \<and> TLSMode cfg = TLSImplicit
      then \<exists>vs vs'. us = vs @ vs' \<and> loginTalk cfg vs \<and> protectTalk vs'
      else loginTalk cfg us)"

text \<open>The end of \<open>logIn\<close>, after the last reply.\<close>

abbreviation (input) loginEnd :: "net \<Rightarrow> Config \<Rightarrow> int \<Rightarrow> string \<Rightarrow> goerror option \<Rightarrow> (goerror option, pworld) go" where
  "loginEnd net cfg code msg err \<equiv> (case err of
     Some e \<Rightarrow> ret (Some e)
   | None \<Rightarrow>
       if \<not> positiveCompletionReply code then ret (Some (replyErr code msg))
       else if TLSConfig cfg \<noteq> None \<and> TLSMode cfg = TLSImplicit then
         seq (sendCommandExpected net replyGroupPositiveCompletion ''PBSZ 0'' []) (\<lambda>err.
         case err of
           Some e \<Rightarrow> ret (Some e)
         | None \<Rightarrow> sendCommandExpected net replyGroupPositiveCompletion ''PROT P'' [])
       else ret None)"

lemma speaks_loginEnd:
  assumes stubs: "stubResponses cfg = Map.empty" and user: "User cfg \<noteq> []"
    and login: "err = None \<Longrightarrow> positiveCompletionReply code \<Longrightarrow> loginTalk cfg us"
  shows "speaks net cfg s (loginEnd net cfg code msg err) (\<lambda>err' us'. err' = None \<longrightarrow> logInTalk cfg (us @ us'))"
proof (cases err)
  case None
  have implicit: "speaks net cfg s (seq (sendCommandExpected net replyGroupPositiveCompletion ''PBSZ 0'' []) (\<lambda>err.
      case err of
        Some e \<Rightarrow> ret (Some e)
      | None \<Rightarrow> sendCommandExpected net replyGroupPositiveCompletion ''PROT P'' []))
      (\<lambda>err' us'. err' = None \<longrightarrow> logInTalk cfg (us @ us'))"
    if "loginTalk cfg us" "TLSConfig cfg \<noteq> None \<and> TLSMode cfg = TLSImplicit"
  proof (rule speaks_expect [OF stubs], simp, rule speaks_expect_last [OF stubs], simp)
    fix k l assume "replyOk replyGroupPositiveCompletion k" "replyOk replyGroupPositiveCompletion l"
    then have "protectTalk ([Said (''PBSZ 0'' @ crlf), Heard k] @ [Said (''PROT P'' @ crlf), Heard l])"
      unfolding protectTalk_def accepted_by_def replyOk_completion by blast
    with that user show "None = (None :: goerror option) \<longrightarrow>
        logInTalk cfg (us @ [Said (Sprintf ''PBSZ 0'' [] @ crlf), Heard k] @ [Said (Sprintf ''PROT P'' [] @ crlf), Heard l])"
      by (simp add: logInTalk_def Sprintf_fixed append_split)
  qed
  have plain: "speaks net cfg s (ret None) (\<lambda>err' us'. err' = None \<longrightarrow> logInTalk cfg (us @ us'))"
    if "loginTalk cfg us" "\<not> (TLSConfig cfg \<noteq> None \<and> TLSMode cfg = TLSImplicit)"
    using that by (intro speaks_ret) (auto simp: logInTalk_def)
  show ?thesis
    unfolding None option.case
    by (intro speaks_if implicit plain login None) (auto intro: speaks_ret)
qed (simp add: speaks_ret)

lemma speaks_password:
  assumes stubs: "stubResponses cfg = Map.empty" and user: "User cfg \<noteq> []"
  shows "speaks net cfg s (if code = replyNeedPassword then sendCommand net ''PASS %s'' [AStr (Password cfg)] else ret (code, msg, None))
    (\<lambda>(code', msg', err') us'. err' = None \<longrightarrow> positiveCompletionReply code' \<longrightarrow>
       loginTalk cfg ([Said (''USER '' @ User cfg @ crlf), Heard code] @ us'))"
proof (rule speaks_if)
  assume "code = replyNeedPassword"
  with user show "speaks net cfg s (sendCommand net ''PASS %s'' [AStr (Password cfg)]) (\<lambda>(code', msg', err') us'.
      err' = None \<longrightarrow> positiveCompletionReply code' \<longrightarrow> loginTalk cfg ([Said (''USER '' @ User cfg @ crlf), Heard code] @ us'))"
    by (intro speaks_weaken [OF speaks_sendCommand [OF stubs]])
      (auto simp: exchanged_def loginTalk_def accepted_by_def positiveCompletionReply_iff replyNeedPassword_def Sprintf_fixed
        split: prod.splits)
next
  assume "code \<noteq> replyNeedPassword"
  with user show "speaks net cfg s (ret (code, msg, None)) (\<lambda>(code', msg', err') us'.
      err' = None \<longrightarrow> positiveCompletionReply code' \<longrightarrow> loginTalk cfg ([Said (''USER '' @ User cfg @ crlf), Heard code] @ us'))"
    by (intro speaks_ret) (auto simp: loginTalk_def accepted_by_def positiveCompletionReply_iff)
qed

lemma speaks_logIn:
  assumes stubs: "stubResponses cfg = Map.empty"
  shows "speaks net cfg s (logIn net) (\<lambda>err us. err = None \<longrightarrow> logInTalk cfg us)"
  unfolding logIn_def
proof (rule speaks_config, rule speaks_if)
  assume "User cfg = []"
  then show "speaks net cfg s (ret None) (\<lambda>err us. err = None \<longrightarrow> logInTalk cfg us)"
    by (intro speaks_ret) (simp add: logInTalk_def loginTalk_def)
next
  assume user: "User cfg \<noteq> []"
  have rest: "speaks net cfg s (seq (if code = replyNeedPassword then sendCommand net ''PASS %s'' [AStr (Password cfg)]
      else ret (code, msg, None)) (\<lambda>(code, msg, err). loginEnd net cfg code msg err))
      (\<lambda>err' us'. err' = None \<longrightarrow> logInTalk cfg ([Said (''USER '' @ User cfg @ crlf), Heard code] @ us'))" for code msg
  proof (rule speaks_seq [OF speaks_password [OF stubs user]], clarify, goal_cases)
    case (1 code' msg' err' us')
    then show ?case
      using speaks_loginEnd [OF stubs user, of err' code' "[Said (''USER '' @ User cfg @ crlf), Heard code] @ us'"] by simp
  qed
  show "speaks net cfg s (seq (sendCommand net ''USER %s'' [AStr (User cfg)]) (\<lambda>(code, msg, err).
       case err of
         Some e \<Rightarrow> seq (updPconn (\<lambda>pc. pc\<lparr>broken := True\<rparr>)) (\<lambda>_. ret (Some e))
       | None \<Rightarrow> seq (if code = replyNeedPassword then sendCommand net ''PASS %s'' [AStr (Password cfg)] else ret (code, msg, None))
           (\<lambda>(code, msg, err). loginEnd net cfg code msg err))) (\<lambda>err us. err = None \<longrightarrow> logInTalk cfg us)"
  proof (rule speaks_seq [OF speaks_sendCommand [OF stubs]], clarify, goal_cases)
    case (1 code msg err us)
    then show ?case
      using rest [of code msg]
      by (cases err) (auto simp: exchanged_def Sprintf_fixed intro!: speaks_silent [OF speaks_updPconn] speaks_ret)
  qed
qed

lemma speaks_logInTLS:
  assumes stubs: "stubResponses cfg = Map.empty"
  shows "speaks net cfg s (logInTLS net) (\<lambda>err us. err = None \<longrightarrow> (\<exists>vs vs'.
    us = [Said (''AUTH TLS'' @ crlf), Heard 234] @ vs @ vs' \<and> logInTalk cfg vs \<and> protectTalk vs'))"
  unfolding logInTLS_def
proof (rule speaks_expect [OF stubs], simp, rule speaks_upgrade)
  fix code assume "replyOk replyAuthOkayNoDataNeeded code"
  then have code: "code = 234" by (simp add: replyOk_code replyAuthOkayNoDataNeeded_def)
  show "speaks net cfg s (seq (logIn net) (\<lambda>err. case err of
         Some e \<Rightarrow> ret (Some e)
       | None \<Rightarrow>
           seq (sendCommandExpected net replyGroupPositiveCompletion ''PBSZ 0'' []) (\<lambda>err.
           case err of
             Some e \<Rightarrow> ret (Some e)
           | None \<Rightarrow>
               seq (sendCommandExpected net replyGroupPositiveCompletion ''PROT P'' []) (\<lambda>err.
               case err of
                 Some e \<Rightarrow> ret (Some e)
               | None \<Rightarrow> seq (debug ''successfully upgraded to TLS'' []) (\<lambda>_. ret None)))))
     (\<lambda>err us. err = None \<longrightarrow> (\<exists>vs vs'.
       [Said (Sprintf ''AUTH TLS'' [] @ crlf), Heard code] @ us = [Said (''AUTH TLS'' @ crlf), Heard 234] @ vs @ vs' \<and>
       logInTalk cfg vs \<and> protectTalk vs'))"
  proof (rule speaks_seq [OF speaks_logIn [OF stubs]], goal_cases)
    case (1 err us)
    then show ?case
      by (cases err)
        (auto simp: code Sprintf_fixed intro!: speaks_protect [OF stubs] speaks_silent [OF speaks_debug] speaks_ret
            append_split)
  qed
qed

lemma speaks_fetchFeatures:
  assumes stubs: "stubResponses cfg = Map.empty"
  shows "speaks net cfg s (fetchFeatures net) (\<lambda>err us. err = None \<longrightarrow> (\<exists>k. us = [Said (''FEAT'' @ crlf), Heard k]))"
  unfolding fetchFeatures_def
proof (rule speaks_seq [OF speaks_sendCommand [OF stubs]], clarify, goal_cases)
  case (1 code msg err us)
  then show ?case
    by (cases err) (auto simp: exchanged_def Sprintf_fixed intro!: speaks_ret speaks_if speaks_silent [OF speaks_debug]
        speaks_silent [OF speaks_updPconn])
qed

end
