(* ===== verification/Session.thy ===== *)
theory Session
  imports Views Dialogue
begin

text \<open>
  What opening a connection promises (\<open>openConn\<close> of \<^verbatim>\<open>client.go\<close>): a connection that is
  logged in, with one socket that was not open before, or an \<open>ftpError\<close> and no socket left
  behind; and that with TLS configured nothing but the \<^verbatim>\<open>AUTH TLS\<close> command crosses the network in the
  clear.
\<close>

section \<open>From the greeting to the features\<close>

lemma ctl_ok_greetAndLogIn: "ctl_ok (greetAndLogIn net cfg) (\<lambda>err. err)"
  unfolding greetAndLogIn_def
  by (rule ctl_ok_call3 [OF ctl_ok_readResponse])
    (auto intro!: ctl_rules ctl_ok_call1 [OF ctl_ok_logInTLS] ctl_ok_call1 [OF ctl_ok_logIn]
      ctl_ok_fetchFeatures)

interpretation greet: control_op "greetAndLogIn net cfg" "\<lambda>err. err" for net cfg
  by unfold_locales (rule ctl_ok_greetAndLogIn)

section \<open>A session\<close>

text \<open>
  The contract of \<open>openSession\<close> on a fresh connection: its identity is kept, the sockets it owns
  afterwards are all that was opened, and an error is an \<open>ftpError\<close>.
\<close>

definition same_ident :: "persistentConn \<Rightarrow> persistentConn \<Rightarrow> bool" where
  "same_ident pc pc' \<longleftrightarrow> idx pc' = idx pc \<and> host pc' = host pc \<and> config pc' = config pc \<and>
     sessionCache pc' = sessionCache pc \<and> pdataConn pc' = pdataConn pc"

definition session_ok :: "pworld \<Rightarrow> goerror option \<Rightarrow> pworld \<Rightarrow> bool" where
  "session_ok w err w' \<longleftrightarrow> same_ident (pconn w) (pconn w') \<and>
     live (hist w') - conn_socks (pconn w') = live (hist w) \<and>
     conn_socks (pconn w') \<inter> live (hist w) = {} \<and>
     (case err of None \<Rightarrow> connected w' | Some e \<Rightarrow> is_ftpError e)"

lemma openSession_contract:
  assumes "controlConn (pconn w) = None" "pdataConn (pconn w) = None"
  shows "wp (openSession net cfg a) (session_ok w) never w"
  unfolding openSession_def wp_seq
proof (rule wp_mono [OF connectControl_contract])
  fix r and w' :: pworld assume r: "pconn w' = pconn w \<and> opens (hist w) r (hist w')"
  show "wp (case r of Inl e \<Rightarrow> ret (Some (FtpError (Some e) 0 [] False (isTemporary e)))
      | Inr conn \<Rightarrow> seq (setControlConn conn) (\<lambda>_. greetAndLogIn net cfg)) (session_ok w) never w'"
  proof (cases r)
    case (Inl e)
    with r assms show ?thesis
      by (simp add: wp_simps session_ok_def same_ident_def opens_def conn_socks_def)
  next
    case (Inr c)
    let ?w = "w'\<lparr>pconn := (pconn w')\<lparr>controlConn := Some c\<rparr>\<rparr>"
    have "wp (greetAndLogIn net cfg)
        (\<lambda>err w''. ctl_step ?w w'' \<and> (\<forall>e. err = Some e \<longrightarrow> is_ftpError e)) never ?w"
      by (rule ctl_okD [OF ctl_ok_greetAndLogIn]) (simp add: connected_def)
    then have "wp (greetAndLogIn net cfg) (session_ok w) never ?w"
    proof (rule wp_mono)
      fix err and w'' :: pworld assume step: "ctl_step ?w w'' \<and> (\<forall>e. err = Some e \<longrightarrow> is_ftpError e)"
      then have "live (hist w'') = live (hist w')"
        by (auto simp: ctl_step_def dest: same_socks_live)
      with step r Inr assms show "session_ok w err w''"
        by (auto simp: session_ok_def same_ident_def ctl_step_def conn_socks_def opens_def connected_def
            split: option.split)
    qed simp
    with Inr show ?thesis by (simp add: wp_simps setControlConn_def)
  qed
qed simp

section \<open>Opening a connection\<close>

text \<open>What \<open>openConn\<close> leaves as it was, and what it adds when it succeeds.\<close>

definition open_frame :: "client \<Rightarrow> client \<Rightarrow> bool" where
  "open_frame c c' \<longleftrightarrow> clConfig c' = clConfig c \<and> hosts c' = hosts c \<and> freeConnCh c' = freeConnCh c \<and>
     numConnsPerHost c' = numConnsPerHost c \<and> connIdx c' = connIdx c \<and> rawConnIdx c' = rawConnIdx c \<and>
     closed c' = closed c \<and> nextRef c' = Suc (nextRef c) \<and>
     (\<forall>r. r \<noteq> nextRef c \<longrightarrow> heap c' r = heap c r)"

definition opened_conn :: "client \<Rightarrow> int \<Rightarrow> string \<Rightarrow> goerror + nat \<Rightarrow> client \<Rightarrow> bool" where
  "opened_conn c i h r c' \<longleftrightarrow> open_frame c c' \<and>
     (case r of
        Inl e \<Rightarrow> is_ftpError e \<and> allCons c' = allCons c \<and> live (chist c') = live (chist c)
      | Inr p \<Rightarrow> p = nextRef c \<and> \<not> closed c \<and>
          allCons c' = (if 0 \<le> i then (allCons c)(i \<mapsto> p) else allCons c) \<and>
          idx (heap c' p) = i \<and> host (heap c' p) = h \<and> config (heap c' p) = clConfig c \<and>
          controlConn (heap c' p) \<noteq> None \<and> pdataConn (heap c' p) = None \<and>
          live (chist c') - conn_socks (heap c' p) = live (chist c) \<and>
          conn_socks (heap c' p) \<inter> live (chist c) = {})"

lemma wp_on_close:
  assumes "\<And>h'. live h' = live (chist c) - conn_socks (heap c r) \<Longrightarrow> Q (c\<lparr>chist := h'\<rparr>)"
  shows "wp (onConn r (close net)) (\<lambda>_. Q) never c"
  unfolding wp_onConn by (rule wp_mono [OF close_contract]) (auto intro!: assms)

lemma openConn_contract: "wp (openConn net i h) (opened_conn c i h) never c"
proof -
  let ?r = "nextRef c"
  let ?c = "c\<lparr>nextRef := Suc ?r, heap := (heap c)(?r := newConn c i h)\<rparr>"
  have "wp (openSession net (clConfig c) h) (session_ok \<lparr>pconn = newConn c i h, hist = chist c\<rparr>) never
      \<lparr>pconn = newConn c i h, hist = chist c\<rparr>"
    by (rule openSession_contract) (simp_all add: newConn_def)
  then have "wp (onConn ?r (openSession net (clConfig c) h)) (\<lambda>err c'. \<exists>w'.
      session_ok \<lparr>pconn = newConn c i h, hist = chist c\<rparr> err w' \<and>
      c' = ?c\<lparr>heap := (heap c)(?r := pconn w'), chist := hist w'\<rparr>) never ?c"
    unfolding wp_onConn by (simp, elim wp_mono) auto
  then have "wp (onConn ?r (openSession net (clConfig c) h)) (\<lambda>err. wp (case err of
      Some e \<Rightarrow> seq (onConn ?r (close net)) (\<lambda>_. ret (Inl e))
    | None \<Rightarrow> seq (gets closed) (\<lambda>isClosed.
        if isClosed then
          seq (onConn ?r (close net)) (\<lambda>_. ret (Inl (wrapErr (Errorf ''client closed'' []))))
        else
          seq (modify (\<lambda>c. if 0 \<le> i then c\<lparr>allCons := (allCons c)(i \<mapsto> ?r)\<rparr> else c)) (\<lambda>_.
          ret (Inr ?r)))) (opened_conn c i h) never) never ?c"
  proof (rule wp_mono, goal_cases)
    case (1 err c')
    then show ?case
      by (cases err) (auto simp: wp_seq wp_ret wp_gets wp_modify session_ok_def same_ident_def newConn_def
          opened_conn_def open_frame_def connected_def intro!: wp_on_close)
  qed simp
  then show ?thesis
    by (simp add: openConn_def wp_simps Let_def)
qed

section \<open>The dialogue of a session\<close>

text \<open>
  The dialogue of a session that is opened: the greeting with code 220; in explicit mode \<^verbatim>\<open>AUTH TLS\<close> answered with 234, the login
  and the protection of the data channels, otherwise the login; and the question for the features, whatever its answer.
\<close>

definition sessionTalk :: "Config \<Rightarrow> utterance list \<Rightarrow> bool" where
  "sessionTalk cfg us \<longleftrightarrow> (\<exists>login k. us = [Heard 220] @ login @ [Said (''FEAT'' @ crlf), Heard k] \<and>
     (if TLSConfig cfg \<noteq> None \<and> TLSMode cfg = TLSExplicit
      then \<exists>vs vs'. login = [Said (''AUTH TLS'' @ crlf), Heard 234] @ vs @ vs' \<and> logInTalk cfg vs \<and> protectTalk vs'
      else logInTalk cfg login))"

lemma sessionTalkI:
  assumes "if TLSConfig cfg \<noteq> None \<and> TLSMode cfg = TLSExplicit
      then \<exists>vs vs'. login = [Said (''AUTH TLS'' @ crlf), Heard 234] @ vs @ vs' \<and> logInTalk cfg vs \<and> protectTalk vs'
      else logInTalk cfg login"
  shows "sessionTalk cfg (Heard 220 # login @ [Said (''FEAT'' @ crlf), Heard k])"
  unfolding sessionTalk_def by (rule exI [of _ login], rule exI [of _ k]) (use assms in simp)

lemma speaks_greetAndLogIn:
  assumes stubs: "stubResponses cfg = Map.empty"
  shows "speaks net cfg s (greetAndLogIn net cfg) (\<lambda>err us. err = None \<longrightarrow> sessionTalk cfg us)"
  unfolding greetAndLogIn_def
proof (rule speaks_seq [OF speaks_readResponse], clarify, goal_cases)
  case (1 code msg err us)
  let ?login = "if TLSConfig cfg \<noteq> None \<and> TLSMode cfg = TLSExplicit then logInTLS net else logIn net"
  let ?Q = "\<lambda>err us. err = None \<longrightarrow> (if TLSConfig cfg \<noteq> None \<and> TLSMode cfg = TLSExplicit
      then \<exists>vs vs'. us = [Said (''AUTH TLS'' @ crlf), Heard 234] @ vs @ vs' \<and> logInTalk cfg vs \<and> protectTalk vs'
      else logInTalk cfg us)"
  have login: "speaks net cfg s ?login ?Q"
    by (intro speaks_if speaks_weaken [OF speaks_logInTLS [OF stubs]] speaks_weaken [OF speaks_logIn [OF stubs]]) auto
  have "speaks net cfg s (seq ?login (\<lambda>err. case err of Some e \<Rightarrow> ret (Some e) | None \<Rightarrow> fetchFeatures net))
      (\<lambda>err us'. err = None \<longrightarrow> sessionTalk cfg ([Heard 220] @ us'))"
  proof (rule speaks_seq [OF login], goal_cases)
    case (1 err us)
    show ?case
    proof (cases err)
      case None
      have "sessionTalk cfg ([Heard 220] @ us @ [Said (''FEAT'' @ crlf), Heard k])" for k
        using sessionTalkI [of cfg us k] 1 None by simp
      then show ?thesis
        unfolding None option.case by (intro speaks_weaken [OF speaks_fetchFeatures [OF stubs]]) auto
    qed (simp add: speaks_ret)
  qed
  with 1 show ?case
    by (cases err) (auto intro!: speaks_ret speaks_if simp: replyServiceReady_def)
qed

definition spoken :: "net \<Rightarrow> Config \<Rightarrow> history \<Rightarrow> persistentConn \<Rightarrow> history \<Rightarrow> bool" where
  "spoken net cfg h pc h' \<longleftrightarrow> (\<exists>d us. controlConn pc = Some d \<and>
     dialogue net (sock d) h' = dialogue net (sock d) h @ us \<and> sessionTalk cfg us)"

lemma openSession_spoken:
  assumes stubs: "stubResponses cfg = Map.empty" and cfg: "config (pconn w) = cfg"
  shows "wp (openSession net cfg a) (\<lambda>err w'. err = None \<longrightarrow> spoken net cfg (hist w) (pconn w') (hist w')) (\<lambda>_ _. True) w"
  unfolding openSession_def wp_seq
proof -
  have "wp (connectControl net cfg a) (\<lambda>r w'. pconn w' = pconn w \<and> (\<forall>s. dialogue net s (hist w') = dialogue net s (hist w))) never w"
    using connectControl_contract [of net cfg a w] keeps_unchanged [of "\<lambda>w. dialogue net _ (hist w)", OF talk.kept_connectControl]
    by (fastforce simp: wp_def split: out.splits)
  then show "wp (connectControl net cfg a) (\<lambda>r. wp (case r of
        Inl e \<Rightarrow> ret (Some (FtpError (Some e) 0 [] False (isTemporary e)))
      | Inr conn \<Rightarrow> seq (setControlConn conn) (\<lambda>_. greetAndLogIn net cfg))
      (\<lambda>err w'. err = None \<longrightarrow> spoken net cfg (hist w) (pconn w') (hist w')) (\<lambda>_ _. True)) (\<lambda>_ _. True) w"
  proof (rule wp_mono, goal_cases)
    case (1 r w')
    show ?case
    proof (cases r)
      case (Inr c)
      let ?w = "w'\<lparr>pconn := (pconn w')\<lparr>controlConn := Some c\<rparr>\<rparr>"
      have "talking cfg (sock c) ?w" using 1 cfg by (simp add: talking_def)
      from speaksD [OF speaks_greetAndLogIn [OF stubs] this, of net] 
      have "wp (greetAndLogIn net cfg) (\<lambda>err w'. err = None \<longrightarrow> spoken net cfg (hist w) (pconn w') (hist w')) (\<lambda>_ _. True) ?w"
        by (rule wp_mono) (use 1 in \<open>auto simp: talking_def spoken_def\<close>)
      with Inr show ?thesis by (simp add: wp_seq setControlConn_def wp_updPconn)
    qed (simp add: wp_ret)
  qed simp
qed

lemma openConn_spoken:
  assumes stubs: "stubResponses (clConfig c) = Map.empty"
  shows "wp (openConn net i h) (\<lambda>r c'. \<forall>p. r = Inr p \<longrightarrow>
     spoken net (clConfig c) (chist c) (heap c' p) (chist c')) (\<lambda>_ _. True) c"
proof -
  have clos: "wp (onConn r (close net)) (\<lambda>_ _. True) (\<lambda>_ _. True) u" for r u
    by (simp add: wp_def split: out.split)
  have "wp (openSession net (clConfig c) h) (\<lambda>err w'. err = None \<longrightarrow>
      spoken net (clConfig c) (chist c) (pconn w') (hist w')) (\<lambda>_ _. True) \<lparr>pconn = newConn c i h, hist = chist c\<rparr>"
    using openSession_spoken [OF stubs, of "\<lparr>pconn = newConn c i h, hist = chist c\<rparr>" net h] by (simp add: newConn_def)
  then show ?thesis
    unfolding openConn_def wp_seq wp_gets wp_let wp_modify wp_onConn [of _ "openSession _ _ _"]
    by (simp, elim wp_mono)
      (auto simp: wp_seq wp_gets wp_modify wp_ret wp_if split: option.split intro!: wp_mono [OF clos])
qed

section \<open>Opening a connection: what it promises\<close>

text \<open>C12. Opening a connection always returns. It returns a connection that is new, under the
  index and the host asked for, registered in the map of all connections when it belongs to the pool,
  and that owns the one socket that was opened; or it returns an \<open>ftpError\<close> and every
  socket that was opened is closed again. The pool's counters and the other connections are untouched. A connection that is returned
  is logged in: unless a test put canned responses into the configuration, the dialogue on its socket since then is a greeting with code 220, in explicit mode an accepted
  \<^verbatim>\<open>AUTH TLS\<close>, the user name, the password if and only if the server asked for it with 331, the acceptance of the login with a
  code from 200 to 299, with TLS the accepted protection of the data channels, and the question for the features.\<close>

theorem openConn_opens_or_cleans_up:
  "\<exists>r c'. openConn net i h c = Ret r c' \<and> open_frame c c' \<and>
     (case r of
        Inl e \<Rightarrow> is_ftpError e \<and> allCons c' = allCons c \<and> live (chist c') = live (chist c)
      | Inr p \<Rightarrow> p = nextRef c \<and> \<not> closed c \<and>
          allCons c' = (if 0 \<le> i then (allCons c)(i \<mapsto> p) else allCons c) \<and>
          idx (heap c' p) = i \<and> host (heap c' p) = h \<and> config (heap c' p) = clConfig c \<and>
          controlConn (heap c' p) \<noteq> None \<and> pdataConn (heap c' p) = None \<and>
          live (chist c') - conn_socks (heap c' p) = live (chist c) \<and>
          conn_socks (heap c' p) \<inter> live (chist c) = {} \<and>
          (stubResponses (clConfig c) = Map.empty \<longrightarrow> (\<exists>d us. controlConn (heap c' p) = Some d \<and>
             dialogue net (sock d) (chist c') = dialogue net (sock d) (chist c) @ us \<and> sessionTalk (clConfig c) us)))"
proof -
  obtain r c' where run: "openConn net i h c = Ret r c'" and opened: "opened_conn c i h r c'"
    using wp_never_returns [OF openConn_contract [of net i h c]] by blast
  have "spoken net (clConfig c) (chist c) (heap c' p) (chist c')" if "r = Inr p" "stubResponses (clConfig c) = Map.empty" for p
    using wp_RetD [OF openConn_spoken [OF that(2)] run] that(1) by blast
  with run opened show ?thesis
    unfolding opened_conn_def spoken_def by (intro exI [of _ r] exI [of _ c']) (auto split: sum.splits)
qed

text \<open>A server that asks for a password.\<close>

definition loginScript :: "string \<Rightarrow> string list" where
  "loginScript cmd =
     (if cmd = [] then [''220 ready'']
      else if HasPrefix cmd ''USER'' then [''331 password'']
      else if cmd = ''PASS secret'' @ crlf then [''230 hello'']
      else [''500 what''])"

theorem openConn_opens_or_cleans_up_witness:
  "\<exists>p c' d us. openConn (scripted loginScript []) 1 ''10.0.0.2:21'' (newClient sampleConfig [''10.0.0.2:21''] []) = Ret (Inr p) c' \<and>
     controlConn (heap c' p) = Some d \<and> dialogue (scripted loginScript []) (sock d) (chist c') = us \<and>
     sessionTalk (clConfig (newClient sampleConfig [''10.0.0.2:21''] [])) us"
proof -
  let ?net = "scripted loginScript []" and ?c = "newClient sampleConfig [''10.0.0.2:21''] []"
  have "case openConn ?net 1 ''10.0.0.2:21'' ?c of Ret (Inr _) _ \<Rightarrow> True | _ \<Rightarrow> False" by code_simp
  then obtain p c' where run: "openConn ?net 1 ''10.0.0.2:21'' ?c = Ret (Inr p) c'"
    by (auto split: out.splits sum.splits)
  have stubs: "stubResponses (clConfig ?c) = Map.empty"
    by (simp add: newClient_def defaultConfig_def sampleConfig_def zeroConfig_def)
  have "chist ?c = []" by (simp add: newClient_def)
  with openConn_opens_or_cleans_up [of ?net 1 "''10.0.0.2:21''" ?c] run stubs show ?thesis by auto
qed

section \<open>Nothing in the clear\<close>

fun is_tls :: "conn \<Rightarrow> bool" where
  "is_tls (Sock _) = False"
| "is_tls (TLSClient _ _) = True"
| "is_tls (TLSServer _ _) = True"

definition protected :: "conn \<times> string \<Rightarrow> bool" where
  "protected = (\<lambda>(c, bytes). is_tls c \<or> bytes = ''AUTH TLS'' @ crlf)"

text \<open>What was sent since \<open>S\<close> is protected, and so will be what is sent next.\<close>

definition safely :: "(conn \<times> string) list \<Rightarrow> pworld \<Rightarrow> bool" where
  "safely S w \<longleftrightarrow> (\<exists>new. sent_on (hist w) = S @ new \<and> list_all protected new)"

definition secure :: "(conn \<times> string) list \<Rightarrow> pworld \<Rightarrow> bool" where
  "secure S w \<longleftrightarrow> safely S w \<and> (\<exists>c. controlConn (pconn w) = Some c \<and> is_tls c)"

lemma secure_sendCommand [keeps_rules]: "keeps (secure S) (sendCommand net f as)"
proof (rule keepsI)
  fix w assume w: "secure S w"
  then obtain c new where c: "controlConn (pconn w) = Some c" "is_tls c"
    and new: "sent_on (hist w) = S @ new" "list_all protected new" by (auto simp: secure_def safely_def)
  show "wp (sendCommand net f as) (\<lambda>_. secure S) (\<lambda>_. secure S) w"
  proof (rule wp_mono [OF sendCommand_contract [OF c(1)]])
    fix a and w' :: pworld assume "exchange w c (Sprintf f as) a w'"
    then show "secure S w'" using c new by (cases a) (auto simp: exchange_def secure_def safely_def protected_def)
  qed simp
qed

lemma secure_updPconn:
  "(\<And>pc. controlConn (f pc) = controlConn pc) \<Longrightarrow> keeps (secure S) (updPconn f)"
  by (simp add: keeps_def wp_simps secure_def safely_def)

lemma secure_debug [keeps_rules]: "keeps (secure S) (debug f as)"
  by (simp add: keeps_def wp_simps secure_def safely_def)

lemma secure_sendCommandExpected [keeps_rules]: "keeps (secure S) (sendCommandExpected net x f as)"
  unfolding sendCommandExpected_def by (intro keeps_rules)

lemma secure_logIn [keeps_rules]: "keeps (secure S) (logIn net)"
  unfolding logIn_def by (intro keeps_rules secure_updPconn) simp

lemma secure_fetchFeatures [keeps_rules]: "keeps (secure S) (fetchFeatures net)"
  unfolding fetchFeatures_def by (intro keeps_rules secure_updPconn) simp

lemma readResponse_quiet:
  assumes "controlConn (pconn w) = Some c"
  shows "wp (readResponse net) (\<lambda>_ w'. sent_on (hist w') = sent_on (hist w) \<and>
    controlConn (pconn w') = controlConn (pconn w) \<and> config (pconn w') = config (pconn w)) never w"
  using assms by (auto simp: readResponse_def wp_simps split: prod.split option.split)

text \<open>The explicit upgrade sends one command before the channel is protected.\<close>

lemma dataChannelTLSConfig_some:
  "TLSConfig (config pc) \<noteq> None \<Longrightarrow> \<exists>t. dataChannelTLSConfig pc = Some t"
  by (auto simp: dataChannelTLSConfig_def Let_def)

lemma logInTLS_sends:
  assumes c: "controlConn (pconn w) = Some c" and tls: "TLSConfig (config (pconn w)) \<noteq> None"
    and safe: "safely S w"
  shows "wp (logInTLS net) (\<lambda>r w'. safely S w' \<and> (r = None \<longrightarrow> secure S w')) (\<lambda>_. safely S) w"
  unfolding logInTLS_def wp_seq [of "sendCommandExpected _ _ ''AUTH TLS'' _"]
proof (rule wp_mono [OF sendCommandExpected_contract [OF c]], goal_cases)
  case (1 r w')
  then obtain code msg err where x: "exchange w c (Sprintf ''AUTH TLS'' []) (code, msg, err) w'" by blast
  then have s: "safely S w'"
    and pc: "controlConn (pconn w') = Some c" "TLSConfig (config (pconn w')) \<noteq> None"
    using c tls safe by (auto simp: exchange_def protected_def Sprintf_def safely_def)
  obtain t where t: "dataChannelTLSConfig (pconn w') = Some t" using dataChannelTLSConfig_some [OF pc(2)] by blast
  let ?w = "w'\<lparr>pconn := (pconn w')\<lparr>controlConn := Some (TLSClient c t)\<rparr>\<rparr>"
  let ?rest = "seq (logIn net) (\<lambda>err.
         case err of
           Some e \<Rightarrow> ret (Some e)
         | None \<Rightarrow>
             seq (sendCommandExpected net replyGroupPositiveCompletion ''PBSZ 0'' []) (\<lambda>err.
             case err of
               Some e \<Rightarrow> ret (Some e)
             | None \<Rightarrow>
                 seq (sendCommandExpected net replyGroupPositiveCompletion ''PROT P'' []) (\<lambda>err.
                 case err of
                   Some e \<Rightarrow> ret (Some e)
                 | None \<Rightarrow>
                     seq (debug ''successfully upgraded to TLS'' []) (\<lambda>_. ret None))))"
  have "secure S ?w" using s by (simp add: secure_def safely_def)
  moreover have "keeps (secure S) ?rest" by (intro keeps_rules)
  ultimately have "wp ?rest (\<lambda>_. secure S) (\<lambda>_. secure S) ?w" by (intro keeps_wp)
  then have "wp ?rest (\<lambda>r w'. safely S w' \<and> (r = None \<longrightarrow> secure S w')) (\<lambda>_. safely S) ?w"
    by (rule wp_mono) (simp_all add: secure_def)
  then show ?case
    using s by (cases r) (simp_all add: wp_ret wp_withControl pc(1) wp_gets
        wp_seq [of "gets pconn"] wp_seq [of "updPconn _"] setControlConn_def wp_updPconn tlsClient_def t)
qed simp

text \<open>The implicit mode protects the channel before anything is sent.\<close>

lemma connectControl_sends:
  "wp (connectControl net cfg a) (\<lambda>r w'. pconn w' = pconn w \<and> sent_on (hist w') = sent_on (hist w) \<and>
     (\<forall>c. r = Inr c \<longrightarrow> TLSConfig cfg \<noteq> None \<longrightarrow> TLSMode cfg = TLSImplicit \<longrightarrow> is_tls c)) never w"
proof -
  have "wp (connectControl net cfg a) (\<lambda>r w'.
      \<forall>c. r = Inr c \<longrightarrow> TLSConfig cfg \<noteq> None \<longrightarrow> TLSMode cfg = TLSImplicit \<longrightarrow> is_tls c) (\<lambda>_ _. True) w"
    by (auto simp: connectControl_def dial_def DialWithDialer_def wp_simps Let_def
        split: option.split TLSMode.split sum.split)
  with connectControl_contract [of net cfg a w] show ?thesis
    by (auto simp: wp_def opens_def split: out.splits sum.splits)
qed

lemma greetAndLogIn_sends:
  assumes c: "controlConn (pconn w) = Some c" and tls: "TLSConfig (config (pconn w)) \<noteq> None"
    and cfg: "config (pconn w) = cfg" and safe: "safely S w"
    and imp: "TLSMode cfg = TLSImplicit \<Longrightarrow> is_tls c"
  shows "wp (greetAndLogIn net cfg) (\<lambda>_. safely S) (\<lambda>_. safely S) w"
  unfolding greetAndLogIn_def wp_seq [of "readResponse net"]
proof (rule wp_mono [OF readResponse_quiet [OF c]], goal_cases)
  case (1 r w')
  then have s: "safely S w'" and c': "controlConn (pconn w') = Some c" and k: "config (pconn w') = cfg"
    using c cfg safe by (auto simp: safely_def)
  have feat: "wp (fetchFeatures net) (\<lambda>_. safely S) (\<lambda>_. safely S) u" if "secure S u" for u
    by (rule wp_mono [OF keeps_wp [OF secure_fetchFeatures that]]) (simp_all add: secure_def)
  have "wp (if TLSConfig cfg \<noteq> None \<and> TLSMode cfg = TLSExplicit then logInTLS net else logIn net)
      (\<lambda>r w'. safely S w' \<and> (r = None \<longrightarrow> secure S w')) (\<lambda>_. safely S) w'"
  proof (cases "TLSMode cfg")
    case TLSExplicit
    with logInTLS_sends [OF c' _ s] tls cfg k show ?thesis by simp
  next
    case TLSImplicit
    with c' s imp have "secure S w'" by (auto simp: secure_def)
    from keeps_wp [OF secure_logIn this, of net]
    have "wp (logIn net) (\<lambda>r w'. safely S w' \<and> (r = None \<longrightarrow> secure S w')) (\<lambda>_. safely S) w'"
      by (rule wp_mono) (simp_all add: secure_def)
    with TLSImplicit show ?thesis by simp
  qed
  then show ?case
    by (cases r; cases "snd (snd r)")
      (auto simp: wp_ret wp_if wp_seq s feat split: option.split elim!: wp_mono)
qed simp

lemma openSession_sends:
  assumes "TLSConfig cfg \<noteq> None" "config (pconn w) = cfg" "sent_on (hist w) = S"
  shows "wp (openSession net cfg a) (\<lambda>_. safely S) (\<lambda>_. safely S) w"
  unfolding openSession_def wp_seq
proof (rule wp_mono [OF connectControl_sends], goal_cases)
  case (1 r w')
  then have s: "safely S w'" "config (pconn w') = cfg" using assms(2,3) by (auto simp: safely_def)
  show ?case
  proof (cases r)
    case (Inr c)
    have "wp (greetAndLogIn net cfg) (\<lambda>_. safely S) (\<lambda>_. safely S)
        (w'\<lparr>pconn := (pconn w')\<lparr>controlConn := Some c\<rparr>\<rparr>)"
      by (rule greetAndLogIn_sends) (use 1 Inr s assms(1) in \<open>auto simp: safely_def\<close>)
    with Inr show ?thesis by (simp add: wp_seq setControlConn_def wp_updPconn)
  qed (use s in \<open>simp add: wp_ret\<close>)
qed simp

lemma close_quiet: "wp (close net) (\<lambda>_ w'. sent_on (hist w') = sent_on (hist w)) never w"
  by (auto simp: close_def wp_simps Let_def split: option.split)

text \<open>C11. With a \<open>TLSConfig\<close>, in either mode, everything that opening a connection sends to the server
  goes through TLS, but for the one command \<^verbatim>\<open>AUTH TLS\<close> that asks for it: neither the user name nor the
  password crosses the network in the clear, whatever the server answers.\<close>

theorem openConn_tls_protects:
  assumes "TLSConfig (clConfig c) \<noteq> None"
  shows "\<exists>r c' new. openConn net i h c = Ret r c' \<and> sent_on (chist c') = sent_on (chist c) @ new \<and>
    (\<forall>(d, bytes) \<in> set new. is_tls d \<or> bytes = ''AUTH TLS'' @ crlf)"
proof -
  let ?S = "sent_on (chist c)" and ?r = "nextRef c"
  have clos: "wp (onConn ?r (close net)) (\<lambda>_ c'. safely ?S \<lparr>pconn = emptyConn, hist = chist c'\<rparr>) (\<lambda>_ _. True) u"
    if "safely ?S \<lparr>pconn = emptyConn, hist = chist u\<rparr>" for u
    unfolding wp_onConn by (rule wp_mono [OF close_quiet]) (use that in \<open>simp_all add: safely_def\<close>)
  have "wp (openSession net (clConfig c) h) (\<lambda>_. safely ?S) (\<lambda>_. safely ?S)
      \<lparr>pconn = newConn c i h, hist = chist c\<rparr>"
    using assms by (intro openSession_sends) (simp_all add: newConn_def)
  then have "wp (openConn net i h) (\<lambda>_ c'. safely ?S \<lparr>pconn = emptyConn, hist = chist c'\<rparr>) (\<lambda>_ _. True) c"
    unfolding openConn_def wp_seq wp_gets wp_let wp_modify wp_onConn [of _ "openSession _ _ _"]
    by (simp, elim wp_mono)
      (auto simp: wp_seq wp_gets wp_modify wp_ret wp_if safely_def split: option.split
        intro!: wp_mono [OF clos])
  with openConn_contract [of net i h c] show ?thesis
    by (auto simp: wp_def safely_def protected_def list_all_iff split: out.splits)
qed

definition sampleTLSClient :: client where
  "sampleTLSClient = newClient (sampleConfig\<lparr>TLSConfig :=
     Some \<lparr>ServerName = [], ClientSessionCache = None, InsecureSkipVerify = False\<rparr>\<rparr>) [''10.0.0.2:21''] []"

theorem openConn_tls_protects_witness:
  "\<exists>r c' new. openConn (scripted (\<lambda>_. [''234 go'']) []) 1 ''10.0.0.2:21'' sampleTLSClient = Ret r c' \<and>
    sent_on (chist c') = sent_on (chist sampleTLSClient) @ new \<and>
    (\<forall>(d, bytes) \<in> set new. is_tls d \<or> bytes = ''AUTH TLS'' @ crlf)"
  by (rule openConn_tls_protects)
    (simp add: sampleTLSClient_def newClient_def defaultConfig_def sampleConfig_def)

section \<open>The log\<close>

text \<open>
  The entries that opening a connection may add to the log. The set is determined by the user name, the address, the canned responses of the
  configuration and what the environment answers; the password is not among them. The commands are logged as they are
  except for the masked one; the texts of replies and the errors of the socket are logged as they come.
\<close>

inductive openEntry :: "net \<Rightarrow> string \<Rightarrow> string \<Rightarrow> (string \<rightharpoonup> stubResponse) \<Rightarrow> string \<times> goarg list \<Rightarrow> bool"
  for net user addr stubs where
  connecting: "f \<in> {''opening control connection to %s'', ''opening TLS control connection to %s''} \<Longrightarrow>
    openEntry net user addr stubs (f, [AStr addr])"
| sending: "cmd \<in> {''USER '' @ user, ''PASS ******'', ''AUTH TLS'', ''PBSZ 0'', ''PROT P'', ''FEAT''} \<Longrightarrow>
    openEntry net user addr stubs (''sending command %s'', [AStr cmd])"
| write_failed: "cmd \<in> {''USER '' @ user, ''PASS ******'', ''AUTH TLS'', ''PBSZ 0'', ''PROT P'', ''FEAT''} \<Longrightarrow>
    net_write net h s bytes = Some e \<Longrightarrow>
    openEntry net user addr stubs (''error sending command \"%s\": %s'', [AStr cmd, AErr e])"
| read_failed: "net_lines net h s = (ls, eof) \<Longrightarrow> responseOf ls eof = ((code, msg, Some e), n) \<Longrightarrow>
    openEntry net user addr stubs (''error reading response: %s'', [AErr e])"
| answered: "net_lines net h s = (ls, eof) \<Longrightarrow> responseOf ls eof = ((code, msg, None), n) \<Longrightarrow>
    f \<in> {''got %d-%s'', ''server doesn't support FEAT: %d-%s''} \<Longrightarrow>
    openEntry net user addr stubs (f, [AInt code, AStr msg])"
| canned: "stubs cmd = Some (code, msg) \<Longrightarrow>
    f \<in> {''got stub response %d-%s'', ''server doesn't support FEAT: %d-%s''} \<Longrightarrow>
    openEntry net user addr stubs (f, [AInt code, AStr msg])"
| fixed: "f \<in> {''closing'', ''successfully upgraded to TLS''} \<Longrightarrow> openEntry net user addr stubs (f, [])"

text \<open>What was logged since \<open>S\<close> are entries that \<open>E\<close> allows.\<close>

definition logs :: "(string \<times> goarg list \<Rightarrow> bool) \<Rightarrow> (string \<times> goarg list) list \<Rightarrow> history \<Rightarrow> bool" where
  "logs E S h \<longleftrightarrow> (\<exists>new. logged h = S @ new \<and> list_all E new)"

lemma logs_start [simp]: "logs E (logged h) h"
  by (simp add: logs_def)

lemma logs_silent [simp]:
  "logs E S (EvSend c b r # h) = logs E S h" "logs E S (EvRecv s n # h) = logs E S h"
  "logs E S (EvReadDeadline s t # h) = logs E S h" "logs E S (EvWriteDeadline s t # h) = logs E S h"
  "logs E S (EvDial a d # h) = logs E S h" "logs E S (EvHandshake s d # h) = logs E S h"
  "logs E S (EvClose s d # h) = logs E S h"
  by (simp_all add: logs_def)

lemma logs_entry [intro!]: "logs E S h \<Longrightarrow> E (f, as) \<Longrightarrow> logs E S (EvLog i f as # h)"
  unfolding logs_def by (auto intro: exI [of _ "new @ [(f, as)]" for new])

abbreviation openLog :: "net \<Rightarrow> Config \<Rightarrow> string \<Rightarrow> string \<times> goarg list \<Rightarrow> bool" where
  "openLog net cfg addr \<equiv> openEntry net (User cfg) addr (stubResponses cfg)"

abbreviation logsOnly :: "net \<Rightarrow> Config \<Rightarrow> string \<Rightarrow> (string \<times> goarg list) list \<Rightarrow> pworld \<Rightarrow> bool" where
  "logsOnly net cfg addr S w \<equiv> config (pconn w) = cfg \<and> logs (openLog net cfg addr) S (hist w)"

lemma logs_debug:
  "openLog net cfg addr (f, as) \<Longrightarrow> keeps (logsOnly net cfg addr S) (debug f as)"
  by (auto simp: keeps_def wp_simps)

lemma logs_updPconn: "(\<And>pc. config (f pc) = config pc) \<Longrightarrow> keeps (logsOnly net cfg addr S) (updPconn f)"
  by (simp add: keeps_def wp_simps)

text \<open>A command under the name it is logged with, and the reply it returns, which the caller may log again.\<close>

definition openCommand :: "string \<Rightarrow> string \<Rightarrow> bool" where
  "openCommand user cmd \<longleftrightarrow> (if HasPrefix cmd ''PASS'' then ''PASS ******'' else cmd)
     \<in> {''USER '' @ user, ''PASS ******'', ''AUTH TLS'', ''PBSZ 0'', ''PROT P'', ''FEAT''}"

lemma openCommands:
  "openCommand u (Sprintf ''USER %s'' [AStr u])" "openCommand u (Sprintf ''PASS %s'' [AStr p])"
  "openCommand u (Sprintf ''AUTH TLS'' [])" "openCommand u (Sprintf ''PBSZ 0'' [])"
  "openCommand u (Sprintf ''PROT P'' [])" "openCommand u (Sprintf ''FEAT'' [])"
  by (simp_all add: Sprintf_fixed openCommand_def HasPrefix_def)

definition replied :: "net \<Rightarrow> int \<Rightarrow> string \<Rightarrow> bool" where
  "replied net code msg \<longleftrightarrow> (\<exists>h s n. responseOf (fst (net_lines net h s)) (snd (net_lines net h s)) = ((code, msg, None), n))"

lemma replied_entry:
  "replied net code msg \<Longrightarrow> f \<in> {''got %d-%s'', ''server doesn't support FEAT: %d-%s''} \<Longrightarrow>
     openLog net cfg addr (f, [AInt code, AStr msg])"
  unfolding replied_def by (auto intro: openEntry.answered [OF surjective_pairing])

lemma logs_readResponse:
  assumes "logsOnly net cfg addr S w"
  shows "wp (readResponse net) (\<lambda>(code, msg, err) w'. logsOnly net cfg addr S w' \<and> (err = None \<longrightarrow> replied net code msg))
    (\<lambda>_. logsOnly net cfg addr S) w"
proof (cases "controlConn (pconn w)")
  case (Some c)
  let ?h = "EvReadDeadline (sock c) (Timeout (config (pconn w))) # hist w"
  obtain ls eof where ls: "net_lines net ?h (sock c) = (ls, eof)" by fastforce
  obtain code msg err n where resp: "responseOf ls eof = ((code, msg, err), n)" by (metis prod_cases3 surj_pair)
  have "replied net code msg" if "err = None"
    unfolding replied_def by (rule exI [of _ ?h], rule exI [of _ "sock c"]) (use ls resp that in simp)
  moreover have "openLog net cfg addr (''error reading response: %s'', [AErr e])" if "err = Some e" for e
    by (rule openEntry.read_failed [OF ls]) (use resp that in simp)
  ultimately show ?thesis
    using assms Some by (auto simp: readResponse_def wp_simps ls resp split: option.split)
qed (use assms in \<open>simp add: readResponse_def wp_simps\<close>)

lemma logs_sendCommand:
  assumes w: "logsOnly net cfg addr S w" and cmd: "openCommand (User cfg) (Sprintf f as)"
  shows "wp (sendCommand net f as) (\<lambda>(code, msg, err) w'. logsOnly net cfg addr S w' \<and>
      (err = None \<longrightarrow> openLog net cfg addr (''server doesn't support FEAT: %d-%s'', [AInt code, AStr msg])))
    (\<lambda>_. logsOnly net cfg addr S) w"
proof -
  define cmd l where "cmd = Sprintf f as" and "l = (if HasPrefix cmd ''PASS'' then ''PASS ******'' else cmd)"
  have l: "l \<in> {''USER '' @ User cfg, ''PASS ******'', ''AUTH TLS'', ''PBSZ 0'', ''PROT P'', ''FEAT''}"
    using cmd by (simp only: openCommand_def l_def cmd_def)
  note sending = openEntry.sending [OF l, of net addr "stubResponses cfg"]
  let ?P = "\<lambda>(code, msg, err) w'. logsOnly net cfg addr S w' \<and>
      (err = None \<longrightarrow> openLog net cfg addr (''server doesn't support FEAT: %d-%s'', [AInt code, AStr msg]))"
  have read: "wp (seq (readResponse net) (\<lambda>(code, msg, err). case err of
        Some e \<Rightarrow> ret (0, [], Some e)
      | None \<Rightarrow> seq (debug ''got %d-%s'' [AInt code, AStr msg]) (\<lambda>_. ret (code, msg, None)))) ?P
      (\<lambda>_. logsOnly net cfg addr S) u" if "logsOnly net cfg addr S u" for u
    unfolding wp_seq [of "readResponse net"]
    by (rule wp_mono [OF logs_readResponse [OF that]])
      (auto simp: wp_simps replied_entry split: option.split)
  have stub: "openLog net cfg addr (g, [AInt code, AStr msg])"
    if "stubResponses cfg cmd = Some (code, msg)" "g \<in> {''got stub response %d-%s'', ''server doesn't support FEAT: %d-%s''}" for code msg g
    using that by (rule openEntry.canned)
  have written: "wp (io (PrintfLine net c cmd)) (\<lambda>r u'. logsOnly net cfg addr S u' \<and> (\<forall>e. r = Some e \<longrightarrow>
      openLog net cfg addr (''error sending command \"%s\": %s'', [AStr l, AErr e]))) (\<lambda>_. logsOnly net cfg addr S) u"
    if "logsOnly net cfg addr S u" for c u
    using that by (simp add: wp_simps Let_def openEntry.write_failed [OF l])
  have rest: "wp (seq (io (PrintfLine net c cmd)) (\<lambda>werr. case werr of
        Some e \<Rightarrow>
          seq (updPconn (\<lambda>pc. pc\<lparr>broken := True\<rparr>)) (\<lambda>_.
          seq (debug ''error sending command \"%s\": %s'' [AStr l, AErr e]) (\<lambda>_.
          ret (0, [], Some (tempErr (Errorf ''error writing command: %s'' [AErr e])))))
      | None \<Rightarrow> seq (readResponse net) (\<lambda>(code, msg, err). case err of
            Some e \<Rightarrow> ret (0, [], Some e)
          | None \<Rightarrow> seq (debug ''got %d-%s'' [AInt code, AStr msg]) (\<lambda>_. ret (code, msg, None))))) ?P
      (\<lambda>_. logsOnly net cfg addr S) u" if "logsOnly net cfg addr S u" for c u
    unfolding wp_seq [of "io _"]
    by (rule wp_mono [OF written [OF that]]) (use read in \<open>auto simp: wp_updPconn wp_debug wp_seq wp_ret split: option.split\<close>)
  from w have cfg: "config (pconn w) = cfg" and lg: "logs (openLog net cfg addr) S (hist w)" by simp_all
  note unfolds = cfg wp_debug wp_seq [of "debug _ _"] wp_gets wp_seq [of "gets _"] wp_ret wp_withControl
    wp_seq [of "io (SetWriteDeadline _ _)"] wp_io [of "SetWriteDeadline _ _"] wp_SetWriteDeadline
  show ?thesis
    unfolding sendCommand_def Let_def cmd_def [symmetric] l_def [symmetric]
  proof (cases "stubResponses cfg cmd"; cases "controlConn (pconn w)", goal_cases)
    case (2 c)
    let ?t = "EvWriteDeadline (sock c) (Timeout cfg)"
    show ?case
      using 2 rest [of "w\<lparr>hist := ?t # hist w\<rparr>" c] lg sending
        rest [of "w\<lparr>hist := ?t # EvLog (Some (idx (pconn w))) ''sending command %s'' [AStr l] # hist w\<rparr>" c]
      by (simp add: unfolds logs_entry)
  qed (simp_all add: unfolds stub lg logs_entry sending split: prod.split)
qed

lemma logs_keep [keeps_rules]:
  "openCommand (User cfg) (Sprintf f as) \<Longrightarrow> keeps (logsOnly net cfg addr S) (sendCommand net f as)"
  by (rule keepsI, rule wp_mono [OF logs_sendCommand]) auto

lemma logs_sendCommandExpected [keeps_rules]:
  "openCommand (User cfg) (Sprintf f as) \<Longrightarrow> keeps (logsOnly net cfg addr S) (sendCommandExpected net x f as)"
  unfolding sendCommandExpected_def by (intro keeps_rules)

lemma logs_config:
  "keeps (logsOnly net cfg addr S) (f cfg) \<Longrightarrow> keeps (logsOnly net cfg addr S) (seq (gets (\<lambda>w. config (pconn w))) f)"
  by (auto simp: keeps_def wp_seq wp_gets)

lemma logs_logIn [keeps_rules]: "keeps (logsOnly net cfg addr S) (logIn net)"
  unfolding logIn_def by (intro logs_config keeps_rules logs_updPconn openCommands) simp

lemma logs_withControl [keeps_rules]:
  "(\<And>c. keeps (logsOnly net cfg addr S) (f c)) \<Longrightarrow> keeps (logsOnly net cfg addr S) (withControl f)"
  by (auto simp: keeps_def wp_simps split: option.split)

lemma logs_logInTLS [keeps_rules]: "keeps (logsOnly net cfg addr S) (logInTLS net)"
  unfolding logInTLS_def setControlConn_def
  by (intro keeps_rules logs_updPconn logs_debug openEntry.fixed openCommands) simp_all

lemma logs_fetchFeatures [keeps_rules]: "keeps (logsOnly net cfg addr S) (fetchFeatures net)"
proof (rule keepsI)
  fix w assume w: "logsOnly net cfg addr S w"
  show "wp (fetchFeatures net) (\<lambda>_. logsOnly net cfg addr S) (\<lambda>_. logsOnly net cfg addr S) w"
    unfolding fetchFeatures_def wp_seq [of "sendCommand _ _ _"]
    by (rule wp_mono [OF logs_sendCommand [OF w openCommands(6)]])
      (auto simp: wp_ret wp_if wp_seq wp_debug wp_updPconn split: option.split)
qed

lemma logs_greetAndLogIn [keeps_rules]: "keeps (logsOnly net cfg addr S) (greetAndLogIn net cfg)"
proof (rule keepsI)
  fix w assume w: "logsOnly net cfg addr S w"
  have rest: "keeps (logsOnly net cfg addr S) (case err of Some e \<Rightarrow> ret (Some e)
      | None \<Rightarrow> if code \<noteq> replyServiceReady then ret (Some (replyErr code msg))
          else seq (if TLSConfig cfg \<noteq> None \<and> TLSMode cfg = TLSExplicit then logInTLS net else logIn net)
            (\<lambda>err. case err of Some e \<Rightarrow> ret (Some e) | None \<Rightarrow> fetchFeatures net))" for err code msg
    by (intro keeps_rules)
  show "wp (greetAndLogIn net cfg) (\<lambda>_. logsOnly net cfg addr S) (\<lambda>_. logsOnly net cfg addr S) w"
    unfolding greetAndLogIn_def wp_seq [of "readResponse net"]
  proof (rule wp_mono [OF logs_readResponse [OF w]], goal_cases)
    case (1 a w')
    obtain code msg err where a: "a = (code, msg, err)" by (cases a)
    from 1 have "logsOnly net cfg addr S w'" by (simp add: a)
    from keeps_wp [OF rest this, of code msg err] show ?case unfolding a split .
  qed
qed

lemma logs_system [keeps_rules]:
  "keeps (logs E S) (DialTimeout net nw a tmo)" "keeps (logs E S) (callDialFunc net nw a)"
  "keeps (logs E S) (Handshake net c t)" "keeps (logs E S) (closeConn net c)"
  by (simp_all add: keeps_def wp_simps Let_def)

lemma logs_io [keeps_rules]:
  "keeps (logs (openLog net cfg addr) S) m \<Longrightarrow> keeps (logsOnly net cfg addr S) (io m)"
  by (auto simp: keeps_def wp_io elim!: wp_mono)

lemma logs_connectControl [keeps_rules]: "keeps (logsOnly net cfg addr S) (connectControl net cfg addr)"
  unfolding connectControl_def dial_def DialWithDialer_def Let_def
  by (auto intro!: keeps_rules logs_debug openEntry.connecting split: option.split TLSMode.split)

lemma logs_openSession: "keeps (logsOnly net cfg addr S) (openSession net cfg addr)"
  unfolding openSession_def setControlConn_def by (intro keeps_rules logs_updPconn) simp

lemma logs_close: "keeps (logsOnly net cfg addr S) (close net)"
  unfolding close_def by (intro keeps_rules logs_debug openEntry.fixed) simp

text \<open>C31. The password is not logged when a connection is opened. Whatever happens, login included, the entries that \<open>openConn\<close> adds to the log
  belong to a set that is determined without the password: the command that carries it appears as \<^verbatim>\<open>PASS ******\<close>, and beside it
  there are the other commands, the address, and what the environment answered. A reply is logged with its text as the server sent it.\<close>

theorem password_not_logged:
  "\<exists>r c' new. openConn net i h c = Ret r c' \<and> logged (chist c') = logged (chist c) @ new \<and>
     list_all (openEntry net (User (clConfig c)) h (stubResponses (clConfig c))) new"
proof -
  let ?cfg = "clConfig c" and ?S = "logged (chist c)" and ?r = "nextRef c"
  let ?I = "\<lambda>c'. config (heap c' ?r) = ?cfg \<and> logs (openLog net ?cfg h) ?S (chist c')"
  have clos: "wp (onConn ?r (close net)) (\<lambda>_. ?I) (\<lambda>_ _. True) u" if "?I u" for u
    unfolding wp_onConn
    by (rule wp_mono [OF keeps_wp [OF logs_close [where net = net and cfg = ?cfg and addr = h and S = ?S]]]) (use that in simp_all)
  have "wp (openSession net ?cfg h) (\<lambda>_. logsOnly net ?cfg h ?S) (\<lambda>_. logsOnly net ?cfg h ?S)
      \<lparr>pconn = newConn c i h, hist = chist c\<rparr>"
    by (rule keeps_wp [OF logs_openSession]) (simp add: newConn_def)
  then have "wp (openConn net i h) (\<lambda>_. ?I) (\<lambda>_ _. True) c"
    unfolding openConn_def wp_seq wp_gets wp_let wp_modify wp_onConn [of _ "openSession _ _ _"]
    by (simp, elim wp_mono)
      (auto simp: wp_seq wp_gets wp_modify wp_ret wp_if split: option.split intro!: wp_mono [OF clos])
  with openConn_contract [of net i h c] show ?thesis
    by (auto simp: wp_def logs_def split: out.splits)
qed

end
