(* ===== verification/PoolOps.thy ===== *)
theory PoolOps
  imports PoolInv Session
begin

text \<open>
  The pool as its clients see it: \<open>getIdleConn\<close> hands out a connection nobody else holds,
  \<open>returnConn\<close> takes it back and never blocks, and the counts are right at every moment. The contract
  is stated as a locale of acquiring and releasing, with the bracket that every method of the client is
  built on, and the model's operations are an instance of it.
\<close>

section \<open>The invariant of the pool and its connections\<close>

text \<open>Every connection of the pool has a control socket, so no operation on it panics, and the
  configuration of the client.\<close>

definition conns_ok :: "nat list \<Rightarrow> client \<Rightarrow> bool" where
  "conns_ok held c \<longleftrightarrow> ActiveListenAddr (clConfig c) \<noteq> [] \<and>
     (\<forall>r \<in> set (freeConnCh c @ held). controlConn (heap c r) \<noteq> None \<and> config (heap c r) = clConfig c)"

text \<open>
  No socket is lost: apart from the sockets \<open>L\<close> that do not belong to the pool, every open socket is the
  control socket of a connection that is queued or held. In active mode a listener may be lost
  (\<open>listenActive_leaks_listener\<close>), so this is said for passive mode.
\<close>

definition ctl_socks :: "persistentConn \<Rightarrow> handle set" where
  "ctl_socks pc = (case controlConn pc of None \<Rightarrow> {} | Some c \<Rightarrow> {sock c})"

definition no_leak :: "handle set \<Rightarrow> nat list \<Rightarrow> client \<Rightarrow> bool" where
  "no_leak L held c \<longleftrightarrow> (\<not> ActiveTransfers (clConfig c) \<longrightarrow>
     live (chist c) \<subseteq> L \<union> (\<Union>r \<in> set (freeConnCh c @ held). ctl_socks (heap c r)))"

definition pool_ok :: "handle set \<Rightarrow> string list \<Rightarrow> nat list \<Rightarrow> client \<Rightarrow> bool" where
  "pool_ok L pend held c \<longleftrightarrow> pool_inv pend held c \<and> conns_ok held c \<and> hosts_ok c \<and> no_leak L held c"

lemma pool_okI:
  "pool_inv pend held c \<Longrightarrow> conns_ok held c \<Longrightarrow> hosts_ok c \<Longrightarrow> no_leak L held c \<Longrightarrow> pool_ok L pend held c"
  by (simp add: pool_ok_def)

lemma pool_okD:
  assumes "pool_ok L pend held c"
  shows pool_ok_inv: "pool_inv pend held c" and pool_ok_conns: "conns_ok held c"
    and pool_ok_hosts: "hosts_ok c" and pool_ok_leak: "no_leak L held c"
  using assms by (simp_all add: pool_ok_def)

lemma pool_inv_log [simp]: "pool_inv pend held (c\<lparr>chist := h\<rparr>) = pool_inv pend held c"
  "pool_inv pend held (c\<lparr>allCons := m\<rparr>) = pool_inv pend held c"
  "pool_inv pend held (c\<lparr>connIdx := i\<rparr>) = pool_inv pend held c"
  by (simp_all add: pool_inv_def units_def numConns_def)

lemma conns_ok_log [simp]: "conns_ok held (c\<lparr>chist := h\<rparr>) = conns_ok held c"
  "conns_ok held (c\<lparr>allCons := m\<rparr>) = conns_ok held c"
  "conns_ok held (c\<lparr>connIdx := i\<rparr>) = conns_ok held c"
  "conns_ok held (addConns hst n c) = conns_ok held c"
  by (simp_all add: conns_ok_def)

lemma hosts_ok_log [simp]: "hosts_ok (c\<lparr>chist := h\<rparr>) = hosts_ok c"
  "hosts_ok (c\<lparr>allCons := m\<rparr>) = hosts_ok c" "hosts_ok (c\<lparr>connIdx := i\<rparr>) = hosts_ok c"
  "hosts_ok (c\<lparr>freeConnCh := q\<rparr>) = hosts_ok c" "hosts_ok (addConns hst n c) = hosts_ok c"
  by (simp_all add: hosts_ok_def)

lemma no_leak_log [simp]: "no_leak L held (c\<lparr>chist := EvLog j f as # chist c\<rparr>) = no_leak L held c"
  "no_leak L held (c\<lparr>allCons := m\<rparr>) = no_leak L held c"
  "no_leak L held (c\<lparr>connIdx := i\<rparr>) = no_leak L held c"
  "no_leak L held (addConns hst n c) = no_leak L held c"
  by (simp_all add: no_leak_def)

lemma pool_ok_receive:
  "pool_ok L pend held c \<Longrightarrow> freeConnCh c = r # rest \<Longrightarrow> pool_ok L pend (r # held) (c\<lparr>freeConnCh := rest\<rparr>)"
  by (auto simp: pool_ok_def conns_ok_def no_leak_def intro: pool_receive)

lemma ctl_socks_sub: "ctl_socks pc \<subseteq> conn_socks pc"
  by (auto simp: ctl_socks_def conn_socks_def)

lemma pool_ok_drop:
  assumes ok: "pool_ok L pend (r # held) c" and h: "live h = live (chist c) - conn_socks (heap c r)"
  shows "pool_ok L pend held ((addConns (host (heap c r)) (- 1) c)\<lparr>allCons := m, chist := h\<rparr>)"
proof (rule pool_okI)
  show "pool_inv pend held ((addConns (host (heap c r)) (- 1) c)\<lparr>allCons := m, chist := h\<rparr>)"
    using pool_release [OF pool_detach [OF pool_ok_inv [OF ok]]] by simp
  show "conns_ok held ((addConns (host (heap c r)) (- 1) c)\<lparr>allCons := m, chist := h\<rparr>)"
    using pool_ok_conns [OF ok] by (simp add: conns_ok_def)
  show "no_leak L held ((addConns (host (heap c r)) (- 1) c)\<lparr>allCons := m, chist := h\<rparr>)"
    using pool_ok_leak [OF ok] h ctl_socks_sub [of "heap c r"] by (auto simp: no_leak_def)
qed (use pool_ok_hosts [OF ok] in simp)

lemma newClient_ok:
  assumes "distinct hs" "[] \<notin> set hs" "hs \<noteq> []" "live h \<subseteq> L"
  shows "pool_ok L [] [] (newClient cfg hs h)"
  using assms by (auto simp: pool_ok_def pool_inv_def conns_ok_def hosts_ok_def no_leak_def newClient_def units_def
      numConns_def defaultConfig_def)

section \<open>Operations\<close>

lemma pool_ok_log [simp]: "pool_ok L pend held (c\<lparr>chist := EvLog i f as # chist c\<rparr>) = pool_ok L pend held c"
  by (simp add: pool_ok_def)

lemma dropBroken_ok:
  assumes "pool_ok L pend (r # held) c"
  shows "wp (dropBroken net why r) (\<lambda>_ c'. pool_ok L pend held c' \<and> freeConnCh c' = freeConnCh c) never c"
proof -
  have "wp (onConn r (close net)) (\<lambda>_ c'. pool_ok L pend held c' \<and> freeConnCh c' = freeConnCh c) never
      ((addConns (host (heap u r)) (- 1) u)\<lparr>allCons := m\<rparr>)"
    if "pool_ok L pend (r # held) u" "freeConnCh u = freeConnCh c" for u m
  proof (rule wp_on_close, goal_cases)
    case (1 h')
    then show ?case using pool_ok_drop [OF that(1), of h' m] that(2) by simp
  qed
  from this [OF assms] this [of "c\<lparr>chist := EvLog None why [AInt (idx (heap c r))] # chist c\<rparr>"] assms
  show ?thesis
    by (simp add: dropBroken_def removeConn_def wp_gets wp_seq wp_modify wp_clDebug wp_ret_fun)
qed

lemma drainFree_ok:
  assumes "pool_ok L pend held c" and "length (freeConnCh c) \<le> n"
  shows "wp (drainFree net n) (\<lambda>r c'. case r of
      None \<Rightarrow> pool_ok L pend held c' \<and> freeConnCh c' = []
    | Some p \<Rightarrow> pool_ok L pend (p # held) c' \<and> \<not> broken (heap c' p)) never c"
  using assms
proof (induction n arbitrary: c)
  case 0
  then show ?case by (subst drainFree.simps) (simp add: wp_simps)
next
  case (Suc n)
  show ?case
  proof (cases "freeConnCh c")
    case Nil
    with Suc show ?thesis by (subst drainFree.simps) (simp add: wp_simps)
  next
    case (Cons r rest)
    let ?c = "c\<lparr>freeConnCh := rest\<rparr>"
    have ok: "pool_ok L pend (r # held) ?c" using Suc.prems(1) Cons by (rule pool_ok_receive)
    show ?thesis
    proof (cases "broken (heap c r)")
      case False
      with ok Cons show ?thesis
        by (subst drainFree.simps) (simp add: wp_simps pool_ok_def no_leak_def)
    next
      case True
      have "wp (dropBroken net ''#%d was ready (broken)'' r) (\<lambda>_. wp (drainFree net n) (\<lambda>r c'. case r of
          None \<Rightarrow> pool_ok L pend held c' \<and> freeConnCh c' = []
        | Some p \<Rightarrow> pool_ok L pend (p # held) c' \<and> \<not> broken (heap c' p)) never) never ?c"
        by (rule wp_mono [OF dropBroken_ok [OF ok]]) (use Suc Cons in auto)
      with True Cons show ?thesis
        by (subst drainFree.simps) (simp add: wp_seq wp_gets wp_modify)
    qed
  qed
qed

lemma reserveSlot_ok:
  assumes ok: "pool_ok L pend held c" and room: "canOpen c"
  shows "wp reserveSlot (\<lambda>(i, h) c'. pool_ok L (h # pend) held c' \<and> freeConnCh c' = freeConnCh c) never c"
proof -
  let ?c = "c\<lparr>connIdx := connIdx c + 1\<rparr>"
  let ?h = "findHost ?c (nat (connIdx ?c)) (length (hosts ?c))"
  have inv: "pool_inv pend held ?c" and hs: "hosts_ok ?c" and cn: "canOpen ?c"
    using ok room by (simp_all add: pool_ok_def canOpen_def numOpenConns_def)
  have ne: "?h \<noteq> []" by (rule findHost_total [OF inv hs cn])
  moreover from cn have "hosts ?c \<noteq> []" using pool_total [OF inv] by (auto simp: canOpen_def)
  ultimately have "?h \<in> set (hosts ?c) \<and> numConns ?c ?h < ConnectionsPerHost (clConfig ?c)"
    by (intro findHost_found [OF refl])
  then have "pool_inv (?h # pend) held (addConns ?h 1 ?c)" by (intro pool_reserve [OF inv]) simp_all
  with ne ok show ?thesis
    by (simp add: reserveSlot_def wp_simps Let_def pool_ok_def)
qed

text \<open>A successful \<open>openConn\<close> turns a reserved slot into a held connection.\<close>

lemma open_frame_ok:
  assumes ok: "pool_ok L pend held c" and f: "open_frame c c'"
  shows "pool_inv pend held c'" "conns_ok held c'" "hosts_ok c'"
    "\<And>r. r \<in> set (freeConnCh c @ held) \<Longrightarrow> heap c' r = heap c r"
proof -
  show same: "heap c' r = heap c r" if "r \<in> set (freeConnCh c @ held)" for r
    using pool_refs [OF pool_ok_inv [OF ok] that] f by (simp add: open_frame_def)
  show "pool_inv pend held c'"
    by (rule pool_inv_cong [OF pool_ok_inv [OF ok]]) (use f in \<open>auto simp: open_frame_def\<close>)
  show "conns_ok held c'"
    using pool_ok_conns [OF ok] f same by (simp add: conns_ok_def open_frame_def)
  show "hosts_ok c'" using pool_ok_hosts [OF ok] f by (simp add: hosts_ok_def open_frame_def)
qed

lemma open_failed_ok:
  assumes ok: "pool_ok L pend held c" and f: "open_frame c c'" and lv: "live (chist c') = live (chist c)"
  shows "pool_ok L pend held c'"
proof (rule pool_okI)
  show "no_leak L held c'"
    using pool_ok_leak [OF ok] open_frame_ok(4) [OF ok f] f lv by (auto simp: no_leak_def open_frame_def)
qed (use open_frame_ok [OF ok f] in simp_all)

lemma opened_conn_ok:
  assumes ok: "pool_ok L (h # pend) held c" and op: "opened_conn c i h (Inr p) c'"
  shows "pool_ok L pend (p # held) c'"
proof (rule pool_okI)
  from op have p: "p = nextRef c" "host (heap c' p) = h" "controlConn (heap c' p) \<noteq> None"
    "config (heap c' p) = clConfig c" "pdataConn (heap c' p) = None"
    and lv: "live (chist c') - conn_socks (heap c' p) = live (chist c)"
    and f: "open_frame c c'" by (auto simp: opened_conn_def)
  note fr = open_frame_ok [OF ok f]
  have "p \<notin> set (freeConnCh c' @ held)"
    using pool_refs [OF pool_ok_inv [OF ok]] f p(1) by (auto simp: open_frame_def)
  then show "pool_inv pend (p # held) c'"
    using fr(1) p f by (intro pool_attach) (simp_all add: open_frame_def)
  show "conns_ok (p # held) c'" using fr(2) p f by (simp add: conns_ok_def open_frame_def)
  show "hosts_ok c'" by (rule fr)
  have "conn_socks (heap c' p) = ctl_socks (heap c' p)" using p(5) by (simp add: conn_socks_def ctl_socks_def)
  then show "no_leak L (p # held) c'"
    using pool_ok_leak [OF ok] lv fr(4) f by (auto simp: no_leak_def open_frame_def)
qed

definition got_conn :: "handle set \<Rightarrow> string list \<Rightarrow> nat list \<Rightarrow> goerror + nat \<Rightarrow> client \<Rightarrow> bool" where
  "got_conn L pend held r c' \<longleftrightarrow> (case r of
      Inl e \<Rightarrow> is_ftpError e \<and> pool_ok L pend held c' | Inr p \<Rightarrow> pool_ok L pend (p # held) c')"

lemma openSlot_ok:
  assumes "pool_ok L pend held c" and "canOpen c"
  shows "wp (openSlot net) (got_conn L pend held) never c"
  unfolding openSlot_def wp_seq
proof (rule wp_mono [OF reserveSlot_ok [OF assms]], goal_cases)
  case (1 ih c1)
  then obtain i h where ih: "ih = (i, h)" and ok: "pool_ok L (h # pend) held c1" by (cases ih) auto
  show ?case
    unfolding ih split wp_seq [of "openConn net i h"]
  proof (rule wp_mono [OF openConn_contract], goal_cases)
    case (1 r c2)
    show ?case
    proof (cases r)
      case (Inr p)
      with 1 opened_conn_ok [OF ok] show ?thesis by (simp add: wp_ret got_conn_def)
    next
      case (Inl e)
      with 1 have e: "is_ftpError e" and "open_frame c1 c2" "live (chist c2) = live (chist c1)"
        by (simp_all add: opened_conn_def)
      then have "pool_ok L (h # pend) held c2" by (intro open_failed_ok [OF ok])
      then have "pool_ok L pend held (addConns h (- 1) c2)"
        using pool_release [of h pend held c2] by (simp add: pool_ok_def)
      with Inl e show ?thesis by (simp add: wp_simps got_conn_def pool_ok_def no_leak_def)
    qed
  qed simp
qed simp

text \<open>Waiting for ever: no connection is free and every slot is taken.\<close>

definition stuck :: "handle set \<Rightarrow> string list \<Rightarrow> nat list \<Rightarrow> client \<Rightarrow> bool" where
  "stuck L pend held c' \<longleftrightarrow> pool_ok L pend held c' \<and> freeConnCh c' = [] \<and> \<not> canOpen c'"

lemma getIdleConn_ok:
  assumes "pool_ok L pend held c"
  shows "wp (getIdleConn net) (got_conn L pend held) (\<lambda>e c'. e = Blocked \<and> stuck L pend held c') c"
  unfolding getIdleConn_def wp_seq wp_gets
proof (rule wp_mono [OF drainFree_ok [OF assms order.refl]], goal_cases)
  case (1 r c')
  show ?case
  proof (cases r)
    case None
    with 1 have c': "pool_ok L pend held c'" "freeConnCh c' = []" by simp_all
    show ?thesis
    proof (cases "canOpen c'")
      case True
      have "wp (openSlot net) (got_conn L pend held) (\<lambda>e c'. e = Blocked \<and> stuck L pend held c') c'"
        by (rule wp_mono [OF openSlot_ok [OF c'(1) True]]) simp_all
      with None True show ?thesis by (simp add: wp_seq wp_gets waitFree.simps)
    next
      case False
      with None c' show ?thesis
        by (simp add: wp_seq wp_gets waitFree.simps wp_abort_with stuck_def)
    qed
  qed (use 1 in \<open>simp add: wp_ret got_conn_def\<close>)
qed simp

lemma returnConn_ok:
  assumes "pool_ok L pend (r # held) c"
  shows "wp (returnConn r) (\<lambda>_. pool_ok L pend held) never c"
  using assms pool_return_room [OF pool_ok_inv [OF assms]] pool_return [OF pool_ok_inv [OF assms]]
  by (simp add: returnConn_def wp_simps pool_ok_def conns_ok_def no_leak_def ball_Un Un_commute)

section \<open>The interface of the pool\<close>

text \<open>
  Every method of the client has the same shape: acquire a connection, return its error if there is none,
  give the connection back when the method ends. \<open>bracketed\<close> is that shape.
\<close>

definition bracketed :: "(goerror + 'r, 's) go \<Rightarrow> ('r \<Rightarrow> (unit, 's) go) \<Rightarrow> (goerror \<Rightarrow> 'a) \<Rightarrow>
    ('r \<Rightarrow> ('a, 's) go) \<Rightarrow> ('a, 's) go" where
  "bracketed acquire release fail body =
     seq acquire (\<lambda>r. case r of Inl e \<Rightarrow> ret (fail e) | Inr p \<Rightarrow> deferred (release p) (body p))"

locale resource_pool =
  fixes inv :: "'r list \<Rightarrow> 's \<Rightarrow> bool"
    and exhausted :: "'r list \<Rightarrow> 's \<Rightarrow> bool"
    and acquire :: "(goerror + 'r, 's) go"
    and release :: "'r \<Rightarrow> (unit, 's) go"
  assumes acquire_ok: "inv held s \<Longrightarrow> wp acquire
      (\<lambda>r s'. case r of Inl e \<Rightarrow> is_ftpError e \<and> inv held s' | Inr p \<Rightarrow> inv (p # held) s')
      (\<lambda>e s'. e = Blocked \<and> exhausted held s') s"
    and release_ok: "inv (p # held) s \<Longrightarrow> wp (release p) (\<lambda>_. inv held) never s"
begin

text \<open>
  A body that keeps the connection it was given makes a method that keeps the pool. The method blocks only
  when the pool is exhausted, and runs out of fuel only if the body may.
\<close>

lemma bracket_returns:
  assumes inv: "inv held s"
    and body: "\<And>p s. inv (p # held) s \<Longrightarrow>
      wp (body p) (\<lambda>a s'. inv (p # held) s' \<and> Q a) (\<lambda>e _. F \<and> e = OutOfFuel) s"
    and fail: "\<And>e. is_ftpError e \<Longrightarrow> Q (fail e)"
  shows "wp (bracketed acquire release fail body) (\<lambda>a s'. inv held s' \<and> Q a)
    (\<lambda>e s'. e = Blocked \<and> exhausted held s' \<or> F \<and> e = OutOfFuel) s"
  unfolding bracketed_def wp_seq
proof (rule wp_mono [OF acquire_ok [OF inv]], goal_cases)
  case (1 r s')
  show ?case
  proof (cases r)
    case (Inr p)
    with 1 have "inv (p # held) s'" by simp
    then have "wp (deferred (release p) (body p)) (\<lambda>a s'. inv held s' \<and> Q a) (\<lambda>e _. F \<and> e = OutOfFuel) s'"
      unfolding wp_deferred by (intro wp_mono [OF body]) (auto intro!: wp_mono [OF release_ok])
    then have "wp (deferred (release p) (body p)) (\<lambda>a s'. inv held s' \<and> Q a)
        (\<lambda>e s'. e = Blocked \<and> exhausted held s' \<or> F \<and> e = OutOfFuel) s'" by (rule wp_mono) simp_all
    with Inr show ?thesis by simp
  qed (use 1 fail in \<open>simp add: wp_ret\<close>)
qed simp

end

interpretation pool: resource_pool "pool_ok L pend" "stuck L pend" "getIdleConn net" returnConn for L pend net
proof unfold_locales
  show "wp (getIdleConn net) (\<lambda>r s'. case r of Inl e \<Rightarrow> is_ftpError e \<and> pool_ok L pend held s'
      | Inr p \<Rightarrow> pool_ok L pend (p # held) s') (\<lambda>e s'. e = Blocked \<and> stuck L pend held s') s"
    if "pool_ok L pend held s" for held s
    by (rule wp_mono [OF getIdleConn_ok [OF that]]) (simp_all add: got_conn_def)
qed (rule returnConn_ok)

section \<open>Properties\<close>

text \<open>The loop over the free connections, exactly: it stops at the first that is not broken.\<close>

definition same_slots :: "client \<Rightarrow> client \<Rightarrow> bool" where
  "same_slots c c' \<longleftrightarrow> connIdx c' = connIdx c \<and> nextRef c' = nextRef c \<and> heap c' = heap c \<and> hosts c' = hosts c \<and>
     clConfig c' = clConfig c"

lemma dropBroken_exact:
  "wp (dropBroken net why r) (\<lambda>_ c'. same_slots c c' \<and> freeConnCh c' = freeConnCh c) never c"
proof -
  have clos: "wp (onConn r (close net)) (\<lambda>_ c'. same_slots c c' \<and> freeConnCh c' = freeConnCh c) never u"
    if "same_slots c u" "freeConnCh u = freeConnCh c" for u
    by (rule wp_on_close) (use that in \<open>simp add: same_slots_def\<close>)
  have "same_slots c c" by (simp add: same_slots_def)
  then show ?thesis
    by (simp add: dropBroken_def removeConn_def wp_gets wp_seq wp_modify wp_clDebug wp_ret_fun)
      (intro conjI impI clos; simp add: same_slots_def)
qed

lemma drainFree_empty: "freeConnCh c = [] \<Longrightarrow> drainFree net n c = Ret None c"
  by (subst drainFree.simps) (simp add: seq_def gets_def ret_def)

lemma drainFree_exact:
  "length (freeConnCh c) \<le> n \<Longrightarrow>
     wp (drainFree net n) (\<lambda>r c'. r = find (\<lambda>r. \<not> broken (heap c r)) (freeConnCh c) \<and> same_slots c c') never c"
proof (induction n arbitrary: c)
  case 0
  then show ?case by (subst drainFree.simps) (simp add: wp_simps same_slots_def)
next
  case (Suc n)
  show ?case
  proof (cases "freeConnCh c")
    case Nil
    then show ?thesis by (subst drainFree.simps) (simp add: wp_simps same_slots_def)
  next
    case (Cons r rest)
    show ?thesis
    proof (cases "broken (heap c r)")
      case False
      with Cons show ?thesis by (subst drainFree.simps) (simp add: wp_simps same_slots_def)
    next
      case True
      have "wp (dropBroken net ''#%d was ready (broken)'' r) (\<lambda>_. wp (drainFree net n)
          (\<lambda>r c'. r = find (\<lambda>r. \<not> broken (heap c r)) (freeConnCh c) \<and> same_slots c c') never) never
          (c\<lparr>freeConnCh := rest\<rparr>)"
      proof (rule wp_mono [OF dropBroken_exact], goal_cases)
        case (1 u c1)
        then have "length (freeConnCh c1) \<le> n" using Suc.prems Cons by simp
        from Suc.IH [OF this] show ?case
          by (rule wp_mono) (use 1 Cons True in \<open>simp_all add: same_slots_def\<close>)
      qed simp
      with True Cons show ?thesis
        by (subst drainFree.simps) (simp add: wp_seq wp_gets wp_modify)
    qed
  qed
qed

text \<open>Opening a connection for a slot uses one index, and hands out a connection that did not exist before.\<close>

lemma openSlot_exact:
  assumes "pool_ok L pend held c" "canOpen c"
  shows "wp (openSlot net) (\<lambda>r c'. connIdx c' = connIdx c + 1 \<and> (\<forall>p. r = Inr p \<longrightarrow> p = nextRef c)) never c"
proof -
  have reserve: "wp reserveSlot (\<lambda>_ c'. connIdx c' = connIdx c + 1 \<and> nextRef c' = nextRef c) (\<lambda>_ _. True) c"
    by (simp add: reserveSlot_def wp_simps Let_def)
  have "wp (openSlot net) (\<lambda>r c'. connIdx c' = connIdx c + 1 \<and> (\<forall>p. r = Inr p \<longrightarrow> p = nextRef c)) (\<lambda>_ _. True) c"
    unfolding openSlot_def wp_seq [of reserveSlot]
  proof (rule wp_mono [OF reserve], goal_cases)
    case (1 ih c1)
    obtain i h where ih: "ih = (i, h)" by (cases ih)
    show ?case
      unfolding ih split wp_seq [of "openConn net i h"]
    proof (rule wp_mono [OF openConn_contract], goal_cases)
      case (1 r c2)
      with \<open>connIdx c1 = connIdx c + 1 \<and> nextRef c1 = nextRef c\<close> show ?case
        by (cases r) (auto simp: wp_simps opened_conn_def open_frame_def)
    qed simp
  qed simp
  with openSlot_ok [OF assms, of net] show ?thesis by (auto simp: wp_def split: out.splits)
qed

text \<open>When a free connection was broken its slot is free again.\<close>

lemma room_after_drain:
  assumes "pool_ok L pend held c" "pool_ok L pend held c'" "freeConnCh c' = []" "freeConnCh c \<noteq> []" "same_slots c c'"
  shows "canOpen c'"
proof -
  have "numOpenConns c' < numOpenConns c"
    using pool_total [OF pool_ok_inv [OF assms(1)]] pool_total [OF pool_ok_inv [OF assms(2)]] assms(3,4) by simp
  also have "\<dots> \<le> chanCap c" by (rule pool_capacity [OF pool_ok_inv [OF assms(1)]])
  also have "chanCap c = chanCap c'" using assms(5) by (simp add: same_slots_def chanCap_def)
  finally show ?thesis by (simp add: canOpen_def chanCap_def)
qed

text \<open>C1. What \<open>getIdleConn\<close> does, in every case, for a client with distinct non-empty hosts whose pool is in order. If a free
  connection is not broken, the first such is handed out and no connection is opened. If there is none, then it blocks when the channel is empty and every
  slot of every host is taken, and otherwise it tries once to open a connection, under the next index, and returns it or an
  \<open>ftpError\<close>. It never panics. What it hands out is held by nobody else and not queued, and afterwards the pool is in
  order again: the counts agree with the connections that exist and no host has more than \<open>ConnectionsPerHost\<close>.\<close>

theorem getIdleConn_exclusive:
  assumes pool: "pool_inv pend held c" "conns_ok held c" "no_leak L held c"
    and hosts: "distinct (hosts c)" "[] \<notin> set (hosts c)" "hosts c \<noteq> []" "0 < ConnectionsPerHost (clConfig c)"
  shows "case find (\<lambda>r. \<not> broken (heap c r)) (freeConnCh c) of
      Some p \<Rightarrow> \<exists>c'. getIdleConn net c = Ret (Inr p) c' \<and> connIdx c' = connIdx c \<and>
        p \<notin> set held \<union> set (freeConnCh c') \<and> \<not> broken (heap c' p) \<and> pool_ok L pend (p # held) c'
    | None \<Rightarrow>
        if freeConnCh c = [] \<and> numOpenConns c = chanCap c then getIdleConn net c = Abn Blocked c
        else \<exists>r c'. getIdleConn net c = Ret r c' \<and> connIdx c' = connIdx c + 1 \<and>
          (case r of
             Inl e \<Rightarrow> is_ftpError e \<and> pool_ok L pend held c'
           | Inr p \<Rightarrow> p = nextRef c \<and> p \<notin> set held \<union> set (freeConnCh c') \<and> pool_ok L pend (p # held) c')"
proof -
  have ok: "pool_ok L pend held c" using assms by (simp add: pool_ok_def hosts_ok_def)
  have alone: "p \<notin> set held \<union> set (freeConnCh c')" if "pool_ok L pend (p # held) c'" for p c'
    using pool_distinct [OF pool_ok_inv [OF that]] by auto
  let ?n = "length (freeConnCh c)"
  obtain r c1 where drain: "drainFree net ?n c = Ret r c1"
    and r: "r = find (\<lambda>r. \<not> broken (heap c r)) (freeConnCh c)" and same: "same_slots c c1"
    and got: "case r of None \<Rightarrow> pool_ok L pend held c1 \<and> freeConnCh c1 = []
      | Some p \<Rightarrow> pool_ok L pend (p # held) c1 \<and> \<not> broken (heap c1 p)"
    using wp_never_returns [OF drainFree_exact [where c = c and net = net, OF order.refl]] drainFree_ok [OF ok order.refl, of net]
    by (fastforce simp: wp_def)
  show ?thesis
  proof (cases r)
    case (Some p)
    have "getIdleConn net c = Ret (Inr p) c1" by (simp add: getIdleConn_def seq_def gets_def drain Some ret_def)
    with Some r got alone same show ?thesis by (auto simp: same_slots_def split: option.split)
  next
    case None
    with got have c1: "pool_ok L pend held c1" "freeConnCh c1 = []" by simp_all
    have idle: "getIdleConn net c = waitFree net ?n c1" by (simp add: getIdleConn_def seq_def gets_def drain None)
    show ?thesis
    proof (cases "freeConnCh c = [] \<and> numOpenConns c = chanCap c")
      case True
      with drain have "c1 = c" by (simp add: drainFree_empty)
      with True have "getIdleConn net c = Abn Blocked c"
        unfolding idle by (subst waitFree.simps) (simp add: seq_def gets_def abort_with_def canOpen_def chanCap_def)
      with True None r show ?thesis by simp
    next
      case False
      have room: "canOpen c1"
      proof (cases "freeConnCh c = []")
        case True
        with drain have "c1 = c" by (simp add: drainFree_empty)
        with True False pool_capacity [OF pool_ok_inv [OF ok]] show ?thesis by (simp add: canOpen_def chanCap_def)
      qed (rule room_after_drain [OF ok c1 _ same])
      have "getIdleConn net c = openSlot net c1"
        unfolding idle by (subst waitFree.simps) (simp add: seq_def gets_def room)
      moreover obtain r' c' where "openSlot net c1 = Ret r' c'" "connIdx c' = connIdx c + 1"
        "\<forall>p. r' = Inr p \<longrightarrow> p = nextRef c" "got_conn L pend held r' c'"
        using wp_never_returns [OF openSlot_exact [OF c1(1) room, of net]] wp_RetD [OF openSlot_ok [OF c1(1) room, of net]] same
        by (fastforce simp: same_slots_def)
      ultimately show ?thesis
        using False None r alone unfolding got_conn_def by (auto split: sum.splits)
    qed
  qed
qed

definition sampleClient :: client where
  "sampleClient = newClient sampleConfig [''10.0.0.2:21'', ''10.0.0.3:21''] []"

theorem getIdleConn_exclusive_witness:
  "\<exists>r c'. getIdleConn (scripted (\<lambda>_. [''220 ready'']) []) sampleClient = Ret r c' \<and> connIdx c' = 1 \<and>
     (case r of Inl e \<Rightarrow> is_ftpError e \<and> pool_ok {} [] [] c'
      | Inr p \<Rightarrow> p = 0 \<and> p \<notin> set [] \<union> set (freeConnCh c') \<and> pool_ok {} [] [p] c')"
proof -
  let ?c = sampleClient
  have ok: "pool_ok {} [] [] ?c" by (simp add: sampleClient_def newClient_ok live_def)
  have hosts: "distinct (hosts ?c)" "[] \<notin> set (hosts ?c)" "hosts ?c \<noteq> []" "0 < ConnectionsPerHost (clConfig ?c)"
    using pool_ok_hosts [OF ok] by (simp_all add: hosts_ok_def)
  have c: "freeConnCh ?c = []" "numOpenConns ?c = 0" "chanCap ?c = 4" "connIdx ?c = 0" "nextRef ?c = 0"
    by (simp_all add: sampleClient_def newClient_def numOpenConns_def chanCap_def defaultConfig_def sampleConfig_def zeroConfig_def)
  from getIdleConn_exclusive [OF pool_ok_inv [OF ok] pool_ok_conns [OF ok] pool_ok_leak [OF ok] hosts,
      of "scripted (\<lambda>_. [''220 ready'']) []"]
  show ?thesis unfolding c by simp
qed

text \<open>Giving a connection back never blocks: there is always room in the channel for a connection
  that is held, because the channel holds as many as all hosts together may have.\<close>

theorem returnConn_never_blocks:
  assumes "pool_ok L pend (r # held) c"
  shows "\<exists>c'. returnConn r c = Ret () c' \<and> pool_ok L pend held c' \<and> freeConnCh c' = freeConnCh c @ [r]"
  using wp_never_returns [OF returnConn_ok [OF assms]]
  by (auto simp: returnConn_def wp_def seq_def gets_def modify_def abort_with_def split: if_splits)

theorem returnConn_never_blocks_witness:
  "\<exists>c'. returnConn 0 (addConns ''10.0.0.2:21'' 1 (sampleClient\<lparr>nextRef := 1,
        heap := (\<lambda>_. sampleConn)\<rparr>)) = Ret () c' \<and>
     pool_ok {} [] [] c' \<and> freeConnCh c' = [] @ [0]"
proof -
  let ?c = "addConns ''10.0.0.2:21'' 1 (sampleClient\<lparr>nextRef := 1, heap := (\<lambda>_. sampleConn)\<rparr>)"
  have "pool_ok {} [] [0] ?c"
    by (auto simp: pool_ok_def pool_inv_def conns_ok_def hosts_ok_def no_leak_def live_def addConns_def
        numConns_def units_def sampleClient_def newClient_def defaultConfig_def sampleConfig_def zeroConfig_def sampleConn_def)
  from returnConn_never_blocks [OF this] show ?thesis
    by (simp add: addConns_def sampleClient_def newClient_def)
qed

section \<open>A host named twice\<close>

text \<open>The capacity counts a host as often as it is named, the limit counts it once.\<close>

lemma findHost_full:
  assumes "\<And>h. h \<in> set (hosts c) \<Longrightarrow> ConnectionsPerHost (clConfig c) \<le> numConns c h" "hosts c \<noteq> []"
  shows "findHost c i k = []"
  using assms(2)
proof (induction k arbitrary: i)
  case (Suc k)
  from Suc.prems have "hosts c ! (i mod length (hosts c)) \<in> set (hosts c)" by simp
  with assms(1) have "\<not> numConns c (hosts c ! (i mod length (hosts c))) < ConnectionsPerHost (clConfig c)"
    by (simp add: not_less)
  with Suc show ?case by (simp add: Let_def)
qed simp

text \<open>C34. When a host is named more than once, \<open>getIdleConn\<close> reaches the \<^verbatim>\<open>panic\<close> that the code calls
  impossible: once every host has \<open>ConnectionsPerHost\<close> connections and none is free, the next call panics
  instead of waiting.\<close>

theorem getIdleConn_panics_duplicate_hosts:
  assumes inv: "pool_inv pend held c" and dup: "\<not> distinct (hosts c)"
    and pos: "0 < ConnectionsPerHost (clConfig c)" and free: "freeConnCh c = []"
    and full: "\<And>h. h \<in> set (hosts c) \<Longrightarrow> numConns c h = ConnectionsPerHost (clConfig c)"
  shows "\<exists>c'. getIdleConn net c = Abn (Panicked ''this shouldn't be possible'') c'"
proof -
  let ?c = "c\<lparr>connIdx := connIdx c + 1\<rparr>"
  from dup have ne: "hosts ?c \<noteq> []" by auto
  have "numOpenConns c = int (card (set (hosts c))) * ConnectionsPerHost (clConfig c)"
    using pool_sum [OF inv] full by simp
  also have "\<dots> < int (length (hosts c)) * ConnectionsPerHost (clConfig c)"
    using dup pos card_length [of "hosts c"] card_distinct [of "hosts c"] by (auto simp: less_le)
  finally have room: "canOpen c" by (simp add: canOpen_def)
  have full': "ConnectionsPerHost (clConfig ?c) \<le> numConns ?c h" if "h \<in> set (hosts ?c)" for h
    using full [of h] that by (simp add: numConns_def)
  have "wp reserveSlot (\<lambda>_ _. False) (\<lambda>e _. e = Panicked ''this shouldn't be possible'') c"
    using findHost_full [of ?c, OF full' ne] by (simp add: reserveSlot_def wp_simps Let_def)
  then have "wp (openSlot net) (\<lambda>_ _. False) (\<lambda>e _. e = Panicked ''this shouldn't be possible'') c"
    unfolding openSlot_def wp_seq by (rule wp_mono) simp_all
  then have "wp (getIdleConn net) (\<lambda>_ _. False) (\<lambda>e _. e = Panicked ''this shouldn't be possible'') c"
    using free room by (simp add: getIdleConn_def drainFree.simps waitFree.simps wp_seq wp_gets wp_ret)
  then show ?thesis by (auto simp: wp_def split: out.splits)
qed

theorem getIdleConn_panics_duplicate_hosts_witness:
  "\<exists>c'. getIdleConn (scripted (\<lambda>_. []) []) (addConns ''ftp:21'' 5
        ((newClient zeroConfig [''ftp:21'', ''ftp:21''] [])\<lparr>heap := (\<lambda>_. sampleConn\<lparr>host := ''ftp:21''\<rparr>), nextRef := 5\<rparr>)) =
      Abn (Panicked ''this shouldn't be possible'') c'"
  by (rule getIdleConn_panics_duplicate_hosts [of "[]" "[0, 1, 2, 3, 4]"])
    (auto simp: pool_inv_def addConns_def numConns_def units_def newClient_def defaultConfig_def zeroConfig_def)

section \<open>Closing the client\<close>

lemma removeAll_ok:
  "wp (removeAll net rs) (\<lambda>_ c'. heap c' = heap c \<and> closed c' = closed c \<and>
     live (chist c') = live (chist c) - (\<Union>r \<in> set rs. conn_socks (heap c r)) \<and>
     allCons c' = (\<lambda>i. if i \<in> (\<lambda>r. idx (heap c r)) ` set rs then None else allCons c i)) never c"
proof (induction rs arbitrary: c)
  case (Cons r rs)
  let ?c = "\<lambda>h. c\<lparr>allCons := (allCons c)(idx (heap c r) := None), chist := h\<rparr>"
  have rest: "wp (removeAll net rs) (\<lambda>_ c'. heap c' = heap c \<and> closed c' = closed c \<and>
      live (chist c') = live (chist c) - (\<Union>r \<in> set (r # rs). conn_socks (heap c r)) \<and>
      allCons c' = (\<lambda>i. if i \<in> (\<lambda>r. idx (heap c r)) ` set (r # rs) then None else allCons c i)) never (?c h)"
    if "live h = live (chist c) - conn_socks (heap c r)" for h
    by (rule wp_mono [OF Cons.IH]) (use that in \<open>auto simp: fun_eq_iff\<close>)
  show ?case
    unfolding removeAll.simps removeConn_def wp_seq wp_modify wp_ret by (rule wp_on_close) (use rest in simp)
qed (simp add: wp_simps)

text \<open>C32. \<open>Close\<close> closes the sockets of every connection of the client and forgets the connections, in
  whatever order the map is traversed. Closing twice is an error that changes nothing, and after \<open>Close\<close> no
  connection can be opened.\<close>

theorem Close_closes_all:
  assumes order: "set (order (ran (allCons c))) = ran (allCons c)" and open_client: "\<not> closed c"
    and idxs: "\<And>i r. allCons c i = Some r \<Longrightarrow> idx (heap c r) = i"
  shows "\<exists>c'. Close net order c = Ret None c' \<and> closed c' \<and> allCons c' = Map.empty \<and>
    live (chist c') = live (chist c) - (\<Union>r \<in> ran (allCons c). conn_socks (heap c r)) \<and>
    Close net order c' = Ret (Some (wrapErr (Errorf ''already closed'' []))) c' \<and>
    (\<exists>e c''. openConn net i h c' = Ret (Inl e) c'' \<and> is_ftpError e)"
proof -
  let ?c = "c\<lparr>closed := True\<rparr>"
  have "wp (Close net order) (\<lambda>e c'. e = None \<and> heap c' = heap c \<and> closed c' \<and>
     live (chist c') = live (chist c) - (\<Union>r \<in> ran (allCons c). conn_socks (heap c r)) \<and>
     allCons c' = (\<lambda>i. if i \<in> (\<lambda>r. idx (heap c r)) ` ran (allCons c) then None else allCons c i)) never c"
    unfolding Close_def wp_seq wp_gets wp_if wp_modify wp_ret using open_client
    by (simp, intro wp_mono [OF removeAll_ok]) (simp_all add: order fun_eq_iff)
  from wp_never_returns [OF this] obtain c' where c': "Close net order c = Ret None c'" "closed c'"
    "live (chist c') = live (chist c) - (\<Union>r \<in> ran (allCons c). conn_socks (heap c r))"
    "allCons c' = (\<lambda>i. if i \<in> (\<lambda>r. idx (heap c r)) ` ran (allCons c) then None else allCons c i)" by auto
  have "allCons c' = Map.empty"
    unfolding c'(4) using idxs by (auto simp: fun_eq_iff ran_def image_iff) (metis not_None_eq)
  moreover have "Close net order c' = Ret (Some (wrapErr (Errorf ''already closed'' []))) c'"
    using c'(2) by (simp add: Close_def seq_def gets_def ret_def)
  moreover have "\<exists>e c''. openConn net i h c' = Ret (Inl e) c'' \<and> is_ftpError e"
  proof -
    obtain r c'' where r: "openConn net i h c' = Ret r c''" "opened_conn c' i h r c''"
      using wp_never_returns [OF openConn_contract [of net i h c']] by blast
    with c'(2) show ?thesis by (cases r) (auto simp: opened_conn_def)
  qed
  ultimately show ?thesis using c' by blast
qed

theorem Close_closes_all_witness:
  "\<exists>c'. Close (scripted (\<lambda>_. []) []) (\<lambda>S. if S = {} then [] else [0])
       (sampleClient\<lparr>allCons := [1 \<mapsto> 0], heap := (\<lambda>_. sampleConn)\<rparr>) = Ret None c' \<and>
    closed c' \<and> allCons c' = Map.empty \<and>
    live (chist c') = live [] - (\<Union>r \<in> {0::nat}. conn_socks sampleConn) \<and>
    Close (scripted (\<lambda>_. []) []) (\<lambda>S. if S = {} then [] else [0]) c' =
      Ret (Some (wrapErr (Errorf ''already closed'' []))) c' \<and>
    (\<exists>e c''. openConn (scripted (\<lambda>_. []) []) 2 ''ftp:21'' c' = Ret (Inl e) c'' \<and> is_ftpError e)"
proof -
  let ?c = "sampleClient\<lparr>allCons := [1 \<mapsto> 0], heap := (\<lambda>_. sampleConn)\<rparr>"
  have ran: "ran (allCons ?c) = {0}" by (simp add: ran_def)
  let ?order = "\<lambda>S. if S = {} then [] else [0 :: nat]"
  have "set (?order (ran (allCons ?c))) = ran (allCons ?c)" "\<not> closed ?c"
    "\<And>i r. allCons ?c i = Some r \<Longrightarrow> idx (heap ?c r) = i"
    unfolding ran by (simp_all add: sampleClient_def newClient_def sampleConn_def split: if_splits)
  from Close_closes_all [of ?order ?c, OF this, of "scripted (\<lambda>_. []) []" 2 "''ftp:21''"] show ?thesis
    unfolding ran by (simp add: sampleClient_def newClient_def)
qed

end
