(* ===== verification/IPAddr.thy ===== *)
theory IPAddr
  imports NetAddr "HOL-Library.Word"
begin

text \<open>
  IP addresses of Go's package \<open>net\<close>: \<open>ParseIP\<close>, \<open>To4\<close> and \<open>String\<close>. An \<open>IP\<close> is
  its bytes: sixteen as \<open>ParseIP\<close> returns it, with an IPv4 address in the IPv4-mapped form, and four for an
  IPv4 address as a name server gives it.
\<close>

type_synonym IP = "8 word list"

definition v4InV6Prefix :: IP where
  "v4InV6Prefix = replicate 10 0 @ [0xFF, 0xFF]"

section \<open>Parsing\<close>

text \<open>A field of a dotted address: decimal digits, at most 255, no leading zero.\<close>

definition ipv4Field :: "string \<Rightarrow> 8 word option" where
  "ipv4Field s =
     (if s = [] \<or> \<not> list_all is_digit s \<or> (1 < length s \<and> hd s = CHR ''0'') then None
      else case ParseUint s 10 8 of Inl _ \<Rightarrow> None | Inr n \<Rightarrow> Some (of_nat n))"

definition parseIPv4Fields :: "string \<Rightarrow> IP option" where
  "parseIPv4Fields s =
     (case map ipv4Field (Split s ''.'') of
        [Some a, Some b, Some c, Some d] \<Rightarrow> Some [a, b, c, d]
      | _ \<Rightarrow> None)"

definition hexDigit :: "char \<Rightarrow> nat option" where
  "hexDigit c =
     (let n = (of_char c :: nat)
      in if 48 \<le> n \<and> n \<le> 57 then Some (n - 48)
         else if 97 \<le> n \<and> n \<le> 102 then Some (n - 87)
         else if 65 \<le> n \<and> n \<le> 70 then Some (n - 55)
         else None)"

definition hexVal :: "string \<Rightarrow> nat" where
  "hexVal s = foldl (\<lambda>n c. 16 * n + the (hexDigit c)) 0 s"

definition group16 :: "nat \<Rightarrow> IP" where
  "group16 n = [of_nat (n div 256), of_nat n]"

text \<open>
  The groups of an IPv6 address. \<open>bytes\<close> are the bytes read so far and \<open>ell\<close> where the
  double colon stood, if there was one; the result is both, with what is left of the text. Each turn adds two bytes,
  so that eight turns are enough (\<open>n\<close> counts them down).
\<close>

fun ipv6Groups :: "nat \<Rightarrow> string \<Rightarrow> IP \<Rightarrow> nat option \<Rightarrow> (string \<times> IP \<times> nat option) option" where
  "ipv6Groups 0 s bytes ell = Some (s, bytes, ell)"
| "ipv6Groups (Suc n) s bytes ell =
     (let hex = takeWhile (\<lambda>c. hexDigit c \<noteq> None) s;
          rest = drop (length hex) s
      in if hex = [] \<or> 4 < length hex then None
         else if rest \<noteq> [] \<and> hd rest = CHR ''.'' then
           (if (ell = None \<and> length bytes \<noteq> 12) \<or> 16 < length bytes + 4 then None
            else case parseIPv4Fields s of
                   None \<Rightarrow> None | Some v4 \<Rightarrow> Some ([], bytes @ v4, ell))
         else
           let bytes' = bytes @ group16 (hexVal hex)
           in case rest of
                [] \<Rightarrow> Some ([], bytes', ell)
              | c # t \<Rightarrow>
                  if c \<noteq> colon \<or> t = [] then None
                  else if hd t = colon then
                    (if ell \<noteq> None then None
                     else if tl t = [] then Some ([], bytes', Some (length bytes'))
                     else ipv6Groups n (tl t) bytes' (Some (length bytes')))
                  else ipv6Groups n t bytes' ell)"

definition parseIPv6 :: "string \<Rightarrow> IP option" where
  "parseIPv6 s =
     (let leading = HasPrefix s ''::'';
          body = (if leading then drop 2 s else s)
      in if leading \<and> body = [] then Some (replicate 16 0)
         else case ipv6Groups 8 body [] (if leading then Some 0 else None) of
                None \<Rightarrow> None
              | Some (left, bytes, ell) \<Rightarrow>
                  if left \<noteq> [] then None
                  else if length bytes < 16 then
                    (case ell of
                       None \<Rightarrow> None
                     | Some e \<Rightarrow> Some (take e bytes @ replicate (16 - length bytes) 0 @ drop e bytes))
                  else if ell \<noteq> None then None else Some bytes)"

text \<open>The first of \<^verbatim>\<open>.\<close>, \<^verbatim>\<open>:\<close> and \<^verbatim>\<open>%\<close> decides the kind of address. \<open>ParseIP\<close> accepts no zone.\<close>

definition ParseIP :: "string \<Rightarrow> IP option" where
  "ParseIP s =
     (if CHR ''%'' \<in> set s then None
      else case dropWhile (\<lambda>c. c \<noteq> CHR ''.'' \<and> c \<noteq> colon) s of
             [] \<Rightarrow> None
           | c # _ \<Rightarrow>
               if c = CHR ''.'' then map_option (\<lambda>v4. v4InV6Prefix @ v4) (parseIPv4Fields s)
               else parseIPv6 s)"

definition To4 :: "IP \<Rightarrow> IP option" where
  "To4 ip = (if length ip = 4 then Some ip else if length ip = 16 \<and> take 12 ip = v4InV6Prefix then Some (drop 12 ip) else None)"

section \<open>Printing\<close>

definition octet :: "8 word \<Rightarrow> string" where
  "octet b = Itoa (uint b)"

definition hexChar :: "nat \<Rightarrow> char" where
  "hexChar n = char_of (if n < 10 then 48 + n else 87 + n)"

fun appendHex :: "nat \<Rightarrow> string" where
  "appendHex n = (if n < 16 then [hexChar n] else appendHex (n div 16) @ [hexChar (n mod 16)])"

declare appendHex.simps [simp del]

fun groups :: "IP \<Rightarrow> nat list" where
  "groups (a # b # t) = (unat a * 256 + unat b) # groups t"
| "groups _ = []"

text \<open>The first of the longest runs of at least two zero groups, as its start and its length.\<close>

fun zeroRun :: "nat \<Rightarrow> nat list \<Rightarrow> nat \<times> nat \<Rightarrow> nat \<times> nat" where
  "zeroRun i [] best = best"
| "zeroRun i (g # gs) best =
     (let l = length (takeWhile (\<lambda>x. x = 0) (g # gs))
      in zeroRun (Suc i) gs (if 2 \<le> l \<and> snd best < l then (i, l) else best))"

definition ipv6String :: "IP \<Rightarrow> string" where
  "ipv6String ip =
     (let gs = groups ip;
          (i, l) = zeroRun 0 gs (0, 0);
          hex = (\<lambda>xs. Join (map appendHex xs) '':'')
      in if l = 0 then hex gs else hex (take i gs) @ ''::'' @ hex (drop (i + l) gs))"

definition ipString :: "IP \<Rightarrow> string" where
  "ipString ip =
     (case To4 ip of
        Some v4 \<Rightarrow> Join (map octet v4) ''.''
      | None \<Rightarrow> ipv6String ip)"

section \<open>Laws\<close>

lemma ipv4Field_octet: "ipv4Field (octet b) = Some b"
proof -
  have n: "octet b = nat_digits (unat b)" by (simp add: octet_def Itoa_def not_less)
  have lt: "unat b < 2 ^ 8" using unsigned_less [of b, where 'a = nat] by simp
  have "hd (nat_digits m) \<noteq> CHR ''0''" if "10 \<le> m" for m
    using that
  proof (induction m rule: nat_digits.induct)
    case (1 m)
    show ?case
    proof (cases "m div 10 < 10")
      case True
      have "nat_digits (m div 10) = [char_of (48 + m div 10)]"
        by (subst nat_digits.simps) (simp add: True)
      moreover have "m div 10 \<noteq> 0" using 1(2) by auto
      then have "digit (char_of (48 + m div 10)) \<noteq> digit CHR ''0''"
        using True by (simp only: digit_char) (simp add: digit_def)
      then have "char_of (48 + m div 10) \<noteq> CHR ''0''" by metis
      ultimately show ?thesis using 1(2) by (subst nat_digits.simps) simp
    next
      case False
      with 1 show ?thesis by (subst nat_digits.simps) simp
    qed
  qed
  then have lead: "\<not> (1 < length (nat_digits (unat b)) \<and> hd (nat_digits (unat b)) = CHR ''0'')"
    by (cases "unat b < 10") (subst nat_digits.simps, simp, simp)
  have "list_all is_digit (nat_digits (unat b))" using nat_digits_digits by (auto simp: list_all_iff)
  with lead lt show ?thesis
    unfolding n ipv4Field_def using ParseUint_nat_digits [of "unat b" 8] by simp
qed

lemma dot_not_digit: "\<not> is_digit CHR ''.''" "\<not> is_digit colon" "\<not> is_digit CHR ''%''"
  by (simp_all add: is_digit_def)

lemma octet_digits: "c \<in> set (octet b) \<Longrightarrow> is_digit c"
  using nat_digits_digits by (auto simp: octet_def Itoa_def)

lemma parseIPv4Fields_octets:
  "parseIPv4Fields (Join (map octet [a, b, c, d]) ''.'') = Some [a, b, c, d]"
proof -
  have "Split (Join (map octet [a, b, c, d]) ''.'') ''.'' = map octet [a, b, c, d]"
    using octet_digits dot_not_digit by (intro Split_Join) auto
  then show ?thesis by (simp add: parseIPv4Fields_def ipv4Field_octet)
qed

text \<open>A dotted address is read back as it was written.\<close>

lemma ParseIP_octets:
  "ParseIP (Join (map octet [a, b, c, d]) ''.'') = Some (v4InV6Prefix @ [a, b, c, d])"
proof -
  let ?s = "Join (map octet [a, b, c, d]) ''.''"
  have s: "?s = octet a @ CHR ''.'' # Join (map octet [b, c, d]) ''.''" by simp
  have "x \<noteq> CHR ''%''" if "x \<in> set ?s" for x
    using that octet_digits dot_not_digit by auto
  then have "CHR ''%'' \<notin> set ?s" by blast
  moreover have "dropWhile (\<lambda>c. c \<noteq> CHR ''.'' \<and> c \<noteq> colon) ?s = CHR ''.'' # Join (map octet [b, c, d]) ''.''"
    unfolding s using octet_digits dot_not_digit by (subst dropWhile_append2) auto
  ultimately show ?thesis
    by (simp only: ParseIP_def if_False list.case simp_thms if_True parseIPv4Fields_octets option.map)
qed

lemma To4_v4: "length v4 = 4 \<Longrightarrow> To4 (v4InV6Prefix @ v4) = Some v4"
  by (simp add: To4_def v4InV6Prefix_def)

lemma ipString_v4: "length v4 = 4 \<Longrightarrow> ipString (v4InV6Prefix @ v4) = Join (map octet v4) ''.''"
  by (simp add: ipString_def To4_v4)

end
