(* ===== verification/DataChannel.thy ===== *)
theory DataChannel
  imports Session IPAddr
begin

unbundle bit_operations_syntax

text \<open>
  The data channel of a connection (\<^verbatim>\<open>persistent_connection.go\<close>): asking for a passive
  address, listening for an active connection, \<open>prepareDataConn\<close> with the getter and the abort it
  returns, and reading and writing with deadlines.

  The getter and the abort are closures that share the variable \<open>handedOver\<close>. They are modelled as
  functions of what \<open>prepareDataConn\<close> opened (\<open>prepared\<close>), and the shared variable as a cell beside the
  state of the connection.
\<close>

section \<open>System calls of the data channel\<close>

definition ResolveTCPAddr :: "net \<Rightarrow> string \<Rightarrow> (goerror + string) io" where
  "ResolveTCPAddr net addr h = Ret (net_resolveTCP net h addr) (EvResolve addr # h)"

text \<open>A listener is its handle and the address it got.\<close>

definition ListenTCP :: "net \<Rightarrow> string \<Rightarrow> (goerror + handle \<times> string) io" where
  "ListenTCP net addr h =
     (let r = net_listen net h addr
      in Ret (case r of Inl e \<Rightarrow> Inl e | Inr a \<Rightarrow> Inr (length h, a)) (EvListen addr r # h))"

definition Accept :: "net \<Rightarrow> handle \<Rightarrow> (goerror + conn) io" where
  "Accept net l h =
     (let r = net_accept net h l
      in Ret (case r of None \<Rightarrow> Inr (Sock (length h)) | Some e \<Rightarrow> Inl e) (EvAccept l r # h))"

definition connRead :: "net \<Rightarrow> conn \<Rightarrow> (string \<times> goerror option) io" where
  "connRead net c h =
     (case net_read net h (sock c) of (bytes, err) \<Rightarrow>
        Ret (bytes, err) (EvDataIn (sock c) bytes err # h))"

definition connWrite :: "net \<Rightarrow> conn \<Rightarrow> string \<Rightarrow> (nat \<times> goerror option) io" where
  "connWrite net c bytes h =
     (case net_put net h (sock c) bytes of (n, err) \<Rightarrow>
        Ret (n, err) (EvDataOut (sock c) bytes n err # h))"

section \<open>Passive mode\<close>

text \<open>The port of a reply to \<^verbatim>\<open>EPSV\<close>, or the message that is logged when there is none.\<close>

definition epsvPort :: "string \<Rightarrow> string + int" where
  "epsvPort msg =
     (let startIdx = Index msg ''|||'';
          endIdx = LastIndex msg ''|''
      in if startIdx = -1 \<or> endIdx = -1 \<or> startIdx + 3 > endIdx
         then Inl ''failed parsing EPSV response: %s''
         else case Atoi (GoStrings.slice msg (startIdx + 3) endIdx) of
                Inl _ \<Rightarrow> Inl ''EPSV response didn't contain port: %s''
              | Inr port \<Rightarrow> Inr port)"

text \<open>The two octets of a port, put together in a 64-bit integer as the code does, without a check
  of their range.\<close>

definition pasvPort :: "int \<Rightarrow> int \<Rightarrow> int" where
  "pasvPort hi lo = sint ((push_bit 8 (word_of_int hi) OR word_of_int lo) :: 64 word)"

definition pasvAddr :: "string \<Rightarrow> goerror + string" where
  "pasvAddr msg =
     (let parseError = wrapErr (Errorf ''error parsing PASV response (%s)'' [AStr msg]);
          startIdx = Index msg ''('';
          endIdx = LastIndex msg '')''
      in if startIdx = -1 \<or> endIdx = -1 \<or> startIdx > endIdx then Inl parseError
         else
           let addrParts = Split (GoStrings.slice msg (startIdx + 1) endIdx) '',''
           in if length addrParts \<noteq> 6 then Inl parseError
              else case ParseIP (Join (take 4 addrParts) ''.'') of
                     None \<Rightarrow> Inl parseError
                   | Some ip \<Rightarrow>
                       (case (Atoi (addrParts ! 4), Atoi (addrParts ! 5)) of
                          (Inr hi, Inr lo) \<Rightarrow> Inr (JoinHostPort (ipString ip) (Itoa (pasvPort hi lo)))
                        | _ \<Rightarrow> Inl parseError))"

definition requestPASV :: "net \<Rightarrow> (goerror + string, pworld) go" where
  "requestPASV net =
     seq (sendCommand net ''PASV'' []) (\<lambda>(code, msg, err).
     case err of
       Some e \<Rightarrow> ret (Inl e)
     | None \<Rightarrow> if code \<noteq> replyEnteringPassiveMode then ret (Inl (replyErr code msg))
              else ret (pasvAddr msg))"

definition requestPassive :: "net \<Rightarrow> (goerror + string, pworld) go" where
  "requestPassive net =
     seq (gets pconn) (\<lambda>pc.
     if epsvNotSupported pc then requestPASV net
     else
       seq (sendCommand net ''EPSV'' []) (\<lambda>(code, msg, err).
       case err of
         Some e \<Rightarrow> ret (Inl e)
       | None \<Rightarrow>
           if code \<noteq> replyEnteringExtendedPassiveMode then
             seq (debug ''server doesn't support EPSV: %d-%s'' [AInt code, AStr msg]) (\<lambda>_.
             seq (updPconn (\<lambda>pc. pc\<lparr>epsvNotSupported := True\<rparr>)) (\<lambda>_. requestPASV net))
           else
             (case epsvPort msg of
                Inl why \<Rightarrow> seq (debug why [AStr msg]) (\<lambda>_. requestPASV net)
              | Inr port \<Rightarrow>
                  withControl (\<lambda>c.
                  seq (gets (\<lambda>w. net_remoteAddr net (hist w) (sock c))) (\<lambda>remote.
                  case SplitHostPort remote of
                    Inl e \<Rightarrow>
                      seq (debug ''failed determining remote host: %s'' [AErr e]) (\<lambda>_. requestPASV net)
                  | Inr (remoteHost, _) \<Rightarrow>
                      ret (Inr (Sprintf ''[%s]:%d'' [AStr remoteHost, AInt port])))))))"

section \<open>Active mode\<close>

text \<open>Indexing the empty string panics; \<open>newClient\<close> never leaves the address empty.\<close>

definition activeAddr :: "string \<Rightarrow> string \<Rightarrow> string \<Rightarrow> string \<Rightarrow> string option" where
  "activeAddr listenAddr localAddr localHost localPort =
     (if listenAddr = [] then None
      else if listenAddr = '':'' then Some localAddr
      else if last listenAddr = colon then Some (JoinHostPort (butlast listenAddr) localPort)
      else if hd listenAddr = colon then Some (JoinHostPort localHost (tl listenAddr))
      else Some listenAddr)"

definition announce :: "net \<Rightarrow> string \<Rightarrow> IP \<Rightarrow> int \<Rightarrow> (goerror option, pworld) go" where
  "announce net listenHost hostIP listenPort =
     (case To4 hostIP of
        None \<Rightarrow> sendCommandExpected net 200 ''EPRT |%d|%s|%d|'' [AInt 2, AStr listenHost, AInt listenPort]
      | Some v4 \<Rightarrow>
          sendCommandExpected net 200 ''PORT %d,%d,%d,%d,%d,%d''
            [AInt (uint (v4 ! 0)), AInt (uint (v4 ! 1)), AInt (uint (v4 ! 2)), AInt (uint (v4 ! 3)),
             AInt (listenPort div 256), AInt (listenPort mod 256)])"

definition listenActive :: "net \<Rightarrow> (goerror + handle, pworld) go" where
  "listenActive net =
     withControl (\<lambda>c.
     seq (gets (\<lambda>w. (ActiveListenAddr (config (pconn w)), net_localAddr net (hist w) (sock c)))) (\<lambda>(listenAddr, localAddr).
     case SplitHostPort localAddr of
       Inl e \<Rightarrow> ret (Inl (wrapErr (Errorf ''error splitting local address: %s (%s)'' [AErr e, AStr localAddr])))
     | Inr (localHost, localPort) \<Rightarrow>
         (case activeAddr listenAddr localAddr localHost localPort of
            None \<Rightarrow> abort_with (Panicked ''index out of range'')
          | Some addr \<Rightarrow>
              seq (io (ResolveTCPAddr net addr)) (\<lambda>r.
              case r of
                Inl e \<Rightarrow> ret (Inl (wrapErr (Errorf ''error parsing active listen addr: %s (%s)'' [AErr e, AStr addr])))
              | Inr tcpAddr \<Rightarrow>
                  seq (io (ListenTCP net tcpAddr)) (\<lambda>r.
                  case r of
                    Inl e \<Rightarrow> ret (Inl (wrapErr (Errorf ''error listening on %s for active transfer: %s'' [AStr addr, AErr e])))
                  | Inr (listener, laddr) \<Rightarrow>
                      seq (debug ''listening on %s for active connection'' [AStr laddr]) (\<lambda>_.
                      case SplitHostPort laddr of
                        Inl e \<Rightarrow> ret (Inl (wrapErr (Errorf ''error splitting listener addr: %s (%s)'' [AErr e, AStr laddr])))
                      | Inr (listenHost, listenPortStr) \<Rightarrow>
                          (case Atoi listenPortStr of
                             Inl e \<Rightarrow> ret (Inl (wrapErr (Errorf ''error parsing listen port: %s (%s)''
                                       [AErr (NumError ''Atoi'' listenPortStr e), AStr listenPortStr])))
                           | Inr listenPort \<Rightarrow>
                               (case ParseIP listenHost of
                                  None \<Rightarrow> ret (Inl (wrapErr (Errorf ''failed parsing host IP %s'' [AStr listenHost])))
                                | Some hostIP \<Rightarrow>
                                    seq (announce net listenHost hostIP listenPort) (\<lambda>err.
                                    case err of
                                      Some e \<Rightarrow> ret (Inl e)
                                    | None \<Rightarrow> ret (Inr listener))))))))))"

section \<open>Preparing a data connection\<close>

text \<open>
  What was opened: a listener, or a connection to the server, wrapped in TLS when \<open>TLSConfig\<close> is set
  (the variable \<open>tlsConn\<close> of the code is then that connection).
\<close>

datatype prepared = Active handle | Passive conn

definition prepareDataConn :: "net \<Rightarrow> (goerror + prepared, pworld) go" where
  "prepareDataConn net =
     seq (gets (\<lambda>w. config (pconn w))) (\<lambda>cfg.
     if ActiveTransfers cfg then
       seq (listenActive net) (\<lambda>r.
       case r of Inl e \<Rightarrow> ret (Inl e) | Inr listener \<Rightarrow> ret (Inr (Active listener)))
     else
       seq (requestPassive net) (\<lambda>r.
       case r of
         Inl e \<Rightarrow> ret (Inl e)
       | Inr addr \<Rightarrow>
           seq (debug ''opening data connection to %s'' [AStr addr]) (\<lambda>_.
           seq (io (dial net cfg ''tcp'' addr)) (\<lambda>r.
           case r of
             Inl e \<Rightarrow> ret (Inl (FtpError (Some e) 0 [] False (isTemporary e)))
           | Inr dc \<Rightarrow>
               if TLSConfig cfg = None then ret (Inr (Passive dc))
               else
                 seq (debug ''upgrading data connection to TLS'' []) (\<lambda>_.
                 seq (gets (\<lambda>w. dataChannelTLSConfig (pconn w))) (\<lambda>tcfg.
                 ret (Inr (Passive (tlsClient dc tcfg)))))))))"

subsection \<open>The closures and the cell they share\<close>

type_synonym 'a closure = "('a, pworld \<times> bool) go"

definition inner :: "('a, pworld) go \<Rightarrow> 'a closure" where
  "inner m = zoom fst (\<lambda>w s. (w, snd s)) m"

text \<open>Run code with a fresh cell, \<open>False\<close> at the start.\<close>

definition withCell :: "'a closure \<Rightarrow> ('a, pworld) go" where
  "withCell m = zoom (\<lambda>w. (w, False)) (\<lambda>s _. fst s) m"

definition logClose :: "net \<Rightarrow> conn \<Rightarrow> string \<Rightarrow> (unit, pworld) go" where
  "logClose net c why =
     seq (io (closeConn net c)) (\<lambda>err.
     case err of None \<Rightarrow> ret () | Some e \<Rightarrow> debug why [AErr e])"

definition abortData :: "net \<Rightarrow> prepared \<Rightarrow> unit closure" where
  "abortData net p =
     seq (gets snd) (\<lambda>handedOver.
     if handedOver then ret ()
     else inner (case p of
         Active l \<Rightarrow>
           seq (debug ''releasing the unused active-mode listener'' []) (\<lambda>_.
           logClose net (Sock l) ''error closing data connection listener: %s'')
       | Passive dc \<Rightarrow>
           seq (debug ''releasing the unused data connection'' []) (\<lambda>_.
           logClose net dc ''error closing unused data connection: %s'')))"

definition setDataConn :: "conn \<Rightarrow> (goerror + dataConn, pworld) go" where
  "setDataConn c =
     seq (gets (\<lambda>w. \<lparr>Conn = c, dcTimeout = Timeout (config (pconn w))\<rparr>)) (\<lambda>dc.
     seq (updPconn (\<lambda>pc. pc\<lparr>pdataConn := Some dc\<rparr>)) (\<lambda>_. ret (Inr dc)))"

definition tlsServer :: "conn \<Rightarrow> tlsConfig option \<Rightarrow> conn" where
  "tlsServer c cfg = TLSServer c (case cfg of None \<Rightarrow> zeroTLSConfig | Some cfg \<Rightarrow> cfg)"

definition acceptData :: "net \<Rightarrow> handle \<Rightarrow> (goerror + dataConn, pworld) go" where
  "acceptData net l =
     deferred (logClose net (Sock l) ''error closing data connection listener: %s'')
       (seq (gets (\<lambda>w. config (pconn w))) (\<lambda>cfg.
        seq (io (SetReadDeadline (Sock l) (Timeout cfg))) (\<lambda>_.
        seq (io (Accept net l)) (\<lambda>r.
        case r of
          Inl e \<Rightarrow> ret (Inl (FtpError (Some e) 0 [] False (isTemporary e)))
        | Inr dc \<Rightarrow>
            if TLSConfig cfg = None then setDataConn dc
            else
              seq (gets (\<lambda>w. dataChannelTLSConfig (pconn w))) (\<lambda>tcfg.
              seq (debug ''upgraded active connection to TLS'' []) (\<lambda>_.
              setDataConn (tlsServer dc tcfg)))))))"

definition handshakeData :: "net \<Rightarrow> conn \<Rightarrow> (goerror + dataConn, pworld) go" where
  "handshakeData net dc =
     (case dc of
        TLSClient _ cfg \<Rightarrow>
          seq (io (Handshake net dc cfg)) (\<lambda>err.
          case err of
            Some e \<Rightarrow> seq (io (closeConn net dc)) (\<lambda>_. ret (Inl (wrapErr e)))
          | None \<Rightarrow> setDataConn dc)
      | _ \<Rightarrow> setDataConn dc)"

definition getData :: "net \<Rightarrow> prepared \<Rightarrow> (goerror + dataConn) closure" where
  "getData net p =
     seq (modify (\<lambda>s. (fst s, True))) (\<lambda>_.
     inner (case p of Active l \<Rightarrow> acceptData net l | Passive dc \<Rightarrow> handshakeData net dc))"

section \<open>Reading and writing\<close>

definition Read :: "net \<Rightarrow> dataConn \<Rightarrow> (string \<times> goerror option) io" where
  "Read net dc = seq (SetReadDeadline (Conn dc) (dcTimeout dc)) (\<lambda>_. connRead net (Conn dc))"

definition Write :: "net \<Rightarrow> dataConn \<Rightarrow> string \<Rightarrow> (nat \<times> goerror option) io" where
  "Write net dc bytes = seq (SetWriteDeadline (Conn dc) (dcTimeout dc)) (\<lambda>_. connWrite net (Conn dc) bytes)"

text \<open>
  The shape that listing and transferring share: the abort is deferred, the command is sent,
  the getter runs once the server has agreed, and the connection it returns is closed when \<open>body\<close> ends.
  \<open>fail\<close> builds the result of an error, \<open>onGet\<close> logs the error of the getter.
\<close>

definition closeData :: "net \<Rightarrow> dataConn \<Rightarrow> (unit, pworld) go" where
  "closeData net dc = seq (io (closeConn net (Conn dc))) (\<lambda>_. ret ())"

definition dataCommand :: "net \<Rightarrow> prepared \<Rightarrow> (goerror option, pworld) go \<Rightarrow> (goerror \<Rightarrow> 'a) \<Rightarrow>
    (goerror \<Rightarrow> (unit, pworld) go) \<Rightarrow> (dataConn \<Rightarrow> ('a, pworld) go) \<Rightarrow> ('a, pworld) go" where
  "dataCommand net p send fail onGet body =
     withCell (deferred (abortData net p)
       (seq (inner send) (\<lambda>err.
        case err of
          Some e \<Rightarrow> ret (fail e)
        | None \<Rightarrow>
            seq (getData net p) (\<lambda>r.
            case r of
              Inl e \<Rightarrow> inner (seq (onGet e) (\<lambda>_. ret (fail e)))
            | Inr dc \<Rightarrow> inner (deferred (closeData net dc) (body dc))))))"

section \<open>Rules\<close>

lemma wp_inner [wp_simps]:
  "wp (inner m) Q E s = wp m (\<lambda>a w. Q a (w, snd s)) (\<lambda>e w. E e (w, snd s)) (fst s)"
  by (simp add: inner_def wp_simps)

lemma wp_withCell [wp_simps]:
  "wp (withCell m) Q E w = wp m (\<lambda>a s. Q a (fst s)) (\<lambda>e s. E e (fst s)) (w, False)"
  by (simp add: withCell_def wp_simps)

lemma wp_ResolveTCPAddr [wp_simps]:
  "wp (ResolveTCPAddr net addr) Q E h = Q (net_resolveTCP net h addr) (EvResolve addr # h)"
  by (simp add: wp_def ResolveTCPAddr_def)

lemma wp_ListenTCP [wp_simps]:
  "wp (ListenTCP net addr) Q E h =
     (let r = net_listen net h addr
      in Q (case r of Inl e \<Rightarrow> Inl e | Inr a \<Rightarrow> Inr (length h, a)) (EvListen addr r # h))"
  by (simp add: wp_def ListenTCP_def Let_def)

lemma wp_Accept [wp_simps]:
  "wp (Accept net l) Q E h =
     (let r = net_accept net h l
      in Q (case r of None \<Rightarrow> Inr (Sock (length h)) | Some e \<Rightarrow> Inl e) (EvAccept l r # h))"
  by (simp add: wp_def Accept_def Let_def)

lemma wp_Read [wp_simps]:
  "wp (Read net dc) Q E h =
     (let h' = EvReadDeadline (sock (Conn dc)) (dcTimeout dc) # h; r = net_read net h' (sock (Conn dc))
      in Q r (EvDataIn (sock (Conn dc)) (fst r) (snd r) # h'))"
  by (simp add: Read_def wp_simps) (simp add: wp_def connRead_def Let_def split_beta)

lemma wp_Write [wp_simps]:
  "wp (Write net dc bytes) Q E h =
     (let h' = EvWriteDeadline (sock (Conn dc)) (dcTimeout dc) # h; r = net_put net h' (sock (Conn dc)) bytes
      in Q r (EvDataOut (sock (Conn dc)) bytes (fst r) (snd r) # h'))"
  by (simp add: Write_def wp_simps) (simp add: wp_def connWrite_def Let_def split_beta)

section \<open>Contracts\<close>

text \<open>
  An operation on a connection, data channel included, keeps its identity and its control socket and never
  repairs it. \<open>releases H\<close> says in addition that the sockets \<open>H\<close> are closed and no other socket is
  opened or closed.
\<close>

definition conn_step :: "pworld \<Rightarrow> pworld \<Rightarrow> bool" where
  "conn_step w w' \<longleftrightarrow> (broken (pconn w) \<longrightarrow> broken (pconn w')) \<and>
     idx (pconn w') = idx (pconn w) \<and> host (pconn w') = host (pconn w) \<and>
     config (pconn w') = config (pconn w) \<and> sessionCache (pconn w') = sessionCache (pconn w) \<and>
     map_option sock (controlConn (pconn w')) = map_option sock (controlConn (pconn w))"

lemma conn_step_refl [simp, intro]: "conn_step w w"
  by (simp add: conn_step_def)

lemma conn_step_trans [trans]: "conn_step w w' \<Longrightarrow> conn_step w' w'' \<Longrightarrow> conn_step w w''"
  by (auto simp: conn_step_def)

lemma conn_step_connected: "conn_step w w' \<Longrightarrow> connected w \<Longrightarrow> connected w'"
  by (auto simp: conn_step_def connected_def)

definition releases :: "handle set \<Rightarrow> pworld \<Rightarrow> pworld \<Rightarrow> bool" where
  "releases H w w' \<longleftrightarrow> conn_step w w' \<and> live (hist w') = live (hist w) - H"

lemma releases_refl [simp, intro]: "releases {} w w"
  by (simp add: releases_def)

lemma releases_trans: "releases H w w' \<Longrightarrow> releases H' w' w'' \<Longrightarrow> releases (H \<union> H') w w''"
  by (auto simp: releases_def intro: conn_step_trans)

lemma releases_connected: "releases H w w' \<Longrightarrow> connected w \<Longrightarrow> connected w'"
  by (auto simp: releases_def intro: conn_step_connected)

lemma ctl_step_releases: "ctl_step w w' \<Longrightarrow> releases {} w w'"
  by (auto simp: ctl_step_def conn_step_def releases_def dest: same_socks_live)

abbreviation errOf :: "goerror + 'a \<Rightarrow> goerror option" where
  "errOf r \<equiv> (case r of Inl e \<Rightarrow> Some e | Inr _ \<Rightarrow> None)"

lemma pasvAddr_error: "pasvAddr msg = Inl e \<Longrightarrow> is_ftpError e"
  by (auto simp: pasvAddr_def Let_def split: if_splits option.splits sum.splits)

lemma ctl_ok_requestPASV: "ctl_ok (requestPASV net) errOf"
  unfolding requestPASV_def
  by (rule ctl_ok_call3 [OF ctl_ok_sendCommand])
    (auto intro!: ctl_ok_ret ctl_ok_if dest: pasvAddr_error split: sum.splits)

lemma ctl_ok_withControl:
  assumes "\<And>c. ctl_ok (f c) err"
  shows "ctl_ok (withControl f) err"
proof (rule ctl_okI)
  fix w assume w: "connected w"
  then obtain c where "controlConn (pconn w) = Some c" by (auto simp: connected_def)
  with ctl_okD [OF assms w] show "wp (withControl f) (\<lambda>a w'. ctl_step w w' \<and>
      (\<forall>e. err a = Some e \<longrightarrow> is_ftpError e)) never w" by (simp add: wp_withControl)
qed

lemma ctl_ok_requestPassive: "ctl_ok (requestPassive net) errOf"
proof -
  have pasv: "ctl_ok (seq (debug f as) (\<lambda>_. requestPASV net)) errOf" for f as
    by (rule ctl_ok_then [OF ctl_ok_debug ctl_ok_requestPASV])
  have none: "ctl_ok (seq (debug f as) (\<lambda>_.
      seq (updPconn (\<lambda>pc. pc\<lparr>epsvNotSupported := True\<rparr>)) (\<lambda>_. requestPASV net))) errOf" for f as
    by (intro ctl_ok_then [OF ctl_ok_debug] ctl_ok_then [OF ctl_ok_updPconn] ctl_ok_requestPASV) auto
  have addr: "ctl_ok (withControl (\<lambda>c.
      seq (gets (\<lambda>w. net_remoteAddr net (hist w) (sock c))) (\<lambda>remote.
      case SplitHostPort remote of
        Inl e \<Rightarrow> seq (debug ''failed determining remote host: %s'' [AErr e]) (\<lambda>_. requestPASV net)
      | Inr (remoteHost, _) \<Rightarrow> ret (Inr (Sprintf ''[%s]:%d'' [AStr remoteHost, AInt port]))))) errOf" for port
    by (rule ctl_ok_withControl, rule ctl_ok_then [OF ctl_ok_gets])
      (auto intro: pasv ctl_ok_ret split: sum.split)
  show ?thesis
    unfolding requestPassive_def
    by (rule ctl_ok_then [OF ctl_ok_gets], rule ctl_ok_if, rule ctl_ok_requestPASV,
        rule ctl_ok_call3 [OF ctl_ok_sendCommand])
      (auto intro: pasv none addr ctl_ok_ret split: sum.split)
qed

interpretation psv: control_op "requestPassive net" errOf for net
  by unfold_locales (rule ctl_ok_requestPassive)

subsection \<open>Preparing\<close>

fun prepHandle :: "prepared \<Rightarrow> handle" where
  "prepHandle (Active l) = l"
| "prepHandle (Passive c) = sock c"

text \<open>
  A prepared data channel owns the one socket that was opened for it. After an error nothing is left
  open in passive mode. In active mode a listener may be left: see \<open>listenActive_leaks_listener\<close>.
\<close>

definition prep_ok :: "pworld \<Rightarrow> goerror + prepared \<Rightarrow> pworld \<Rightarrow> bool" where
  "prep_ok w r w' \<longleftrightarrow> conn_step w w' \<and> pdataConn (pconn w') = pdataConn (pconn w) \<and>
     (case r of
        Inl e \<Rightarrow> is_ftpError e \<and> live (hist w) \<subseteq> live (hist w') \<and>
          (\<not> ActiveTransfers (config (pconn w)) \<longrightarrow> live (hist w') = live (hist w))
      | Inr p \<Rightarrow> live (hist w') - {prepHandle p} = live (hist w) \<and> prepHandle p \<notin> live (hist w))"

lemma ctl_ok_announce: "ctl_ok (announce net lh ip port) (\<lambda>err. err)"
  by (simp add: announce_def ctl_ok_sendCommandExpected split: option.split)

lemma prep_ok_error:
  "is_ftpError e \<Longrightarrow> ctl_step w w' \<Longrightarrow> prep_ok w (Inl e) w'"
  by (auto simp: prep_ok_def ctl_step_def conn_step_def dest: same_socks_live)

lemma announce_listening:
  assumes "connected w'" "ActiveTransfers (config (pconn w))"
    and "conn_step w w'" "pdataConn (pconn w') = pdataConn (pconn w)"
    and "live (hist w') - {l} = live (hist w)" "l \<notin> live (hist w)"
  shows "wp (seq (announce net lh ip port) (\<lambda>err. case err of Some e \<Rightarrow> ret (Inl e) | None \<Rightarrow> ret (Inr l)))
    (\<lambda>r. prep_ok w (map_sum id Active r)) never w'"
  unfolding wp_seq
proof (rule wp_mono [OF ctl_okD [OF ctl_ok_announce assms(1)]], goal_cases)
  case (1 r w'')
  then have live: "live (hist w'') = live (hist w')" and step: "conn_step w' w''"
    and dc: "pdataConn (pconn w'') = pdataConn (pconn w')"
    using ctl_step_releases [of w' w''] by (auto simp: releases_def ctl_step_def)
  have "conn_step w w''" using assms(3) step by (rule conn_step_trans)
  with 1 assms live dc show ?case
    by (auto simp: prep_ok_def wp_ret split: option.split)
qed simp

lemma live_listening:
  assumes "length (EvResolve d # h) \<notin> live h"
  shows "s \<in> live (EvListen a (Inr b) # EvResolve d # h) \<longleftrightarrow>
    s \<in> live h \<or> s = Suc (length h) \<and> s \<notin> set (closed_socks h)"
  using assms by (auto simp: live_def)

lemma listenActive_contract:
  assumes w: "connected w" and act: "ActiveTransfers (config (pconn w))"
    and addr: "ActiveListenAddr (config (pconn w)) \<noteq> []"
  shows "wp (listenActive net) (\<lambda>r. prep_ok w (map_sum id Active r)) never w"
proof -
  from w obtain c where c: "controlConn (pconn w) = Some c" by (auto simp: connected_def)
  have some: "(activeAddr (ActiveListenAddr (config (pconn w))) a b d = None) = False" for a b d
    using addr by (simp add: activeAddr_def)
  show ?thesis
    unfolding listenActive_def wp_withControl c option.case
    using w act length_notin_live [of "EvResolve a # hist w" for a]
    by (auto simp: wp_seq [of "io _"] wp_seq [of "gets _"] wp_seq [of "debug _ _"] wp_gets wp_io wp_ret wp_debug wp_ResolveTCPAddr wp_ListenTCP Let_def
        prep_ok_def [of _ "Inl _"] connected_def conn_step_def some live_listening
        split: sum.split prod.split option.split intro!: announce_listening)
qed

lemma prepareDataConn_contract:
  assumes w: "connected w" and addr: "ActiveListenAddr (config (pconn w)) \<noteq> []"
  shows "wp (prepareDataConn net) (prep_ok w) never w"
proof (cases "ActiveTransfers (config (pconn w))")
  case True
  have "wp (listenActive net) (\<lambda>r. wp (case r of Inl e \<Rightarrow> ret (Inl e) | Inr l \<Rightarrow> ret (Inr (Active l)))
      (prep_ok w) never) never w"
    by (rule wp_mono [OF listenActive_contract [OF w True addr]]) (auto simp: wp_ret split: sum.splits)
  with True show ?thesis by (simp add: prepareDataConn_def wp_seq wp_gets)
next
  case False
  let ?cfg = "config (pconn w)"
  have dial: "wp (seq (io (dial net ?cfg ''tcp'' a)) (\<lambda>r. case r of
             Inl e \<Rightarrow> ret (Inl (FtpError (Some e) 0 [] False (isTemporary e)))
           | Inr dc \<Rightarrow>
               if TLSConfig ?cfg = None then ret (Inr (Passive dc))
               else
                 seq (debug ''upgrading data connection to TLS'' []) (\<lambda>_.
                 seq (gets (\<lambda>w. dataChannelTLSConfig (pconn w))) (\<lambda>tcfg.
                 ret (Inr (Passive (tlsClient dc tcfg))))))) (prep_ok w) never u"
    if "ctl_step w u" for u a
  proof -
    have u: "conn_step w u" "live (hist u) = live (hist w)" "pdataConn (pconn u) = pdataConn (pconn w)"
      using ctl_step_releases [OF that] that by (simp_all add: releases_def ctl_step_def)
    show ?thesis
      unfolding wp_seq wp_io
      by (rule wp_mono [OF dial_opens])
        (use u False in \<open>auto simp: wp_simps prep_ok_def opens_def conn_step_def split: sum.splits\<close>)
  qed
  have "wp (requestPassive net) (\<lambda>r. wp (case r of
         Inl e \<Rightarrow> ret (Inl e)
       | Inr addr \<Rightarrow>
           seq (debug ''opening data connection to %s'' [AStr addr]) (\<lambda>_.
           seq (io (dial net ?cfg ''tcp'' addr)) (\<lambda>r. case r of
             Inl e \<Rightarrow> ret (Inl (FtpError (Some e) 0 [] False (isTemporary e)))
           | Inr dc \<Rightarrow>
               if TLSConfig ?cfg = None then ret (Inr (Passive dc))
               else
                 seq (debug ''upgrading data connection to TLS'' []) (\<lambda>_.
                 seq (gets (\<lambda>w. dataChannelTLSConfig (pconn w))) (\<lambda>tcfg.
                 ret (Inr (Passive (tlsClient dc tcfg)))))))) (prep_ok w) never) never w"
  proof (rule wp_mono [OF ctl_okD [OF ctl_ok_requestPassive w]], goal_cases)
    case (1 r w')
    show ?case
    proof (cases r)
      case (Inl e)
      with 1 show ?thesis by (simp add: wp_ret prep_ok_error)
    next
      case (Inr a)
      have "ctl_step w (w'\<lparr>hist := EvLog (Some (idx (pconn w'))) f as # hist w'\<rparr>)" for f as
        using 1 by (auto simp: ctl_step_def same_socks_def)
      with 1 Inr show ?thesis
        by (simp add: wp_seq [of "debug ''opening data connection to %s'' _"] wp_debug dial)
    qed
  qed simp
  with False show ?thesis by (simp add: prepareDataConn_def wp_seq wp_gets)
qed

subsection \<open>The getter and the abort\<close>

lemma releases_log [simp]: "releases H w (w'\<lparr>hist := EvLog i f as # hist w'\<rparr>) = releases H w w'"
  by (simp add: releases_def conn_step_def)

lemma logClose_contract: "wp (logClose net c why) (\<lambda>_. releases {sock c} w) never w"
  by (auto simp: logClose_def wp_simps Let_def releases_def conn_step_def split: option.split)

definition got_data :: "prepared \<Rightarrow> pworld \<Rightarrow> goerror + dataConn \<Rightarrow> pworld \<Rightarrow> bool" where
  "got_data p w r w' \<longleftrightarrow> conn_step w w' \<and>
     (case r of
        Inl e \<Rightarrow> is_ftpError e \<and> live (hist w') = live (hist w) - {prepHandle p}
      | Inr dc \<Rightarrow> live (hist w') - {sock (Conn dc)} = live (hist w) - {prepHandle p})"

lemma sock_tlsServer [simp]: "sock (tlsServer c cfg) = sock c"
  by (simp add: tlsServer_def split: option.split)

lemma acceptData_contract: "wp (acceptData net l) (got_data (Active l) w) never w"
proof -
  let ?body = "seq (gets (\<lambda>w. config (pconn w))) (\<lambda>cfg.
        seq (io (SetReadDeadline (Sock l) (Timeout cfg))) (\<lambda>_.
        seq (io (Accept net l)) (\<lambda>r.
        case r of
          Inl e \<Rightarrow> ret (Inl (FtpError (Some e) 0 [] False (isTemporary e)))
        | Inr dc \<Rightarrow>
            if TLSConfig cfg = None then setDataConn dc
            else
              seq (gets (\<lambda>w. dataChannelTLSConfig (pconn w))) (\<lambda>tcfg.
              seq (debug ''upgraded active connection to TLS'' []) (\<lambda>_.
              setDataConn (tlsServer dc tcfg))))))"
  have "wp ?body (\<lambda>r w'. conn_step w w' \<and> (case r of
      Inl e \<Rightarrow> is_ftpError e \<and> live (hist w') = live (hist w)
    | Inr dc \<Rightarrow> live (hist w') - {sock (Conn dc)} = live (hist w))) never w"
    using live_listen(4) [of l "EvReadDeadline l t # hist w" for t]
    by (simp add: wp_simps setDataConn_def Let_def conn_step_def split: option.split)
  then show ?thesis
    unfolding acceptData_def wp_deferred
  proof (rule wp_mono, goal_cases)
    case (1 r w')
    show ?case
    proof (rule wp_mono [OF logClose_contract])
      fix u w'' assume "releases {sock (Sock l)} w' w''"
      then have "conn_step w' w''" "live (hist w'') = live (hist w') - {l}" by (simp_all add: releases_def)
      with 1 conn_step_trans [of w w' w''] show "got_data (Active l) w r w''"
        by (cases r) (auto simp: got_data_def)
    qed simp
  qed simp
qed

lemma handshakeData_contract: "wp (handshakeData net c) (got_data (Passive c) w) never w"
  by (auto simp: handshakeData_def setDataConn_def wp_simps got_data_def conn_step_def Let_def
      split: conn.split option.split)

lemma getData_contract:
  "wp (getData net p) (\<lambda>r s'. snd s' \<and> got_data p (fst s) r (fst s')) never s"
proof -
  have "wp (case p of Active l \<Rightarrow> acceptData net l | Passive dc \<Rightarrow> handshakeData net dc)
      (got_data p (fst s)) never (fst s)"
    by (cases p) (simp_all add: acceptData_contract handshakeData_contract)
  then show ?thesis by (simp add: getData_def wp_simps)
qed

lemma abortData_contract:
  "wp (abortData net p) (\<lambda>_ s'. releases (if snd s then {} else {prepHandle p}) (fst s) (fst s')) never s"
proof -
  have log: "wp (seq (debug f as) (\<lambda>_. logClose net c why)) (\<lambda>_. releases {sock c} w) never w" for f as c why w
    unfolding wp_seq wp_debug
    by (rule wp_mono [OF logClose_contract]) (auto simp: releases_def conn_step_def split: if_splits)
  have "wp (case p of
         Active l \<Rightarrow>
           seq (debug ''releasing the unused active-mode listener'' []) (\<lambda>_.
           logClose net (Sock l) ''error closing data connection listener: %s'')
       | Passive dc \<Rightarrow>
           seq (debug ''releasing the unused data connection'' []) (\<lambda>_.
           logClose net dc ''error closing unused data connection: %s''))
      (\<lambda>_. releases {prepHandle p} w) never w" for w
    by (cases p) (simp_all add: log [where c = "Sock l" for l, simplified] log)
  then show ?thesis by (simp add: abortData_def wp_simps)
qed

subsection \<open>A command with a data connection\<close>

text \<open>
  What the body must promise: it works on the connection it is given, closes no other socket and leaves none
  behind, and it runs out of fuel only if \<open>F\<close> allows that. Then the whole command leaves exactly the sockets that were open before the data channel was prepared.
\<close>

definition data_body :: "bool \<Rightarrow> (dataConn \<Rightarrow> ('a, pworld) go) \<Rightarrow> ('a \<Rightarrow> bool) \<Rightarrow> bool" where
  "data_body F body Q \<longleftrightarrow> (\<forall>dc w. connected w \<longrightarrow>
     wp (body dc) (\<lambda>a w'. conn_step w w' \<and> Q a \<and>
       live (hist w') - {sock (Conn dc)} = live (hist w) - {sock (Conn dc)}) (\<lambda>e _. F \<and> e = OutOfFuel) w)"

lemma closed_body:
  assumes "data_body F body Q" and "connected w"
  shows "wp (deferred (closeData net dc) (body dc))
    (\<lambda>a w'. conn_step w w' \<and> Q a \<and> live (hist w') = live (hist w) - {sock (Conn dc)}) (\<lambda>e _. F \<and> e = OutOfFuel) w"
proof -
  have "wp (body dc) (\<lambda>a w'. conn_step w w' \<and> Q a \<and>
      live (hist w') - {sock (Conn dc)} = live (hist w) - {sock (Conn dc)}) (\<lambda>e _. F \<and> e = OutOfFuel) w"
    using assms by (simp add: data_body_def)
  then show ?thesis
    unfolding wp_deferred
    by (rule wp_mono) (auto simp: closeData_def wp_simps Let_def conn_step_def)
qed

lemma got_data_body:
  assumes body: "data_body F body Q" and onGet: "\<And>e. ctl_ok (onGet e) (\<lambda>_. None)"
    and fail: "\<And>e. is_ftpError e \<Longrightarrow> Q (fail e)"
    and w: "connected w" and got: "got_data p w r w'"
  shows "wp (case r of Inl e \<Rightarrow> seq (onGet e) (\<lambda>_. ret (fail e)) | Inr dc \<Rightarrow> deferred (closeData net dc) (body dc))
    (\<lambda>a w'. releases {prepHandle p} w w' \<and> Q a) (\<lambda>e _. F \<and> e = OutOfFuel) w'"
proof -
  from got have w': "connected w'" "conn_step w w'" using w by (auto simp: got_data_def intro: conn_step_connected)
  show ?thesis
  proof (cases r)
    case (Inl e)
    have "wp (onGet e) (\<lambda>_ w''. releases {prepHandle p} w w'' \<and> Q (fail e)) (\<lambda>e _. F \<and> e = OutOfFuel) w'"
    proof (rule wp_mono [OF ctl_okD [OF onGet w'(1)]])
      fix u w'' assume "ctl_step w' w'' \<and> (\<forall>e. None = Some e \<longrightarrow> is_ftpError e)"
      then have "conn_step w' w''" "live (hist w'') = live (hist w')"
        using ctl_step_releases [of w' w''] by (simp_all add: releases_def)
      with got Inl fail show "releases {prepHandle p} w w'' \<and> Q (fail e)"
        by (auto simp: got_data_def releases_def intro: conn_step_trans [OF w'(2)])
    qed simp
    then show ?thesis unfolding Inl sum.case wp_seq by (rule wp_mono) (simp_all add: wp_ret)
  next
    case (Inr dc)
    have "wp (deferred (closeData net dc) (body dc))
        (\<lambda>a w'. releases {prepHandle p} w w' \<and> Q a) (\<lambda>e _. F \<and> e = OutOfFuel) w'"
      by (rule wp_mono [OF closed_body [OF body w'(1)]])
        (use got Inr in \<open>auto simp: got_data_def releases_def intro: conn_step_trans [OF w'(2)]\<close>)
    with Inr show ?thesis by simp
  qed
qed

lemma dataCommand_contract:
  assumes send: "ctl_ok send (\<lambda>err. err)" and onGet: "\<And>e. ctl_ok (onGet e) (\<lambda>_. None)"
    and body: "data_body F body Q" and fail: "\<And>e. is_ftpError e \<Longrightarrow> Q (fail e)"
    and w: "connected w"
  shows "wp (dataCommand net p send fail onGet body)
    (\<lambda>a w'. releases {prepHandle p} w w' \<and> Q a) (\<lambda>e _. F \<and> e = OutOfFuel) w"
proof -
  let ?body = "seq (inner send) (\<lambda>err. case err of
          Some e \<Rightarrow> ret (fail e)
        | None \<Rightarrow>
            seq (getData net p) (\<lambda>r. case r of
              Inl e \<Rightarrow> inner (seq (onGet e) (\<lambda>_. ret (fail e)))
            | Inr dc \<Rightarrow> inner (deferred (closeData net dc) (body dc))))"
  let ?done = "\<lambda>a s. releases (if snd s then {prepHandle p} else {}) w (fst s) \<and> Q a"
  have get: "wp (getData net p) (\<lambda>r. wp (case r of
        Inl e \<Rightarrow> inner (seq (onGet e) (\<lambda>_. ret (fail e)))
      | Inr dc \<Rightarrow> inner (deferred (closeData net dc) (body dc))) ?done (\<lambda>e _. F \<and> e = OutOfFuel)) never (w', False)"
    if step: "ctl_step w w'" for w'
  proof (rule wp_mono [OF getData_contract], goal_cases)
    case (1 r s)
    from step w have w': "connected w'" "releases {} w w'" by (auto intro: ctl_step_connected ctl_step_releases)
    from 1 have "got_data p w' r (fst s)" "snd s" by simp_all
    from got_data_body [where net = net and fail = fail, OF body onGet fail w'(1) this(1)]
    have "wp (case r of Inl e \<Rightarrow> seq (onGet e) (\<lambda>_. ret (fail e)) | Inr dc \<Rightarrow> deferred (closeData net dc) (body dc))
        (\<lambda>a v. ?done a (v, snd s)) (\<lambda>e _. F \<and> e = OutOfFuel) (fst s)"
      by (rule wp_mono) (use \<open>snd s\<close> releases_trans [OF w'(2)] in auto)
    then show ?case by (cases r) (simp_all add: wp_inner)
  qed simp
  have "wp ?body ?done (\<lambda>e _. F \<and> e = OutOfFuel) (w, False)"
    unfolding wp_seq [of "inner send"] wp_inner
  proof (rule wp_mono [OF ctl_okD [OF send]], goal_cases)
    case (2 err w')
    show ?case
    proof (cases err)
      case None
      have "ctl_step w w'" using 2 by simp
      from wp_mono [OF get [OF this]] show ?thesis unfolding None option.case wp_seq by (simp only: fst_conv snd_conv)
    qed (use 2 fail in \<open>simp add: wp_ret ctl_step_releases\<close>)
  qed (simp_all add: w)
  then show ?thesis
    unfolding dataCommand_def wp_withCell wp_deferred
  proof (rule wp_mono, goal_cases)
    case (1 a s)
    show ?case
      by (rule wp_mono [OF abortData_contract])
        (use 1 releases_trans [of "if snd s then {prepHandle p} else {}" w "fst s"
            "if snd s then {} else {prepHandle p}"] in \<open>auto split: if_splits\<close>)
  qed auto
qed

section \<open>Addresses in replies\<close>

lemma octet_plain: "c \<in> set (octet b) \<Longrightarrow> c \<notin> {CHR '','', CHR ''('', CHR '')'', CHR ''|''}"
  using octet_digits [of c b] by (auto simp: is_digit_def)

lemma Atoi_octet: "Atoi (octet b) = Inr (uint b)"
  unfolding octet_def
proof (rule Atoi_Itoa)
  show "uint b < 2 ^ 63" using unsigned_less [of b, where 'a = int] by simp
qed (rule order.trans [of _ 0], simp_all)

lemma push_bit_or_int:
  fixes x y :: int
  assumes "0 \<le> y" "y < 256"
  shows "push_bit 8 x OR y = 256 * x + y"
proof -
  have "take_bit 8 y = y" using assms by (simp add: take_bit_int_eq_self)
  then have "\<not> bit (push_bit 8 x) n \<or> \<not> bit y n" for n
    by (metis bit_push_bit_iff bit_take_bit_iff not_less)
  then have "push_bit 8 x + y = push_bit 8 x OR y" by (rule disjunctive_add)
  then show ?thesis by (simp add: push_bit_eq_mult)
qed

lemma pasvPort_octets: "pasvPort (uint (a :: 8 word)) (uint (b :: 8 word)) = 256 * uint a + uint b"
proof -
  have b: "0 \<le> uint b" "uint b < 256" using unsigned_less [of b, where 'a = int] by simp_all
  have a: "0 \<le> uint a" "uint a < 256" using unsigned_less [of a, where 'a = int] by simp_all
  have "(push_bit 8 (word_of_int (uint a)) OR word_of_int (uint b) :: 64 word) =
      word_of_int (push_bit 8 (uint a) OR uint b)"
    by (simp only: push_bit_of_int of_int_or_eq)
  also have "\<dots> = word_of_int (256 * uint a + uint b)" using push_bit_or_int [OF b, of "uint a"] by simp
  finally have "pasvPort (uint a) (uint b) = signed_take_bit 63 (256 * uint a + uint b)"
    unfolding pasvPort_def by (simp only: sint_sbintrunc' len_num1 len_bit0) simp
  also have "\<dots> = 256 * uint a + uint b"
    using a b by (intro signed_take_bit_int_eq_self) (auto intro: order.trans [of _ 0])
  finally show ?thesis .
qed

lemma slice_between:
  "GoStrings.slice (a @ c # m @ d # z) (int (length a) + 1) (int (length a) + 1 + int (length m)) = m"
  by (simp add: GoStrings.slice_def nat_add_distrib)

text \<open>C30. The address in a reply to \<^verbatim>\<open>PASV\<close> is read back as it was written: four octets and a port, as
  \<^verbatim>\<open>(h1,h2,h3,h4,p1,p2)\<close> anywhere in the text of the reply, give the dotted address and the port
  \<^verbatim>\<open>256 * p1 + p2\<close>.\<close>

theorem pasvAddr_reads_address:
  assumes "CHR ''('' \<notin> set pre" and "CHR '')'' \<notin> set post"
  shows "pasvAddr (pre @ ''('' @ Join (map octet [h1, h2, h3, h4, p1, p2]) '','' @ '')'' @ post) =
    Inr (Join (map octet [h1, h2, h3, h4]) ''.'' @ '':'' @ Itoa (256 * uint p1 + uint p2))"
proof -
  define m where "m = Join (map octet [h1, h2, h3, h4, p1, p2]) '',''"
  define msg where "msg = pre @ ''('' @ m @ '')'' @ post"
  have m: "Split m '','' = map octet [h1, h2, h3, h4, p1, p2]"
    unfolding m_def by (rule Split_Join) (use octet_plain in auto)
  have i: "Index msg ''('' = int (length pre)"
    using Index_char [OF assms(1), of "m @ '')'' @ post"] by (simp add: msg_def)
  have j: "LastIndex msg '')'' = int (length pre) + 1 + int (length m)"
    using LastIndex_char [OF assms(2), of "pre @ ''('' @ m"] by (simp add: msg_def)
  have s: "GoStrings.slice msg (int (length pre) + 1) (int (length pre) + 1 + int (length m)) = m"
    using slice_between [of pre "CHR ''(''" m "CHR '')''" post] by (simp add: msg_def)
  have host: "JoinHostPort (Join (map octet [h1, h2, h3, h4]) ''.'') port =
      Join (map octet [h1, h2, h3, h4]) ''.'' @ '':'' @ port" for port
    using octet_digits dot_not_digit(2) by (auto simp: JoinHostPort_def)
  have "pasvAddr msg = Inr (Join (map octet [h1, h2, h3, h4]) ''.'' @ '':'' @ Itoa (256 * uint p1 + uint p2))"
    unfolding pasvAddr_def Let_def i j s m
    using ParseIP_octets [of h1 h2 h3 h4] ipString_v4 [of "[h1, h2, h3, h4]"] host
    by (simp add: Atoi_octet pasvPort_octets)
  then show ?thesis by (simp add: msg_def m_def)
qed

theorem pasvAddr_reads_address_witness:
  "pasvAddr (''Entering Passive Mode '' @ ''('' @ Join (map octet [162, 138, 208, 11, 223, 57]) '','' @ '')'' @ ''.'') =
    Inr (Join (map octet [162, 138, 208, 11]) ''.'' @ '':'' @ Itoa (256 * uint (223 :: 8 word) + uint (57 :: 8 word)))"
  by (rule pasvAddr_reads_address) simp_all

text \<open>The port in a reply to \<^verbatim>\<open>EPSV\<close> is read back as it was written.\<close>

theorem epsvPort_reads_port:
  assumes "CHR ''|'' \<notin> set pre" and "CHR ''|'' \<notin> set post" and "0 \<le> port" and "port < 2 ^ 16"
  shows "epsvPort (pre @ ''|||'' @ Itoa port @ ''|'' @ post) = Inr port"
proof -
  let ?msg = "pre @ ''|||'' @ Itoa port @ ''|'' @ post"
  have i: "Index ?msg ''|||'' = int (length pre)"
    using assms(1) by (induction pre) (auto simp: HasPrefix_def)
  have j: "LastIndex ?msg ''|'' = int (length pre) + 3 + int (length (Itoa port))"
    using LastIndex_char [OF assms(2), of "pre @ ''|||'' @ Itoa port"] by simp
  have s: "GoStrings.slice ?msg (int (length pre) + 3) (int (length pre) + 3 + int (length (Itoa port))) = Itoa port"
    by (simp add: GoStrings.slice_def nat_add_distrib)
  have "Atoi (Itoa port) = Inr port" using assms(3,4) by (intro Atoi_Itoa) simp_all
  then show ?thesis unfolding epsvPort_def Let_def i j s by simp
qed

theorem epsvPort_reads_port_witness:
  "epsvPort (''Entering Extended Passive Mode ('' @ ''|||'' @ Itoa 6446 @ ''|'' @ '')'') = Inr 6446"
  by (rule epsvPort_reads_port) simp_all

section \<open>TLS on the data channel\<close>

lemma prepareDataConn_tls:
  assumes w: "connected w" and addr: "ActiveListenAddr (config (pconn w)) \<noteq> []"
    and tls: "TLSConfig (config (pconn w)) \<noteq> None"
  shows "wp (prepareDataConn net) (\<lambda>r w'. prep_ok w r w' \<and> (\<forall>c. r = Inr (Passive c) \<longrightarrow> is_tls c)) never w"
proof -
  have up: "wp (seq (debug f as) (\<lambda>_. seq (io (dial net cfg ''tcp'' a)) (\<lambda>r. case r of
             Inl e \<Rightarrow> ret (Inl (FtpError (Some e) 0 [] False (isTemporary e)))
           | Inr dc \<Rightarrow>
               if TLSConfig cfg = None then ret (Inr (Passive dc))
               else
                 seq (debug ''upgrading data connection to TLS'' []) (\<lambda>_.
                 seq (gets (\<lambda>w. dataChannelTLSConfig (pconn w))) (\<lambda>tcfg.
                 ret (Inr (Passive (tlsClient dc tcfg)))))))) (\<lambda>r _. \<forall>c. r = Inr (Passive c) \<longrightarrow> is_tls c) (\<lambda>_ _. True) u"
    if cfg: "TLSConfig (config (pconn u)) = TLSConfig cfg" "TLSConfig cfg \<noteq> None" for u f as cfg a
  proof -
    obtain t where "dataChannelTLSConfig (pconn u) = Some t"
      using dataChannelTLSConfig_some [of "pconn u"] cfg by metis
    with cfg(2) show ?thesis
      by (simp add: wp_simps dial_def Let_def tlsClient_def split: option.split)
  qed
  have "wp (prepareDataConn net) (\<lambda>r _. \<forall>c. r = Inr (Passive c) \<longrightarrow> is_tls c) (\<lambda>_ _. True) w"
  proof (cases "ActiveTransfers (config (pconn w))")
    case True
    with w addr show ?thesis
      unfolding prepareDataConn_def wp_seq wp_gets wp_if
      by (simp, intro wp_mono [OF listenActive_contract]) (auto simp: wp_ret split: sum.split)
  next
    case False
    then show ?thesis
      unfolding prepareDataConn_def wp_seq [of "gets _"] wp_gets wp_if
      by (simp add: wp_seq [of "requestPassive net"], intro wp_mono [OF ctl_okD [OF ctl_ok_requestPassive w]])
        (use tls in \<open>auto simp: wp_ret ctl_step_def split: sum.split intro!: up\<close>)
  qed
  with prepareDataConn_contract [OF w addr, of net] show ?thesis
    by (auto simp: wp_def split: out.splits)
qed

lemma getData_tls:
  assumes "\<And>c. p = Passive c \<Longrightarrow> is_tls c" and "TLSConfig (config (pconn w)) \<noteq> None"
  shows "wp (getData net p) (\<lambda>r _. \<forall>dc. r = Inr dc \<longrightarrow> is_tls (Conn dc)) (\<lambda>_ _. True) (w, b)"
proof -
  obtain t where t: "dataChannelTLSConfig (pconn w) = Some t" using dataChannelTLSConfig_some assms(2) by blast
  show ?thesis
  proof (cases p)
    case (Active l)
    with t assms(2) show ?thesis
      by (auto simp: getData_def acceptData_def logClose_def setDataConn_def wp_simps Let_def tlsServer_def
          split: option.split)
  next
    case (Passive c)
    with assms(1) show ?thesis
      by (auto simp: getData_def handshakeData_def setDataConn_def wp_simps Let_def split: conn.split option.split)
  qed
qed

text \<open>C13. With a \<open>TLSConfig\<close>, a data connection that is handed over is a TLS connection, whether it was
  dialled or accepted.\<close>

theorem data_connection_uses_tls:
  assumes w: "connected w" and addr: "ActiveListenAddr (config (pconn w)) \<noteq> []"
    and tls: "TLSConfig (config (pconn w)) \<noteq> None"
    and run: "prepareDataConn net w = Ret (Inr p) w1" "getData net p (w1, b) = Ret (Inr dc) s"
  shows "is_tls (Conn dc)"
proof -
  from wp_RetD [OF prepareDataConn_tls [OF w addr tls] run(1)]
  have p: "conn_step w w1" "\<And>c. p = Passive c \<Longrightarrow> is_tls c" by (simp_all add: prep_ok_def)
  with tls have "TLSConfig (config (pconn w1)) \<noteq> None" by (simp add: conn_step_def)
  from wp_RetD [OF getData_tls [OF p(2) this] run(2)] show ?thesis by simp
qed

definition sampleTLSWorld :: pworld where
  "sampleTLSWorld = \<lparr>pconn = sampleConn\<lparr>config := sampleConfig\<lparr>TLSConfig :=
     Some \<lparr>ServerName = [], ClientSessionCache = None, InsecureSkipVerify = False\<rparr>\<rparr>\<rparr>,
     hist = [EvDial ''10.0.0.2:21'' None]\<rparr>"

theorem data_connection_uses_tls_witness:
  "\<exists>p w1 dc s. prepareDataConn (scripted (\<lambda>_. [''229 ok (|||6446|)'']) []) sampleTLSWorld = Ret (Inr p) w1 \<and>
    getData (scripted (\<lambda>_. [''229 ok (|||6446|)'']) []) p (w1, False) = Ret (Inr dc) s \<and> is_tls (Conn dc)"
proof -
  let ?net = "scripted (\<lambda>_. [''229 ok (|||6446|)'']) []"
  have ok: "connected sampleTLSWorld" "ActiveListenAddr (config (pconn sampleTLSWorld)) \<noteq> []"
    "TLSConfig (config (pconn sampleTLSWorld)) \<noteq> None"
    by (simp_all add: sampleTLSWorld_def sampleConn_def sampleConfig_def connected_def zeroConfig_def)
  have port: "epsvPort ''ok (|||6446|)'' = Inr 6446"
    by (simp add: epsvPort_def HasPrefix_def GoStrings.slice_def Atoi_def ParseInt_def ParseUint_def is_digit_def digit_def)
  have resp: "responseOf [''229 ok (|||6446|)''] EOF = ((229, ''ok (|||6446|)'', None), 1)"
    by (simp add: responseOf_def parseCodeLine_def Atoi_def ParseInt_def ParseUint_def is_digit_def digit_def)
  have "wp (prepareDataConn ?net) (\<lambda>r w1. \<exists>p. r = Inr p \<and>
      wp (getData ?net p) (\<lambda>r _. \<exists>dc. r = Inr dc) never (w1, False)) never sampleTLSWorld"
    by (simp add: prepareDataConn_def requestPassive_def sendCommand_def readResponse_def getData_def handshakeData_def
        setDataConn_def dial_def wp_simps sampleTLSWorld_def sampleConn_def sampleConfig_def zeroConfig_def scripted_def
        Let_def resp port reply_code_defs SplitHostPort_def HasPrefix_def Sprintf_def tlsClient_def dataChannelTLSConfig_def)
  then obtain p w1 dc s where run: "prepareDataConn ?net sampleTLSWorld = Ret (Inr p) w1"
    "getData ?net p (w1, False) = Ret (Inr dc) s" by (fastforce dest!: wp_never_returns)
  from data_connection_uses_tls [OF ok run] run show ?thesis by blast
qed

section \<open>A listener that is not released\<close>

lemma announce_keeps_listener:
  assumes "connected w" "l \<in> live (hist w)"
  shows "wp (seq (announce net lh ip port) (\<lambda>err. case err of Some e \<Rightarrow> ret (Inl e) | None \<Rightarrow> ret (Inr m)))
    (\<lambda>_ w'. l \<in> live (hist w')) never w"
  unfolding wp_seq
  by (rule wp_mono [OF ctl_okD [OF ctl_ok_announce assms(1)]])
    (use assms(2) in \<open>auto simp: wp_ret ctl_step_def dest!: same_socks_live split: option.split\<close>)

text \<open>C36. In active mode, an error after the listener was opened (its address cannot be read, or the
  server refuses \<^verbatim>\<open>PORT\<close> or \<^verbatim>\<open>EPRT\<close>) is returned without closing the listener: the socket stays open and
  nothing refers to it any more.\<close>

theorem listenActive_leaks_listener:
  assumes w: "connected w" and addr: "ActiveListenAddr (config (pconn w)) \<noteq> []"
    and loc: "\<And>h s. \<exists>p. SplitHostPort (net_localAddr net h s) = Inr p"
    and net: "\<And>h a. \<exists>b. net_resolveTCP net h a = Inr b" "\<And>h a. \<exists>b. net_listen net h a = Inr b"
    and fresh: "Suc (length (hist w)) \<notin> set (closed_socks (hist w))"
    and run: "listenActive net w = Ret (Inl e) w'"
  shows "Suc (length (hist w)) \<in> live (hist w') - live (hist w)"
proof -
  from w obtain c where c: "controlConn (pconn w) = Some c" by (auto simp: connected_def)
  have some: "(activeAddr (ActiveListenAddr (config (pconn w))) a b d = None) = False" for a b d
    using addr by (simp add: activeAddr_def)
  have new: "Suc (length (hist w)) \<in> live (EvListen a (Inr b) # EvResolve d # hist w)" for a b d
    using fresh by (simp add: live_def)
  obtain lh lp where lp: "SplitHostPort (net_localAddr net (hist w) (sock c)) = Inr (lh, lp)" using loc by fastforce
  have "wp (listenActive net) (\<lambda>_ w'. Suc (length (hist w)) \<in> live (hist w')) never w"
  proof -
    obtain a where a: "activeAddr (ActiveListenAddr (config (pconn w))) (net_localAddr net (hist w) (sock c)) lh lp = Some a"
      using some by (meson option.exhaust)
    obtain b where b: "net_resolveTCP net (hist w) a = Inr b" using net(1) by blast
    obtain la where la: "net_listen net (EvResolve a # hist w) b = Inr la" using net(2) by blast
    show ?thesis
      unfolding listenActive_def wp_withControl c option.case using w new
      by (auto simp: wp_seq [of "io _"] wp_seq [of "gets _"] wp_seq [of "debug _ _"] wp_gets wp_io wp_ret
          wp_debug wp_ResolveTCPAddr wp_ListenTCP Let_def lp a b la connected_def
          split: sum.split prod.split option.split intro!: announce_keeps_listener)
  qed
  from wp_RetD [OF this run] have "Suc (length (hist w)) \<in> live (hist w')" .
  moreover have "Suc (length (hist w)) \<notin> live (hist w)" using opened_less by (force simp: live_def)
  ultimately show ?thesis by simp
qed

theorem listenActive_leaks_listener_witness:
  "\<exists>e w'. listenActive (scripted (\<lambda>_. [''500 no'']) []) sampleWorld = Ret (Inl e) w' \<and>
    Suc (length (hist sampleWorld)) \<in> live (hist w') - live (hist sampleWorld)"
proof -
  let ?net = "scripted (\<lambda>_. [''500 no'']) []"
  have w: "connected sampleWorld" "ActiveListenAddr (config (pconn sampleWorld)) \<noteq> []"
    "Suc (length (hist sampleWorld)) \<notin> set (closed_socks (hist sampleWorld))"
    by (simp_all add: sampleWorld_def sampleConn_def sampleConfig_def connected_def zeroConfig_def)
  have loc: "SplitHostPort ''10.0.0.1:4000'' = Inr (''10.0.0.1'', ''4000'')"
    "SplitHostPort ''10.0.0.1:5001'' = Inr (''10.0.0.1'', ''5001'')"
    by (simp_all add: SplitHostPort_def HasPrefix_def)
  have resp: "responseOf [''500 no''] EOF = ((500, ''no'', None), 1)"
    by (simp add: responseOf_def parseCodeLine_def Atoi_def ParseInt_def ParseUint_def is_digit_def digit_def)
  have port: "Atoi ''5001'' = Inr 5001"
    by (simp add: Atoi_def ParseInt_def ParseUint_def is_digit_def digit_def)
  have oct: "Join (map octet [10, 0, 0, 1]) ''.'' = ''10.0.0.1''"
    by code_simp
  have ip: "ParseIP ''10.0.0.1'' = Some (v4InV6Prefix @ [10, 0, 0, 1])"
    using ParseIP_octets [of 10 0 0 1] by (simp only: oct)
  have "wp (listenActive ?net) (\<lambda>r _. \<exists>e. r = Inl e) never sampleWorld"
    by (simp add: listenActive_def announce_def sendCommandExpected_def sendCommand_def readResponse_def wp_simps
        sampleWorld_def sampleConn_def sampleConfig_def zeroConfig_def scripted_def Let_def resp port ip To4_v4
        loc activeAddr_def JoinHostPort_def reply_code_defs replyOk_def)
  then obtain e w' where run: "listenActive ?net sampleWorld = Ret (Inl e) w'" by (auto dest!: wp_never_returns)
  have net: "\<exists>b. net_resolveTCP ?net h a = Inr b" "\<exists>b. net_listen ?net h a = Inr b"
    "\<exists>p. SplitHostPort (net_localAddr ?net h s) = Inr p" for h a s by (simp_all add: scripted_def loc)
  from listenActive_leaks_listener [OF w(1,2) net(3,1,2) w(3) run] run show ?thesis by blast
qed

section \<open>The session cache in implicit mode\<close>

fun uncached :: "conn \<Rightarrow> bool" where
  "uncached (TLSClient _ t) = (ClientSessionCache t = None)"
| "uncached _ = False"

lemma DialWithDialer_uncached:
  assumes "ClientSessionCache t = None"
  shows "wp (DialWithDialer net tmo nw a t) (\<lambda>r _. pred_sum (\<lambda>_. True) uncached r) never h"
  unfolding DialWithDialer_def wp_seq [of "DialTimeout _ _ _ _"] wp_DialTimeout Let_def
  using assms by (cases "net_dialTimeout net h nw a tmo") (simp_all add: wp_simps Let_def split: option.split)

text \<open>C39. In implicit mode the control connection is opened with the caller's \<open>TLSConfig\<close> as it is. When that has
  no session cache, the control connection has none, while the data connections use the client's cache:
  there is no session for them to resume.\<close>

theorem implicit_control_has_no_session_cache:
  assumes tls: "TLSConfig cfg = Some t" "TLSMode cfg = TLSImplicit" "ClientSessionCache t = None"
    and run: "connectControl net cfg a w = Ret (Inr c) w'" and pc: "config pc = cfg"
  shows "(\<exists>raw t'. c = TLSClient raw t' \<and> ClientSessionCache t' = None) \<and>
    (\<exists>t''. dataChannelTLSConfig pc = Some t'' \<and> ClientSessionCache t'' = Some (sessionCache pc))"
proof
  have "wp (connectControl net cfg a) (\<lambda>r _. pred_sum (\<lambda>_. True) uncached r) never w"
    using tls by (simp add: connectControl_def wp_seq wp_debug wp_if wp_io wp_callDialFunc wp_case_sum wp_ret wp_Handshake
        wp_case_option wp_closeConn DialWithDialer_uncached Let_def split: option.split)
  from wp_RetD [OF this run] have "uncached c" by simp
  then show "\<exists>raw t'. c = TLSClient raw t' \<and> ClientSessionCache t' = None" by (cases c) auto
  show "\<exists>t''. dataChannelTLSConfig pc = Some t'' \<and> ClientSessionCache t'' = Some (sessionCache pc)"
    using tls pc by (simp add: dataChannelTLSConfig_def Let_def)
qed

theorem implicit_control_has_no_session_cache_witness:
  "\<exists>c w'. connectControl (scripted (\<lambda>_. []) []) (config (pconn sampleTLSWorld)\<lparr>TLSMode := TLSImplicit\<rparr>)
      ''10.0.0.2:990'' sampleTLSWorld = Ret (Inr c) w' \<and>
    (\<exists>raw t'. c = TLSClient raw t' \<and> ClientSessionCache t' = None) \<and>
    (\<exists>t''. dataChannelTLSConfig (sampleConn\<lparr>config := config (pconn sampleTLSWorld)\<lparr>TLSMode := TLSImplicit\<rparr>\<rparr>) = Some t'' \<and>
       ClientSessionCache t'' = Some (sessionCache (sampleConn\<lparr>config := config (pconn sampleTLSWorld)\<lparr>TLSMode := TLSImplicit\<rparr>\<rparr>)))"
proof -
  let ?cfg = "config (pconn sampleTLSWorld)\<lparr>TLSMode := TLSImplicit\<rparr>"
  let ?net = "scripted (\<lambda>_. []) []"
  have cfg: "TLSConfig ?cfg = Some \<lparr>ServerName = [], ClientSessionCache = None, InsecureSkipVerify = False\<rparr>"
    "TLSMode ?cfg = TLSImplicit"
    "ClientSessionCache \<lparr>ServerName = [], ClientSessionCache = None, InsecureSkipVerify = False\<rparr> = None"
    by (simp_all add: sampleTLSWorld_def)
  have "wp (connectControl ?net ?cfg ''10.0.0.2:990'') (\<lambda>r _. \<exists>c. r = Inr c) never sampleTLSWorld"
    by (simp add: connectControl_def DialWithDialer_def wp_simps Let_def sampleTLSWorld_def sampleConn_def
        sampleConfig_def zeroConfig_def scripted_def)
  then obtain c w' where run: "connectControl ?net ?cfg ''10.0.0.2:990'' sampleTLSWorld = Ret (Inr c) w'"
    by (auto dest!: wp_never_returns)
  from implicit_control_has_no_session_cache [OF cfg run, of "sampleConn\<lparr>config := ?cfg\<rparr>"] run
  show ?thesis by auto
qed

end
