(* ===== verification/ClientOps.thy ===== *)
theory ClientOps
  imports PoolOps DataChannel
begin

text \<open>
  The shape of the client's methods. Each method of \<open>Client\<close> takes a connection from the pool, works on it
  and gives it back (\<open>withIdle\<close>). The contract of such a method follows from the contract of its work on the
  connection (\<open>conn_ok\<close>) and from the interface of the pool, once and for all methods (\<open>withIdle_ok\<close>); methods
  that call other methods compose by \<open>cl_ok_seq\<close>.
\<close>

definition withIdle :: "net \<Rightarrow> (goerror \<Rightarrow> 'a) \<Rightarrow> ('a, pworld) go \<Rightarrow> ('a, client) go" where
  "withIdle net fail body = bracketed (getIdleConn net) returnConn fail (\<lambda>r. onConn r body)"

section \<open>Work on a connection\<close>

text \<open>
  Work on a connection keeps its identity, and in passive mode it leaves exactly the sockets that were open
  before (\<open>tidy\<close>). It never panics; \<open>F\<close> says whether it may run out of fuel.
\<close>

definition tidy :: "pworld \<Rightarrow> pworld \<Rightarrow> bool" where
  "tidy w w' \<longleftrightarrow> conn_step w w' \<and> (\<not> ActiveTransfers (config (pconn w)) \<longrightarrow> live (hist w') = live (hist w))"

definition usable :: "pworld \<Rightarrow> bool" where
  "usable w \<longleftrightarrow> connected w \<and> ActiveListenAddr (config (pconn w)) \<noteq> []"

definition conn_ok :: "bool \<Rightarrow> ('a, pworld) go \<Rightarrow> ('a \<Rightarrow> bool) \<Rightarrow> bool" where
  "conn_ok F m Q \<longleftrightarrow> (\<forall>w. usable w \<longrightarrow> wp m (\<lambda>a w'. tidy w w' \<and> Q a) (\<lambda>e _. F \<and> e = OutOfFuel) w)"

lemma conn_okI:
  "(\<And>w. usable w \<Longrightarrow> wp m (\<lambda>a w'. tidy w w' \<and> Q a) (\<lambda>e _. F \<and> e = OutOfFuel) w) \<Longrightarrow> conn_ok F m Q"
  by (simp add: conn_ok_def)

lemma conn_okD:
  "conn_ok F m Q \<Longrightarrow> usable w \<Longrightarrow> wp m (\<lambda>a w'. tidy w w' \<and> Q a) (\<lambda>e _. F \<and> e = OutOfFuel) w"
  by (simp add: conn_ok_def)

lemma tidy_refl [simp, intro]: "tidy w w"
  by (simp add: tidy_def)

lemma tidy_trans [trans]: "tidy w w' \<Longrightarrow> tidy w' w'' \<Longrightarrow> tidy w w''"
  by (auto simp: tidy_def conn_step_def)

lemma tidy_usable: "tidy w w' \<Longrightarrow> usable w \<Longrightarrow> usable w'"
  by (auto simp: tidy_def usable_def conn_step_def connected_def)

lemma ctl_step_tidy: "ctl_step w w' \<Longrightarrow> tidy w w'"
  using ctl_step_releases [of w w'] by (simp add: tidy_def releases_def)

lemma conn_ok_ret: "Q a \<Longrightarrow> conn_ok F (ret a) Q"
  by (simp add: conn_ok_def wp_ret)

lemma conn_ok_seq:
  assumes m: "conn_ok F m P" and f: "\<And>a. P a \<Longrightarrow> conn_ok F (f a) Q"
  shows "conn_ok F (seq m f) Q"
proof (rule conn_okI)
  fix w assume w: "usable w"
  show "wp (seq m f) (\<lambda>a w'. tidy w w' \<and> Q a) (\<lambda>e _. F \<and> e = OutOfFuel) w"
    unfolding wp_seq
  proof (rule wp_mono [OF conn_okD [OF m w]], goal_cases)
    case (1 a w')
    then have "usable w'" using w tidy_usable by blast
    from 1 have "conn_ok F (f a) Q" by (simp add: f)
    from conn_okD [OF this \<open>usable w'\<close>] show ?case by (rule wp_mono) (use 1 tidy_trans in blast)+
  qed
qed

text \<open>An operation of the control channel, with what its caller does with the result.\<close>

lemma conn_ok_ctl:
  assumes "ctl_ok m err"
  shows "conn_ok F m (\<lambda>a. \<forall>e. err a = Some e \<longrightarrow> is_ftpError e)"
proof (rule conn_okI)
  fix w assume "usable w"
  then have "connected w" by (simp add: usable_def)
  from ctl_okD [OF assms this]
  show "wp m (\<lambda>a w'. tidy w w' \<and> (\<forall>e. err a = Some e \<longrightarrow> is_ftpError e)) (\<lambda>e _. F \<and> e = OutOfFuel) w"
    by (rule wp_mono) (auto intro: ctl_step_tidy)
qed

lemma conn_ok_weaken: "conn_ok F m P \<Longrightarrow> (\<And>a. P a \<Longrightarrow> Q a) \<Longrightarrow> conn_ok F m Q"
  unfolding conn_ok_def by (blast intro: wp_mono)

text \<open>The commands that need a data connection.\<close>

definition withDataConn :: "net \<Rightarrow> (goerror option, pworld) go \<Rightarrow> (goerror \<Rightarrow> 'a) \<Rightarrow>
    (goerror \<Rightarrow> (unit, pworld) go) \<Rightarrow> (goerror \<Rightarrow> (unit, pworld) go) \<Rightarrow>
    (dataConn \<Rightarrow> ('a, pworld) go) \<Rightarrow> ('a, pworld) go" where
  "withDataConn net send fail onPrep onGet body =
     seq (prepareDataConn net) (\<lambda>r.
     case r of
       Inl e \<Rightarrow> seq (onPrep e) (\<lambda>_. ret (fail e))
     | Inr p \<Rightarrow> dataCommand net p send fail onGet body)"

lemma prep_tidy:
  assumes "prep_ok w (Inr p) w1" and "releases {prepHandle p} w1 w2"
  shows "tidy w w2"
  using assms by (auto simp: prep_ok_def releases_def tidy_def intro: conn_step_trans)

lemma withDataConn_ok:
  assumes send: "ctl_ok send (\<lambda>err. err)" and onPrep: "\<And>e. ctl_ok (onPrep e) (\<lambda>_. None)"
    and onGet: "\<And>e. ctl_ok (onGet e) (\<lambda>_. None)"
    and body: "data_body F body Q" and fail: "\<And>e. is_ftpError e \<Longrightarrow> Q (fail e)"
  shows "conn_ok F (withDataConn net send fail onPrep onGet body) Q"
proof (rule conn_okI)
  fix w assume "usable w"
  then have w: "connected w" "ActiveListenAddr (config (pconn w)) \<noteq> []" by (simp_all add: usable_def)
  show "wp (withDataConn net send fail onPrep onGet body) (\<lambda>a w'. tidy w w' \<and> Q a)
      (\<lambda>e _. F \<and> e = OutOfFuel) w"
    unfolding withDataConn_def wp_seq [of "prepareDataConn net"]
  proof (rule wp_mono [OF prepareDataConn_contract [OF w]], goal_cases)
    case (1 r w1)
    then have w1: "connected w1" using w(1) by (auto simp: prep_ok_def intro: conn_step_connected)
    show ?case
    proof (cases r)
      case (Inl e)
      with 1 have e: "is_ftpError e" "tidy w w1" by (simp_all add: prep_ok_def tidy_def)
      have "wp (onPrep e) (\<lambda>_ w'. tidy w w' \<and> Q (fail e)) (\<lambda>e _. F \<and> e = OutOfFuel) w1"
        by (rule wp_mono [OF ctl_okD [OF onPrep w1]]) (use e fail in \<open>auto intro: tidy_trans ctl_step_tidy\<close>)
      then show ?thesis unfolding Inl sum.case wp_seq wp_ret .
    next
      case (Inr p)
      have "wp (dataCommand net p send fail onGet body) (\<lambda>a w'. tidy w w' \<and> Q a) (\<lambda>e _. F \<and> e = OutOfFuel) w1"
        by (rule wp_mono [OF dataCommand_contract [OF send onGet body fail w1]])
          (use 1 Inr in \<open>auto intro: prep_tidy\<close>)
      with Inr show ?thesis by simp
    qed
  qed simp
qed

section \<open>Methods of the client\<close>

text \<open>
  A method of the client keeps the pool in order, whoever else holds connections. It does not panic; it blocks
  only when every slot is taken and no connection is free; and \<open>F\<close> says whether it may run out of fuel.
\<close>

definition cl_ok :: "bool \<Rightarrow> ('a, client) go \<Rightarrow> ('a \<Rightarrow> bool) \<Rightarrow> bool" where
  "cl_ok F m Q \<longleftrightarrow> (\<forall>L pend held c. pool_ok L pend held c \<longrightarrow>
     wp m (\<lambda>a c'. pool_ok L pend held c' \<and> Q a)
       (\<lambda>e c'. e = Blocked \<and> stuck L pend held c' \<or> F \<and> e = OutOfFuel) c)"

lemma cl_okI:
  "(\<And>L pend held c. pool_ok L pend held c \<Longrightarrow> wp m (\<lambda>a c'. pool_ok L pend held c' \<and> Q a)
      (\<lambda>e c'. e = Blocked \<and> stuck L pend held c' \<or> F \<and> e = OutOfFuel) c) \<Longrightarrow> cl_ok F m Q"
  by (simp add: cl_ok_def)

lemma cl_okD:
  "cl_ok F m Q \<Longrightarrow> pool_ok L pend held c \<Longrightarrow> wp m (\<lambda>a c'. pool_ok L pend held c' \<and> Q a)
      (\<lambda>e c'. e = Blocked \<and> stuck L pend held c' \<or> F \<and> e = OutOfFuel) c"
  by (simp add: cl_ok_def)

lemma cl_ok_ret: "Q a \<Longrightarrow> cl_ok F (ret a) Q"
  by (simp add: cl_ok_def wp_ret)

lemma cl_ok_gets: "cl_ok F (gets f) (\<lambda>_. True)"
  by (simp add: cl_ok_def wp_gets)

lemma cl_ok_debug: "cl_ok F (clDebug f as) (\<lambda>_. True)"
  by (simp add: cl_ok_def wp_clDebug)

lemma cl_ok_seq:
  assumes m: "cl_ok F m P" and f: "\<And>a. P a \<Longrightarrow> cl_ok F (f a) Q"
  shows "cl_ok F (seq m f) Q"
proof (rule cl_okI)
  fix L pend held c assume c: "pool_ok L pend held c"
  show "wp (seq m f) (\<lambda>a c'. pool_ok L pend held c' \<and> Q a)
      (\<lambda>e c'. e = Blocked \<and> stuck L pend held c' \<or> F \<and> e = OutOfFuel) c"
    unfolding wp_seq by (rule wp_mono [OF cl_okD [OF m c]]) (auto intro: cl_okD f)
qed

lemma cl_ok_weaken: "cl_ok F m P \<Longrightarrow> (\<And>a. P a \<Longrightarrow> Q a) \<Longrightarrow> cl_ok F m Q"
  unfolding cl_ok_def by (blast intro: wp_mono)

lemma pool_ok_onConn:
  assumes ok: "pool_ok L pend (r # held) c" and t: "tidy \<lparr>pconn = heap c r, hist = chist c\<rparr> w'"
  shows "pool_ok L pend (r # held) (c\<lparr>heap := (heap c)(r := pconn w'), chist := hist w'\<rparr>)"
proof (rule pool_okI)
  let ?c = "c\<lparr>heap := (heap c)(r := pconn w'), chist := hist w'\<rparr>"
  have pc: "host (pconn w') = host (heap c r)" "config (pconn w') = config (heap c r)"
    "map_option sock (controlConn (pconn w')) = map_option sock (controlConn (heap c r))"
    and lv: "ActiveTransfers (config (heap c r)) \<or> live (hist w') = live (chist c)"
    using t by (auto simp: tidy_def conn_step_def)
  have ctl: "ctl_socks (pconn w') = ctl_socks (heap c r)" "(controlConn (pconn w') = None) = (controlConn (heap c r) = None)"
    using pc(3) by (cases "controlConn (pconn w')"; cases "controlConn (heap c r)"; simp add: ctl_socks_def)+
  have cfg: "config (heap c r) = clConfig c" using pool_ok_conns [OF ok] by (simp add: conns_ok_def)
  show "pool_inv pend (r # held) ?c"
    by (rule pool_inv_cong [OF pool_ok_inv [OF ok]]) (simp_all add: pc)
  show "conns_ok (r # held) ?c"
    using pool_ok_conns [OF ok] pc ctl(2) by (auto simp: conns_ok_def)
  show "hosts_ok ?c" using pool_ok_hosts [OF ok] by (simp add: hosts_ok_def)
  have "ctl_socks (heap ?c s) = ctl_socks (heap c s)" for s using ctl(1) by simp
  then show "no_leak L (r # held) ?c"
    using pool_ok_leak [OF ok] lv cfg by (auto simp: no_leak_def)
qed

lemma withIdle_ok:
  assumes body: "conn_ok F body Q" and fail: "\<And>e. is_ftpError e \<Longrightarrow> Q (fail e)"
  shows "cl_ok F (withIdle net fail body) Q"
proof (rule cl_okI)
  fix L pend held c assume c: "pool_ok L pend held c"
  show "wp (withIdle net fail body) (\<lambda>a c'. pool_ok L pend held c' \<and> Q a)
      (\<lambda>e c'. e = Blocked \<and> stuck L pend held c' \<or> F \<and> e = OutOfFuel) c"
    unfolding withIdle_def
  proof (rule pool.bracket_returns [OF c])
    fix p s assume s: "pool_ok L pend (p # held) s"
    then have "usable \<lparr>pconn = heap s p, hist = chist s\<rparr>"
      by (simp add: usable_def connected_def pool_ok_def conns_ok_def)
    from conn_okD [OF body this]
    show "wp (onConn p body) (\<lambda>a s'. pool_ok L pend (p # held) s' \<and> Q a) (\<lambda>e _. F \<and> e = OutOfFuel) s"
      unfolding wp_onConn by (rule wp_mono) (auto intro: pool_ok_onConn [OF s])
  qed (rule fail)
qed

text \<open>With no connection held and no slot claimed by anyone else, nothing can block.\<close>

lemma not_stuck: "\<not> stuck L [] [] c"
proof
  assume s: "stuck L [] [] c"
  then have ok: "pool_ok L [] [] c" and free: "freeConnCh c = []" and full: "\<not> canOpen c"
    by (simp_all add: stuck_def)
  have "numOpenConns c = 0" using pool_total [OF pool_ok_inv [OF ok]] free by (simp add: units_def)
  with full pool_ok_hosts [OF ok] show False by (simp add: canOpen_def hosts_ok_def mult_le_0_iff)
qed

section \<open>The contract as an interface\<close>

locale client_method =
  fixes F :: bool and m :: "('a, client) go" and good :: "'a \<Rightarrow> bool"
  assumes method_ok: "cl_ok F m good"
begin

lemma no_panic: "pool_ok L pend held c \<Longrightarrow> m c \<noteq> Abn (Panicked msg) c'"
  using cl_okD [OF method_ok, of L pend held c] by (auto simp: wp_def)

lemma keeps_pool: "pool_ok L pend held c \<Longrightarrow> m c = Ret a c' \<Longrightarrow> pool_ok L pend held c' \<and> good a"
  using cl_okD [OF method_ok, of L pend held c] by (auto simp: wp_def)

lemma blocked: "pool_ok L pend held c \<Longrightarrow> m c = Abn Blocked c' \<Longrightarrow> stuck L pend held c'"
  using cl_okD [OF method_ok, of L pend held c] by (auto simp: wp_def)

text \<open>In passive mode a method leaves no socket open but those of the pool.\<close>

lemma leaves_no_socket:
  assumes "pool_ok L pend held c" "m c = Ret a c'" "\<not> ActiveTransfers (clConfig c')"
  shows "live (chist c') \<subseteq> L \<union> (\<Union>r \<in> set (freeConnCh c' @ held). ctl_socks (heap c' r))"
  using keeps_pool [OF assms(1,2)] assms(3) by (simp add: pool_ok_def no_leak_def)

lemma returns_or_fuel:
  assumes "pool_ok L [] [] c"
  shows "(\<exists>a c'. m c = Ret a c' \<and> pool_ok L [] [] c' \<and> good a) \<or> F \<and> (\<exists>c'. m c = Abn OutOfFuel c')"
  using cl_okD [OF method_ok assms] by (auto simp: wp_def not_stuck split: out.splits)

end

text \<open>A method whose loops cannot run out of fuel: a caller that is alone with the client always gets its answer.\<close>

locale terminating_method = client_method False m good for m :: "('a, client) go" and good
begin

lemma returns: "pool_ok L [] [] c \<Longrightarrow> \<exists>a c'. m c = Ret a c' \<and> pool_ok L [] [] c' \<and> good a"
  using returns_or_fuel by blast

end

end
