(* ===== verification/Regex.thy ===== *)
theory Regex
  imports GoNum
begin

text \<open>
  The regular expressions of the client, with the semantics of Go's package \<open>regexp\<close>: the match found is
  the first one a backtracking search would find. An expression is a tree, and the
  matcher is that search, in continuation-passing style: it tries the alternatives in their order and the
  greedy repetitions from the longest down. Repetition is needed for character classes only; groups of fixed
  count are written out. The captured groups are collected in an association list, a group that took
  no part in the match has no entry and reads as the empty string.
\<close>

datatype rx =
    Cls "char \<Rightarrow> bool"
  | Greedy "char \<Rightarrow> bool"
  | Lazy "char \<Rightarrow> bool"
  | Lit string
  | Then rx rx
  | Or rx rx
  | Cap nat rx
  | EndText

type_synonym caps = "(nat \<times> string) list"

fun lits :: "string \<Rightarrow> string \<Rightarrow> string option" where
  "lits [] s = Some s"
| "lits (c # cs) [] = None"
| "lits (c # cs) (d # t) = (if c = d then lits cs t else None)"

fun greedy :: "(char \<Rightarrow> bool) \<Rightarrow> string \<Rightarrow> (string \<Rightarrow> caps option) \<Rightarrow> caps option" where
  "greedy p [] k = k []"
| "greedy p (c # t) k =
     (if p c then (case greedy p t k of Some r \<Rightarrow> Some r | None \<Rightarrow> k (c # t)) else k (c # t))"

fun lazy :: "(char \<Rightarrow> bool) \<Rightarrow> string \<Rightarrow> (string \<Rightarrow> caps option) \<Rightarrow> caps option" where
  "lazy p [] k = k []"
| "lazy p (c # t) k =
     (case k (c # t) of Some r \<Rightarrow> Some r | None \<Rightarrow> if p c then lazy p t k else None)"

fun match :: "rx \<Rightarrow> string \<Rightarrow> caps \<Rightarrow> (string \<Rightarrow> caps \<Rightarrow> caps option) \<Rightarrow> caps option" where
  "match (Cls p) s cs k = (case s of [] \<Rightarrow> None | c # t \<Rightarrow> if p c then k t cs else None)"
| "match (Greedy p) s cs k = greedy p s (\<lambda>s'. k s' cs)"
| "match (Lazy p) s cs k = lazy p s (\<lambda>s'. k s' cs)"
| "match (Lit l) s cs k = (case lits l s of None \<Rightarrow> None | Some s' \<Rightarrow> k s' cs)"
| "match (Then a b) s cs k = match a s cs (\<lambda>s' cs'. match b s' cs' k)"
| "match (Or a b) s cs k = (case match a s cs k of Some r \<Rightarrow> Some r | None \<Rightarrow> match b s cs k)"
| "match (Cap n a) s cs k = match a s cs (\<lambda>s' cs'. k s' ((n, take (length s - length s') s) # cs'))"
| "match EndText s cs k = (if s = [] then k s cs else None)"

text \<open>An expression that starts with \<^verbatim>\<open>^\<close> is matched at the start of the text only.\<close>

definition FindStringSubmatch :: "rx \<Rightarrow> string \<Rightarrow> caps option" where
  "FindStringSubmatch r s = match r s [] (\<lambda>_ cs. Some cs)"

definition group :: "caps \<Rightarrow> nat \<Rightarrow> string" where
  "group cs n = (case map_of cs n of None \<Rightarrow> [] | Some s \<Rightarrow> s)"

text \<open>One or more characters of a class is one of them and then more of them.\<close>

abbreviation Plus :: "(char \<Rightarrow> bool) \<Rightarrow> rx" where
  "Plus p \<equiv> Then (Cls p) (Greedy p)"

section \<open>Character classes\<close>

definition rx_space :: "char \<Rightarrow> bool" where
  "rx_space c \<longleftrightarrow> c \<in> {CHR 0x09, CHR 0x0A, CHR 0x0C, CHR 0x0D, CHR '' ''}"

definition rx_nonspace :: "char \<Rightarrow> bool" where
  "rx_nonspace c \<longleftrightarrow> \<not> rx_space c"

definition rx_word :: "char \<Rightarrow> bool" where
  "rx_word c \<longleftrightarrow> is_digit c \<or> c = CHR ''_'' \<or>
     (65 \<le> (of_char c :: nat) \<and> (of_char c :: nat) \<le> 90) \<or> (97 \<le> (of_char c :: nat) \<and> (of_char c :: nat) \<le> 122)"

definition rx_any :: "char \<Rightarrow> bool" where
  "rx_any c \<longleftrightarrow> c \<noteq> CHR 0x0A"

section \<open>The matches a greedy search finds first\<close>

text \<open>
  When the whole run of a class can be taken and the rest of the expression matches after it, that is
  the match: no backtracking happens. These rules drive the proofs about well-formed listings.
\<close>

named_theorems rx_rules \<open>how an expression matches without backtracking\<close>

lemma greedy_run:
  assumes "list_all p a" "b = [] \<or> \<not> p (hd b)" "k b = Some r"
  shows "greedy p (a @ b) k = Some r"
  using assms
proof (induction a)
  case Nil
  then show ?case by (cases b) auto
next
  case (Cons c a)
  then show ?case by simp
qed

lemma lits_append [simp]: "lits l (l @ s) = Some s"
  by (induction l) simp_all

lemma match_Greedy:
  assumes "list_all p a" "b = [] \<or> \<not> p (hd b)" "k b cs = Some r"
  shows "match (Greedy p) (a @ b) cs k = Some r"
  using greedy_run [OF assms(1,2), of "\<lambda>s'. k s' cs"] assms(3) by simp

lemma match_Plus:
  assumes "a \<noteq> []" "list_all p a" "b = [] \<or> \<not> p (hd b)" "k b cs = Some r"
  shows "match (Plus p) (a @ b) cs k = Some r"
proof -
  from assms(1,2) obtain c a' where a: "a = c # a'" "p c" "list_all p a'" by (cases a) auto
  with match_Greedy [OF a(3) assms(3), of k cs r] assms(4) show ?thesis by simp
qed

lemma match_then_Plus [rx_rules]:
  assumes "match r b cs k = Some v" "a \<noteq> []" "list_all p a" "b = [] \<or> \<not> p (hd b)"
  shows "match (Then (Plus p) r) (a @ b) cs k = Some v"
  using match_Plus [OF assms(2-4), of "\<lambda>s' cs'. match r s' cs' k" cs v] assms(1) by simp

lemma match_then_cap_Plus [rx_rules]:
  assumes "match r b ((n, a) # cs) k = Some v" "a \<noteq> []" "list_all p a" "b = [] \<or> \<not> p (hd b)"
  shows "match (Then (Cap n (Plus p)) r) (a @ b) cs k = Some v"
  using match_Plus [OF assms(2-4), of "\<lambda>s' cs'. match r s' ((n, take (length (a @ b) - length s') (a @ b)) # cs') k" cs v]
    assms(1) by simp

lemma match_then_Greedy_none:
  assumes "match r s cs k = Some v" "s = [] \<or> \<not> p (hd s)"
  shows "match (Then (Greedy p) r) s cs k = Some v"
  using match_Greedy [of p "[]" s "\<lambda>s' cs'. match r s' cs' k" cs v] assms by simp

lemma match_then_cap_Cls:
  assumes "match r s ((n, [c]) # cs) k = Some v" "p c"
  shows "match (Then (Cap n (Cls p)) r) (c # s) cs k = Some v"
  using assms by simp

lemma match_then_cap_three:
  assumes "match r s ((n, [x, y, z]) # cs) k = Some v" "p x" "p y" "p z"
  shows "match (Then (Cap n (Then (Cls p) (Then (Cls p) (Cls p)))) r) (x # y # z # s) cs k = Some v"
  using assms by (simp add: Suc_diff_le numeral_3_eq_3)

text \<open>A captured sequence of three runs.\<close>

lemma match_then_cap_runs:
  assumes "match r d ((n, a @ b @ c) # cs) k = Some v"
    and "a \<noteq> []" "list_all p a" "\<not> p (hd b)" and "b \<noteq> []" "list_all q b" "\<not> q (hd c)"
    and "c \<noteq> []" "list_all o' c" "d = [] \<or> \<not> o' (hd d)"
  shows "match (Then (Cap n (Then (Plus p) (Then (Plus q) (Plus o')))) r) (a @ b @ c @ d) cs k = Some v"
proof -
  let ?k = "\<lambda>s' cs'. match r s' ((n, take (length (a @ b @ c @ d) - length s') (a @ b @ c @ d)) # cs') k"
  have c: "match (Plus o') (c @ d) cs ?k = Some v"
    by (rule match_Plus) (use assms in simp_all)
  have b: "match (Then (Plus q) (Plus o')) (b @ c @ d) cs ?k = Some v"
    by (rule match_then_Plus [OF c]) (use assms in simp_all)
  have "match (Then (Plus p) (Then (Plus q) (Plus o'))) (a @ b @ c @ d) cs ?k = Some v"
    by (rule match_then_Plus [OF b]) (use assms in simp_all)
  then show ?thesis by (simp only: match.simps)
qed

lemma match_cap_end:
  assumes "a \<noteq> []" "list_all p a" "k [] ((n, a) # cs) = Some v"
  shows "match (Then (Cap n (Plus p)) EndText) a cs k = Some v"
  using match_then_cap_Plus [of EndText "[]" n a cs k v p] assms by simp

text \<open>A search that starts anywhere, for the expressions without \<^verbatim>\<open>^\<close>.\<close>

fun search :: "rx \<Rightarrow> string \<Rightarrow> bool" where
  "search r [] = (match r [] [] (\<lambda>_ cs. Some cs) \<noteq> None)"
| "search r (c # t) = (match r (c # t) [] (\<lambda>_ cs. Some cs) \<noteq> None \<or> search r t)"

section \<open>The position of a port\<close>

text \<open>\<^verbatim>\<open>^[^:]+:\d+$|\]:\d+$\<close>\<close>

definition hasPort :: "string \<Rightarrow> bool" where
  "hasPort s =
     (match (Then (Plus (\<lambda>c. c \<noteq> CHR '':'')) (Then (Lit '':'') (Then (Plus is_digit) EndText))) s [] (\<lambda>_ cs. Some cs) \<noteq> None
      \<or> search (Then (Lit '']:'') (Then (Plus is_digit) EndText)) s)"

end
