(* ===== verification/TimeParse.thy ===== *)
theory TimeParse
  imports Errors
begin

text \<open>
  Go's \<open>time.ParseInLocation\<close> for the six layouts of the client. A layout is the list of its
  elements, as \<open>nextStdChunk\<close> cuts it; parsing consumes the value element by element, and checks the
  range of each field and of the day at the end. The result is the civil time with its location; the
  client only reads its month.
\<close>

record time =
  t_year :: int
  t_month :: int
  t_day :: int
  t_hour :: int
  t_min :: int
  t_sec :: int
  t_nsec :: int
  t_loc :: string

datatype chunk =
    Text string | StdMonth | StdUnderDay | StdZeroDay | StdZeroMonth | StdHour | StdHour12
  | StdZeroMinute | StdZeroSecond | StdLongYear | StdYear | StdPM

definition layoutLsShort :: "chunk list" where
  "layoutLsShort = [StdMonth, Text '' '', StdUnderDay, Text '' '', StdHour, Text '':'', StdZeroMinute]"

definition layoutLsFull :: "chunk list" where
  "layoutLsFull = layoutLsShort @ [Text '' '', StdLongYear]"

definition layoutLsYear :: "chunk list" where
  "layoutLsYear = [StdMonth, Text '' '', StdUnderDay, Text '' '', StdLongYear]"

definition layoutDos :: "chunk list \<Rightarrow> chunk list" where
  "layoutDos year = [StdZeroMonth, Text ''-'', StdZeroDay, Text ''-''] @ year @
     [Text '' '', StdHour12, Text '':'', StdZeroMinute, StdPM]"

definition layoutMLST :: "chunk list" where
  "layoutMLST = [StdLongYear, StdZeroMonth, StdZeroDay, StdHour, StdZeroMinute, StdZeroSecond]"

section \<open>Elements\<close>

text \<open>A space of the layout stands for any number of spaces, also for none at the end of the value.\<close>

fun skipText :: "string \<Rightarrow> string \<Rightarrow> string option" where
  "skipText [] value = Some value"
| "skipText (p # ps) value =
     (if p = CHR '' '' then
        (if value \<noteq> [] \<and> hd value \<noteq> CHR '' '' then None
         else skipText ps (dropWhile (\<lambda>c. c = CHR '' '') value))
      else if value = [] \<or> hd value \<noteq> p then None
      else skipText ps (tl value))"

definition getnum :: "string \<Rightarrow> bool \<Rightarrow> (int \<times> string) option" where
  "getnum s fixed =
     (case s of
        [] \<Rightarrow> None
      | a # t \<Rightarrow>
          if \<not> is_digit a then None
          else case t of
                 b # u \<Rightarrow> if is_digit b then Some (int (digit a) * 10 + int (digit b), u)
                          else if fixed then None else Some (int (digit a), t)
               | [] \<Rightarrow> if fixed then None else Some (int (digit a), []))"

definition shortMonthNames :: "string list" where
  "shortMonthNames = [''Jan'', ''Feb'', ''Mar'', ''Apr'', ''May'', ''Jun'', ''Jul'', ''Aug'', ''Sep'',
     ''Oct'', ''Nov'', ''Dec'']"

fun lookupMonth :: "int \<Rightarrow> string list \<Rightarrow> string \<Rightarrow> (int \<times> string) option" where
  "lookupMonth i [] s = None"
| "lookupMonth i (m # ms) s =
     (if length m \<le> length s \<and> EqualFold (take (length m) s) m then Some (i, drop (length m) s)
      else lookupMonth (i + 1) ms s)"

text \<open>The fields read so far; a field that was not read keeps its initial value.\<close>

record fields =
  f_year :: int
  f_month :: int
  f_day :: int
  f_hour :: int
  f_min :: int
  f_sec :: int
  f_nsec :: int
  f_pm :: bool
  f_am :: bool

definition noFields :: fields where
  "noFields = \<lparr>f_year = 0, f_month = -1, f_day = -1, f_hour = 0, f_min = 0, f_sec = 0, f_nsec = 0,
     f_pm = False, f_am = False\<rparr>"

definition in_range :: "int \<Rightarrow> int \<Rightarrow> int \<Rightarrow> bool" where
  "in_range lo hi n \<longleftrightarrow> lo \<le> n \<and> n \<le> hi"

text \<open>Digits after the seconds are a fraction even though the layout has none; nine of them count.\<close>

definition fraction :: "string \<Rightarrow> int \<times> string" where
  "fraction value =
     (case value of
        c # d # t \<Rightarrow>
          if (c = CHR ''.'' \<or> c = CHR '','') \<and> is_digit d then
            let ds = takeWhile is_digit (d # t);
                kept = take 9 ds;
                n = foldl (\<lambda>n c. 10 * n + int (digit c)) 0 kept
            in (n * 10 ^ (9 - length kept), dropWhile is_digit (d # t))
          else (0, value)
      | _ \<Rightarrow> (0, value))"

definition numField :: "string \<Rightarrow> bool \<Rightarrow> int \<Rightarrow> int \<Rightarrow> (int \<Rightarrow> fields \<Rightarrow> fields) \<Rightarrow> fields \<Rightarrow>
    (fields \<times> string) option" where
  "numField value fixed lo hi upd f =
     (case getnum value fixed of
        None \<Rightarrow> None
      | Some (n, rest) \<Rightarrow> if in_range lo hi n then Some (upd n f, rest) else None)"

definition digitsVal :: "string \<Rightarrow> int" where
  "digitsVal ds = foldl (\<lambda>n c. 10 * n + int (digit c)) 0 ds"

definition parseChunk :: "chunk \<Rightarrow> string \<Rightarrow> fields \<Rightarrow> (fields \<times> string) option" where
  "parseChunk ch value f =
     (case ch of
        Text t \<Rightarrow> map_option (\<lambda>v. (f, v)) (skipText t value)
      | StdMonth \<Rightarrow> map_option (\<lambda>(n, v). (f\<lparr>f_month := n\<rparr>, v)) (lookupMonth 1 shortMonthNames value)
      | StdZeroMonth \<Rightarrow> numField value True 1 12 (\<lambda>n f. f\<lparr>f_month := n\<rparr>) f
      | StdUnderDay \<Rightarrow>
          numField (if value \<noteq> [] \<and> hd value = CHR '' '' then tl value else value) False 0 99
            (\<lambda>n f. f\<lparr>f_day := n\<rparr>) f
      | StdZeroDay \<Rightarrow> numField value True 0 99 (\<lambda>n f. f\<lparr>f_day := n\<rparr>) f
      | StdHour \<Rightarrow> numField value False 0 23 (\<lambda>n f. f\<lparr>f_hour := n\<rparr>) f
      | StdHour12 \<Rightarrow> numField value False 0 12 (\<lambda>n f. f\<lparr>f_hour := n\<rparr>) f
      | StdZeroMinute \<Rightarrow> numField value True 0 59 (\<lambda>n f. f\<lparr>f_min := n\<rparr>) f
      | StdZeroSecond \<Rightarrow>
          map_option (\<lambda>(f, v). case fraction v of (ns, v') \<Rightarrow> (f\<lparr>f_nsec := ns\<rparr>, v'))
            (numField value True 0 59 (\<lambda>n f. f\<lparr>f_sec := n\<rparr>) f)
      | StdLongYear \<Rightarrow>
          if length value < 4 \<or> \<not> list_all is_digit (take 4 value) then None
          else Some (f\<lparr>f_year := digitsVal (take 4 value)\<rparr>, drop 4 value)
      | StdYear \<Rightarrow>
          if length value < 2 \<or> \<not> list_all is_digit (take 2 value) then None
          else let y = digitsVal (take 2 value)
               in Some (f\<lparr>f_year := (if 69 \<le> y then y + 1900 else y + 2000)\<rparr>, drop 2 value)
      | StdPM \<Rightarrow>
          if take 2 value = ''PM'' then Some (f\<lparr>f_pm := True\<rparr>, drop 2 value)
          else if take 2 value = ''AM'' then Some (f\<lparr>f_am := True\<rparr>, drop 2 value)
          else None)"

fun parseChunks :: "chunk list \<Rightarrow> string \<Rightarrow> fields \<Rightarrow> (fields \<times> string) option" where
  "parseChunks [] value f = Some (f, value)"
| "parseChunks (ch # chs) value f =
     (case parseChunk ch value f of None \<Rightarrow> None | Some (f', value') \<Rightarrow> parseChunks chs value' f')"

section \<open>Dates\<close>

definition isLeap :: "int \<Rightarrow> bool" where
  "isLeap y \<longleftrightarrow> y mod 4 = 0 \<and> (y mod 100 \<noteq> 0 \<or> y mod 400 = 0)"

definition daysIn :: "int \<Rightarrow> int \<Rightarrow> int" where
  "daysIn m y = (if m = 2 then if isLeap y then 29 else 28 else if m \<in> {4, 6, 9, 11} then 30 else 31)"

definition ParseInLocation :: "chunk list \<Rightarrow> string \<Rightarrow> string \<Rightarrow> goerror + time" where
  "ParseInLocation layout value loc =
     (case parseChunks layout value noFields of
        None \<Rightarrow> Inl (TimeError ''cannot parse'' value)
      | Some (f, rest) \<Rightarrow>
          let hour = (if f_pm f \<and> f_hour f < 12 then f_hour f + 12
                      else if f_am f \<and> f_hour f = 12 then 0 else f_hour f);
              month = (if f_month f < 0 then 1 else f_month f);
              day = (if f_day f < 0 then 1 else f_day f)
          in if rest \<noteq> [] then Inl (TimeError ''extra text'' value)
             else if day < 1 \<or> daysIn month (f_year f) < day then Inl (TimeError ''day out of range'' value)
             else Inr \<lparr>t_year = f_year f, t_month = month, t_day = day, t_hour = hour, t_min = f_min f,
                       t_sec = f_sec f, t_nsec = f_nsec f, t_loc = loc\<rparr>)"

section \<open>Printed times are read back\<close>

definition pad2 :: "int \<Rightarrow> string" where
  "pad2 n = [char_of (48 + nat n div 10), char_of (48 + nat n mod 10)]"

definition pad4 :: "int \<Rightarrow> string" where
  "pad4 n = pad2 (n div 100) @ pad2 (n mod 100)"

definition valid_time :: "time \<Rightarrow> bool" where
  "valid_time t \<longleftrightarrow> 0 \<le> t_year t \<and> t_year t < 10000 \<and> 1 \<le> t_month t \<and> t_month t \<le> 12 \<and>
     1 \<le> t_day t \<and> t_day t \<le> daysIn (t_month t) (t_year t) \<and> 0 \<le> t_hour t \<and> t_hour t \<le> 23 \<and>
     0 \<le> t_min t \<and> t_min t \<le> 59 \<and> 0 \<le> t_sec t \<and> t_sec t \<le> 59 \<and> t_nsec t = 0"

definition formatMLST :: "time \<Rightarrow> string" where
  "formatMLST t = pad4 (t_year t) @ pad2 (t_month t) @ pad2 (t_day t) @ pad2 (t_hour t) @
     pad2 (t_min t) @ pad2 (t_sec t)"

lemma pad2_digits: "0 \<le> n \<Longrightarrow> n < 100 \<Longrightarrow> list_all is_digit (pad2 n)"
proof -
  assume "0 \<le> n" "n < 100"
  then have "nat n div 10 < 10" by linarith
  then show ?thesis by (simp add: pad2_def)
qed

lemma pad2_value:
  assumes "0 \<le> n" "n < 100"
  shows "nat n div 10 < 10" "int (nat n div 10) * 10 + int (nat n mod 10) = n"
proof -
  show "nat n div 10 < 10" using assms by linarith
  have "int (nat n div 10 * 10 + nat n mod 10) = n" using assms by (simp only: div_mult_mod_eq)
  then show "int (nat n div 10) * 10 + int (nat n mod 10) = n" by (simp only: of_nat_add of_nat_mult of_nat_numeral)
qed

lemma digitsVal_pad2: "0 \<le> n \<Longrightarrow> n < 100 \<Longrightarrow> digitsVal (pad2 n) = n"
  using pad2_value [of n] by (simp add: digitsVal_def pad2_def mult.commute)

lemma getnum_pad2: "0 \<le> n \<Longrightarrow> n < 100 \<Longrightarrow> getnum (pad2 n @ rest) fixed = Some (n, rest)"
  using pad2_value [of n] by (simp add: getnum_def pad2_def)

lemma numField_pad2:
  "0 \<le> lo \<Longrightarrow> hi < 100 \<Longrightarrow> lo \<le> n \<Longrightarrow> n \<le> hi \<Longrightarrow>
     numField (pad2 n @ rest) fixed lo hi upd f = Some (upd n f, rest)"
  by (simp add: numField_def getnum_pad2 in_range_def)

lemma length_pad [simp]: "length (pad2 n) = 2" "length (pad4 n) = 4"
  by (simp_all add: pad2_def pad4_def)

lemma digitsVal_append2: "digitsVal (a @ pad2 n) = 100 * digitsVal a + digitsVal (pad2 n)"
  by (simp add: digitsVal_def pad2_def)

lemma pad4_props:
  assumes "0 \<le> n" "n < 10000"
  shows "list_all is_digit (pad4 n)" "digitsVal (pad4 n) = n"
proof -
  have n: "0 \<le> n div 100" "n div 100 < 100" "0 \<le> n mod 100" "n mod 100 < 100" using assms by simp_all
  then show "list_all is_digit (pad4 n)" by (simp add: pad4_def pad2_digits)
  show "digitsVal (pad4 n) = n"
    using n by (simp add: pad4_def digitsVal_append2 digitsVal_pad2)
qed

lemma daysIn_le: "daysIn m y \<le> 31"
  by (simp add: daysIn_def)

lemma ParseInLocation_formatMLST:
  assumes t: "valid_time t"
  shows "ParseInLocation layoutMLST (formatMLST t) loc = Inr (t\<lparr>t_loc := loc\<rparr>)"
proof -
  have day: "t_day t \<le> 99" using t daysIn_le [of "t_month t" "t_year t"] by (auto simp: valid_time_def)
  have year: "list_all is_digit (pad4 (t_year t))" "digitsVal (pad4 (t_year t)) = t_year t"
    using t pad4_props by (auto simp: valid_time_def)
  have sec: "numField (pad2 (t_sec t)) True 0 59 upd f = Some (upd (t_sec t) f, [])" for upd f
    using numField_pad2 [of 0 59 "t_sec t" "[]"] t by (simp add: valid_time_def)
  have "parseChunks layoutMLST (formatMLST t) noFields = Some (noFields\<lparr>f_year := t_year t,
      f_month := t_month t, f_day := t_day t, f_hour := t_hour t, f_min := t_min t, f_sec := t_sec t\<rparr>, [])"
    using t day year
    by (simp add: layoutMLST_def formatMLST_def parseChunk_def numField_pad2 sec valid_time_def fraction_def noFields_def)
  then show ?thesis
    using t unfolding ParseInLocation_def by (simp add: noFields_def valid_time_def Let_def)
qed

end
