(* ===== verification/Listing.thy ===== *)
theory Listing
  imports Regex TimeParse "HOL-Library.Word"
begin

unbundle bit_operations_syntax

text \<open>
  Directory listings (\<^verbatim>\<open>file_system.go\<close>): the file record, the parsers of the three listing formats
  (\<open>parseLIST\<close> for \<^verbatim>\<open>ls\<close>, \<open>parseDOSLIST\<close> for Microsoft's server, \<open>parseMLST\<close> for machine-readable
  entries), and the quoted name of \<open>extractDirName\<close>.

  A parser returns an error, or a file, or neither for a line that is not an entry: \<open>goerror + ftpFile option\<close>.
  The clock is an argument, as its year and month.
\<close>

type_synonym FileMode = "32 word"

record ftpFile =
  file_name :: string
  size :: int
  mode :: FileMode
  mtime :: time
  raw :: string

definition ModeDir :: FileMode where "ModeDir = push_bit 31 1"
definition ModeSymlink :: FileMode where "ModeSymlink = push_bit 27 1"

definition IsDir :: "ftpFile \<Rightarrow> bool" where
  "IsDir f \<longleftrightarrow> mode f AND ModeDir \<noteq> 0"

text \<open>\<open>int64(size)\<close> of an unsigned 64-bit number.\<close>

definition int64 :: "nat \<Rightarrow> int" where
  "int64 n = sint (of_nat n :: 64 word)"

type_synonym clock = "int \<times> int"

section \<open>Entries of \<^verbatim>\<open>ls\<close>\<close>

text \<open>\<^verbatim>\<open>^\s*(\S)(\S{3})(\S{3})(\S{3})(?:\s+\S+){3}\s+(\d+)\s+(\w+\s+\d+)\s+([\d:]+)\s+(.+)$\<close>\<close>

abbreviation rx_field :: rx where
  "rx_field \<equiv> Then (Plus rx_space) (Plus rx_nonspace)"

abbreviation rx_perms :: rx where
  "rx_perms \<equiv> Then (Cls rx_nonspace) (Then (Cls rx_nonspace) (Cls rx_nonspace))"

definition rx_clock :: "char \<Rightarrow> bool" where
  "rx_clock c \<longleftrightarrow> is_digit c \<or> c = CHR '':''"

definition lsRegex :: rx where
  "lsRegex =
     Then (Greedy rx_space)
    (Then (Cap 1 (Cls rx_nonspace))
    (Then (Cap 2 rx_perms) (Then (Cap 3 rx_perms) (Then (Cap 4 rx_perms)
    (Then rx_field (Then rx_field (Then rx_field
    (Then (Plus rx_space)
    (Then (Cap 5 (Plus is_digit))
    (Then (Plus rx_space)
    (Then (Cap 6 (Then (Plus rx_word) (Then (Plus rx_space) (Plus is_digit))))
    (Then (Plus rx_space)
    (Then (Cap 7 (Plus rx_clock))
    (Then (Plus rx_space)
    (Then (Cap 8 (Plus rx_any)) EndText)))))))))))))))"

text \<open>\<^verbatim>\<open>^\s*(\d{2}-\d{2}-(?:\d{4}|\d{2}))\s+(\d{1,2}:\d{2}(?:AM|PM))\s+(?:(<DIR>)|(\d+))\s+(.+?)\s*$\<close>\<close>

abbreviation rx_d2 :: rx where
  "rx_d2 \<equiv> Then (Cls is_digit) (Cls is_digit)"

definition dosListRegex :: rx where
  "dosListRegex =
     Then (Greedy rx_space)
    (Then (Cap 1 (Then rx_d2 (Then (Lit ''-'') (Then rx_d2 (Then (Lit ''-'') (Or (Then rx_d2 rx_d2) rx_d2))))))
    (Then (Plus rx_space)
    (Then (Cap 2 (Then (Or rx_d2 (Cls is_digit)) (Then (Lit '':'') (Then rx_d2 (Or (Lit ''AM'') (Lit ''PM''))))))
    (Then (Plus rx_space)
    (Then (Or (Cap 3 (Lit ''<DIR>'')) (Cap 4 (Plus is_digit)))
    (Then (Plus rx_space)
    (Then (Cap 5 (Then (Cls rx_any) (Lazy rx_any))) (Then (Greedy rx_space) EndText))))))))"

section \<open>Parsers\<close>

definition permBits :: "nat \<Rightarrow> string \<Rightarrow> FileMode" where
  "permBits i p =
     (if p ! 0 = CHR ''r'' then push_bit (3 * (2 - i)) 4 else 0) OR
     (if p ! 1 = CHR ''w'' then push_bit (3 * (2 - i)) 2 else 0) OR
     (if p ! 2 = CHR ''x'' \<or> p ! 2 = CHR ''s'' then push_bit (3 * (2 - i)) 1 else 0)"

definition listMode :: "caps \<Rightarrow> FileMode" where
  "listMode m =
     (if group m 1 = ''d'' then ModeDir else if group m 1 = ''l'' then ModeSymlink else 0) OR
     permBits 0 (group m 2) OR permBits 1 (group m 3) OR permBits 2 (group m 4)"

text \<open>
  A listing with a time of day has no year: it is the current year, or the last one if the month is still to
  come. The time is parsed once for its month and once more with the year.
\<close>

definition listTime :: "clock \<Rightarrow> string \<Rightarrow> string \<Rightarrow> string \<Rightarrow> goerror + time" where
  "listTime now day clk loc =
     (if Contains clk '':'' then
        (case ParseInLocation layoutLsShort (day @ '' '' @ clk) loc of
           Inl e \<Rightarrow> Inl e
         | Inr t \<Rightarrow>
             let year = (if t_month t > snd now then fst now - 1 else fst now)
             in ParseInLocation layoutLsFull (day @ '' '' @ clk @ '' '' @ Itoa year) loc)
      else ParseInLocation layoutLsYear (day @ '' '' @ clk) loc)"

definition symlinkSeparator :: string where
  "symlinkSeparator = '' -> ''"

definition parseDOSLIST :: "string \<Rightarrow> string \<Rightarrow> goerror + ftpFile option" where
  "parseDOSLIST entry loc =
     (case FindStringSubmatch dosListRegex entry of
        None \<Rightarrow> Inr None
      | Some m \<Rightarrow>
          let layout = layoutDos (if length (group m 1) = 10 then [StdLongYear] else [StdYear])
          in case ParseInLocation layout (group m 1 @ '' '' @ group m 2) loc of
               Inl e \<Rightarrow> Inl (wrapErr (Errorf ''failed parsing LIST entry's time: %s (%s)'' [AErr e, AStr entry]))
             | Inr t \<Rightarrow>
                 if group m 3 \<noteq> [] then
                   Inr (Some \<lparr>file_name = group m 5, size = 0, mode = ModeDir, mtime = t, raw = entry\<rparr>)
                 else
                   (case ParseUint (group m 4) 10 64 of
                      Inl e \<Rightarrow> Inl (wrapErr (Errorf ''failed parsing LIST entry's size: %s (%s)''
                                [AErr (NumError ''ParseUint'' (group m 4) e), AStr entry]))
                    | Inr n \<Rightarrow>
                        Inr (Some \<lparr>file_name = group m 5, size = int64 n, mode = 0, mtime = t, raw = entry\<rparr>)))"

definition parseLIST :: "clock \<Rightarrow> string \<Rightarrow> string \<Rightarrow> bool \<Rightarrow> goerror + ftpFile option" where
  "parseLIST now entry loc skipSelfParent =
     (if HasPrefix entry ''total '' then Inr None
      else case FindStringSubmatch lsRegex entry of
             None \<Rightarrow>
               (case parseDOSLIST entry loc of
                  Inr None \<Rightarrow> Inl (wrapErr (Errorf ''failed parsing LIST entry: %s'' [AStr entry]))
                | r \<Rightarrow> r)
           | Some m \<Rightarrow>
               if skipSelfParent \<and> (group m 8 = ''.'' \<or> group m 8 = ''..'') then Inr None
               else
                 (case ParseUint (group m 5) 10 64 of
                    Inl e \<Rightarrow> Inl (wrapErr (Errorf ''failed parsing LIST entry's size: %s (%s)''
                              [AErr (NumError ''ParseUint'' (group m 5) e), AStr entry]))
                  | Inr n \<Rightarrow>
                      (case listTime now (group m 6) (group m 7) loc of
                         Inl e \<Rightarrow> Inl (wrapErr (Errorf ''failed parsing LIST entry's mtime: %s (%s)''
                                   [AErr e, AStr entry]))
                       | Inr t \<Rightarrow>
                           let md = listMode m;
                               i = Index (group m 8) symlinkSeparator;
                               name = (if md AND ModeSymlink \<noteq> 0 \<and> 0 \<le> i
                                       then take (nat i) (group m 8) else group m 8)
                           in Inr (Some \<lparr>file_name = Base name, size = int64 n, mode = md, mtime = t,
                                         raw = entry\<rparr>))))"

subsection \<open>Machine-readable entries\<close>

fun addFacts :: "string list \<Rightarrow> (string \<rightharpoonup> string) \<Rightarrow> (string \<rightharpoonup> string) option" where
  "addFacts [] facts = Some facts"
| "addFacts (pair # ps) facts =
     (case SplitN2 pair ''='' of
        [k, v] \<Rightarrow> addFacts ps (facts(ToLower k \<mapsto> ToLower v))
      | _ \<Rightarrow> None)"

definition fact :: "(string \<rightharpoonup> string) \<Rightarrow> string \<Rightarrow> string" where
  "fact facts k = (case facts k of None \<Rightarrow> [] | Some v \<Rightarrow> v)"

definition permFactBit :: "char \<Rightarrow> FileMode" where
  "permFactBit c =
     (if c \<in> set ''adcfmpw'' then 0x80 else if c = CHR ''l'' then 0x140 else if c = CHR ''r'' then 0x100 else 0)"

definition factMode :: "(string \<rightharpoonup> string) \<Rightarrow> FileMode option" where
  "factMode facts =
     (if fact facts ''unix.mode'' \<noteq> [] then
        (case ParseInt (fact facts ''unix.mode'') 8 32 of Inl _ \<Rightarrow> None | Inr m \<Rightarrow> Some (word_of_int m))
      else if fact facts ''perm'' \<noteq> [] then
        Some (foldl (\<lambda>m c. m OR permFactBit c) 0 (fact facts ''perm''))
      else Some 0x100)"

definition typeMode :: "string \<Rightarrow> FileMode" where
  "typeMode typ =
     (if typ = ''dir'' \<or> typ = ''cdir'' \<or> typ = ''pdir'' then ModeDir
      else if HasPrefix typ ''os.unix=slink'' \<or> HasPrefix typ ''os.unix=symlink'' then ModeSymlink
      else 0)"

text \<open>The size of an entry: an error other than a missing fact is a parse error.\<close>

datatype factSize = MissingSize | BadSize | FactSize int

definition sizeFact :: "(string \<rightharpoonup> string) \<Rightarrow> FileMode \<Rightarrow> factSize" where
  "sizeFact facts md =
     (let parse = (\<lambda>v. case ParseInt v 10 64 of Inl _ \<Rightarrow> BadSize | Inr n \<Rightarrow> FactSize n)
      in if fact facts ''size'' \<noteq> [] then parse (fact facts ''size'')
         else if md AND ModeDir \<noteq> 0 \<and> fact facts ''sizd'' \<noteq> [] then parse (fact facts ''sizd'')
         else if fact facts ''type'' = ''file'' then MissingSize
         else FactSize 0)"

definition parseMLST :: "string \<Rightarrow> bool \<Rightarrow> goerror + ftpFile option" where
  "parseMLST entry skipSelfParent =
     (let parseError = wrapErr (Errorf ''failed parsing MLST entry: %s'' [AStr entry]);
          incompleteError = wrapErr (Errorf ''MLST entry incomplete: %s'' [AStr entry])
      in if TrimSpace entry = [] then Inr None
         else
           case Split entry ''; '' of
             [factPart, name] \<Rightarrow>
               (case addFacts (Split factPart '';'') Map.empty of
                  None \<Rightarrow> Inl parseError
                | Some facts \<Rightarrow>
                    let typ = fact facts ''type''
                    in if typ = [] then Inl incompleteError
                       else if skipSelfParent \<and> typ \<in> {''cdir'', ''pdir'', ''.'', ''..''} then Inr None
                       else
                         (case factMode facts of
                            None \<Rightarrow> Inl parseError
                          | Some m \<Rightarrow>
                              let md = m OR typeMode typ
                              in case sizeFact facts md of
                                   MissingSize \<Rightarrow> Inl incompleteError
                                 | BadSize \<Rightarrow> Inl parseError
                                 | FactSize n \<Rightarrow>
                                     if fact facts ''modify'' = [] then Inl incompleteError
                                     else
                                       (case ParseInLocation layoutMLST (fact facts ''modify'') ''UTC'' of
                                          Inl _ \<Rightarrow> Inl incompleteError
                                        | Inr t \<Rightarrow>
                                            Inr (Some \<lparr>file_name = Base name, size = n, mode = md, mtime = t,
                                                       raw = entry\<rparr>))))
           | _ \<Rightarrow> Inl parseError)"

definition extractDirName :: "string \<Rightarrow> goerror + string" where
  "extractDirName msg =
     (let openQuote = Index msg [CHR 0x22];
          closeQuote = LastIndex msg [CHR 0x22]
      in if openQuote = -1 \<or> int (length msg) = openQuote + 1 \<or> closeQuote \<le> openQuote
         then Inl (wrapErr (Errorf ''failed parsing directory name: %s'' [AStr msg]))
         else Inr (Replace (GoStrings.slice msg (openQuote + 1) closeQuote) [CHR 0x22, CHR 0x22] [CHR 0x22]))"

text \<open>The loop of \<open>ReadDir\<close> over the lines of a listing.\<close>

fun parseEntries :: "(string \<Rightarrow> goerror + ftpFile option) \<Rightarrow> string list \<Rightarrow> goerror + ftpFile list" where
  "parseEntries parse [] = Inr []"
| "parseEntries parse (e # es) =
     (case parse e of
        Inl err \<Rightarrow> Inl err
      | Inr None \<Rightarrow> parseEntries parse es
      | Inr (Some f) \<Rightarrow>
          (case parseEntries parse es of Inl err \<Rightarrow> Inl err | Inr fs \<Rightarrow> Inr (f # fs)))"

section \<open>What every parser promises\<close>

text \<open>An error is an \<open>ftpError\<close>, and a file remembers the line it came from.\<close>

locale entry_parser =
  fixes parse :: "string \<Rightarrow> goerror + ftpFile option"
  assumes error_ftp: "parse e = Inl err \<Longrightarrow> is_ftpError err"
    and raw_entry: "parse e = Inr (Some f) \<Longrightarrow> raw f = e"
begin

lemma entries_error: "parseEntries parse es = Inl err \<Longrightarrow> is_ftpError err"
  by (induction es) (auto split: sum.splits option.splits dest: error_ftp)

text \<open>The files are those of the lines that are entries, one for each and in their order.\<close>

lemma entries_raw:
  "parseEntries parse es = Inr fs \<Longrightarrow> map raw fs = filter (\<lambda>e. parse e \<noteq> Inr None) es"
  by (induction es arbitrary: fs) (auto split: sum.splits option.splits dest: raw_entry)

lemma entries_total: "(\<exists>e \<in> set es. isl (parse e)) \<longleftrightarrow> isl (parseEntries parse es)"
  by (induction es) (auto split: sum.splits option.splits)

end

lemma parseDOSLIST_error: "parseDOSLIST e loc = Inl err \<Longrightarrow> is_ftpError err"
  by (auto simp: parseDOSLIST_def Let_def split: option.splits sum.splits if_splits)

lemma parseDOSLIST_raw: "parseDOSLIST e loc = Inr (Some f) \<Longrightarrow> raw f = e"
  by (auto simp: parseDOSLIST_def Let_def split: option.splits sum.splits if_splits)

interpretation ls: entry_parser "\<lambda>e. parseLIST now e loc skip" for now loc skip
proof unfold_locales
  show "is_ftpError err" if "parseLIST now e loc skip = Inl err" for e err
    using that parseDOSLIST_error [of e loc]
    by (auto simp: parseLIST_def Let_def split: option.splits sum.splits if_splits)
  show "raw f = e" if "parseLIST now e loc skip = Inr (Some f)" for e f
    using that parseDOSLIST_raw [of e loc]
    by (auto simp: parseLIST_def Let_def split: option.splits sum.splits if_splits)
qed

interpretation mlst: entry_parser "\<lambda>e. parseMLST e skip" for skip
  by unfold_locales
    (auto simp: parseMLST_def Let_def split: option.splits sum.splits if_splits list.splits factSize.splits)

section \<open>Quoted names\<close>

abbreviation quote :: char where
  "quote \<equiv> CHR 0x22"

definition quoteName :: "string \<Rightarrow> string" where
  "quoteName p = concat (map (\<lambda>c. if c = quote then [quote, quote] else [c]) p)"

lemma quoteName_append [simp]: "quoteName (a @ b) = quoteName a @ quoteName b"
  by (simp add: quoteName_def)

lemma quoteName_plain: "quote \<notin> set a \<Longrightarrow> quoteName a = a"
  by (induction a) (auto simp: quoteName_def)

lemma Index_double: "quote \<notin> set a \<Longrightarrow> Index (a @ quote # quote # b) [quote, quote] = int (length a)"
  by (induction a) (auto simp: HasPrefix_def)

lemma Index_double_none: "quote \<notin> set a \<Longrightarrow> Index a [quote, quote] = -1"
  by (induction a) (auto simp: HasPrefix_def)

lemma Replace_quoteName: "Replace (quoteName p) [quote, quote] [quote] = p"
proof (induction "length p" arbitrary: p rule: less_induct)
  case less
  show ?case
  proof (cases "quote \<in> set p")
    case False
    then show ?thesis by (subst Replace.simps) (simp add: quoteName_plain Index_double_none)
  next
    case True
    then obtain a b where p: "p = a @ quote # b" "quote \<notin> set a" by (meson split_list_first)
    then have q: "quoteName p = a @ quote # quote # quoteName b"
      by (simp add: quoteName_plain) (simp add: quoteName_def)
    have "Replace (quoteName b) [quote, quote] [quote] = b" using p by (intro less) simp
    then show ?thesis unfolding q by (subst Replace.simps) (simp add: Index_double p)
  qed
qed

text \<open>A directory name quoted as the protocol asks, with its own quotes doubled, is read back exactly,
  whatever text without quotes surrounds it.\<close>

lemma extractDirName_quoted:
  assumes "quote \<notin> set pre" and "quote \<notin> set post"
  shows "extractDirName (pre @ [quote] @ quoteName p @ [quote] @ post) = Inr p"
proof -
  let ?msg = "pre @ [quote] @ quoteName p @ [quote] @ post"
  have i: "Index ?msg [quote] = int (length pre)"
    using Index_char [OF assms(1)] by simp
  have j: "LastIndex ?msg [quote] = int (length pre) + 1 + int (length (quoteName p))"
    using LastIndex_char [OF assms(2), of "pre @ [quote] @ quoteName p"] by simp
  have s: "GoStrings.slice ?msg (int (length pre) + 1) (int (length pre) + 1 + int (length (quoteName p))) = quoteName p"
    by (simp add: GoStrings.slice_def nat_add_distrib)
  show ?thesis
    unfolding extractDirName_def Let_def i j s by (simp add: Replace_quoteName)
qed

section \<open>Machine-readable entries are read back\<close>

lemma Index_sep2:
  "CHR '' '' \<notin> set a \<Longrightarrow> Index (a @ ''; '' @ b) ''; '' = int (length a)"
proof (induction a)
  case (Cons c a)
  have "\<not> HasPrefix ((c # a) @ ''; '' @ b) ''; ''"
    using Cons.prems by (cases a) (auto simp: HasPrefix_def)
  with Cons show ?case by simp
qed (simp add: HasPrefix_def)

lemma Split_sep2:
  assumes "CHR '' '' \<notin> set a" "\<not> Contains b ''; ''"
  shows "Split (a @ ''; '' @ b) ''; '' = [a, b]"
proof -
  have "Split b ''; '' = [b]" using assms(2) by (subst Split.simps) (simp add: Contains_def not_le)
  then show ?thesis by (subst Split.simps) (simp add: Index_sep2 [OF assms(1), simplified] Let_def)
qed

lemma in_dropWhile: "c \<in> set s \<Longrightarrow> \<not> p c \<Longrightarrow> c \<in> set (dropWhile p s)"
  by (induction s) auto

lemma TrimSpace_nonempty: "c \<in> set s \<Longrightarrow> \<not> is_space c \<Longrightarrow> TrimSpace s \<noteq> []"
  using in_dropWhile [of c "rev (dropWhile is_space s)" is_space] in_dropWhile [of c s is_space]
  by (auto simp: TrimSpace_def)

lemma Base_plain: "name \<noteq> [] \<Longrightarrow> slash \<notin> set name \<Longrightarrow> Base name = name"
proof -
  assume n: "name \<noteq> []" "slash \<notin> set name"
  then have "last name \<noteq> slash" using last_in_set [of name] by metis
  then have d: "dropWhile (\<lambda>c. c = slash) (rev name) = rev name"
    by (intro dropWhile_eq_self_iff [THEN iffD2]) (auto simp: hd_rev)
  have t: "takeWhile (\<lambda>c. c \<noteq> slash) (rev name) = rev name"
    using n by (intro takeWhile_eq_all_conv [THEN iffD2]) auto
  from n show ?thesis by (simp only: Base_def TrimRight_def Let_def) (simp add: d t)
qed

lemma lower_digit: "is_digit c \<Longrightarrow> lower_char c = c"
  by (simp add: is_digit_def lower_char_def)

lemma ToLower_digits: "list_all is_digit s \<Longrightarrow> ToLower s = s"
  by (induction s) (auto simp: ToLower_def lower_digit)

lemma Itoa_digits: "0 \<le> n \<Longrightarrow> list_all is_digit (Itoa n)"
  using nat_digits_digits by (auto simp: Itoa_def list_all_iff)

lemma formatMLST_digits: "valid_time t \<Longrightarrow> list_all is_digit (formatMLST t)"
  using daysIn_le [of "t_month t" "t_year t"]
  by (auto simp: formatMLST_def valid_time_def pad4_props intro!: pad2_digits)

lemma SplitN2_fact: "CHR ''='' \<notin> set k \<Longrightarrow> SplitN2 (k @ CHR ''='' # v) ''='' = [k, v]"
  by (simp add: SplitN2_def Index_char Let_def)

definition formatFacts :: "string \<Rightarrow> int \<Rightarrow> time \<Rightarrow> string" where
  "formatFacts typ n t =
     Join [''type='' @ typ, ''size='' @ Itoa n, ''modify='' @ formatMLST t] '';''"

lemma not_digit [simp]: "\<not> is_digit CHR '';''" "\<not> is_digit CHR '' ''" "\<not> is_digit CHR ''=''"
  by (simp_all add: is_digit_def)

lemma digits_avoid: "list_all is_digit s \<Longrightarrow> \<not> is_digit c \<Longrightarrow> c \<notin> set s"
  by (auto simp: list_all_iff)

lemma addFacts_format:
  assumes ty: "typ \<in> {''file'', ''dir''}" and n: "0 \<le> n" and t: "valid_time t"
  shows "addFacts (Split (formatFacts typ n t) '';'') Map.empty =
    Some [''type'' \<mapsto> typ, ''size'' \<mapsto> Itoa n, ''modify'' \<mapsto> formatMLST t]"
proof -
  note ds = digits_avoid [OF Itoa_digits [OF n]] digits_avoid [OF formatMLST_digits [OF t]]
  have "Split (formatFacts typ n t) '';'' = [''type='' @ typ, ''size='' @ Itoa n, ''modify='' @ formatMLST t]"
    unfolding formatFacts_def using ty ds by (intro Split_Join) auto
  moreover have "SplitN2 (''type='' @ typ) ''='' = [''type'', typ]"
    "SplitN2 (''size='' @ Itoa n) ''='' = [''size'', Itoa n]"
    "SplitN2 (''modify='' @ formatMLST t) ''='' = [''modify'', formatMLST t]"
    using SplitN2_fact [of "''type''" "typ"] SplitN2_fact [of "''size''" "Itoa n"]
      SplitN2_fact [of "''modify''" "formatMLST t"] by simp_all
  moreover have "ToLower ''type'' = ''type''" "ToLower ''size'' = ''size''" "ToLower ''modify'' = ''modify''"
    "ToLower typ = typ" using ty by (auto simp: ToLower_def lower_char_def)
  moreover have "ToLower (Itoa n) = Itoa n" "ToLower (formatMLST t) = formatMLST t"
    using ToLower_digits Itoa_digits [OF n] formatMLST_digits [OF t] by simp_all
  ultimately show ?thesis by simp
qed

text \<open>C14. A machine-readable entry with the type, the size and the time of a file is read back exactly: the name,
  the size, the time in UTC, and whether it is a directory.\<close>

theorem parseMLST_reads_entry:
  assumes ty: "typ \<in> {''file'', ''dir''}" and n: "0 \<le> n" "n < 2 ^ 63" and t: "valid_time t"
    and name: "name \<noteq> []" "slash \<notin> set name" "\<not> Contains name ''; ''"
  shows "\<exists>f. parseMLST (formatFacts typ n t @ ''; '' @ name) skip = Inr (Some f) \<and>
    file_name f = name \<and> size f = n \<and> mtime f = t\<lparr>t_loc := ''UTC''\<rparr> \<and> (IsDir f \<longleftrightarrow> typ = ''dir'')"
proof -
  let ?facts = "[''type'' \<mapsto> typ, ''size'' \<mapsto> Itoa n, ''modify'' \<mapsto> formatMLST t]"
  define fs where "fs = formatFacts typ n t"
  have sp: "CHR '' '' \<notin> set fs"
    using ty digits_avoid [OF Itoa_digits [OF n(1)]] digits_avoid [OF formatMLST_digits [OF t]]
    by (auto simp: formatFacts_def fs_def)
  have trim: "TrimSpace (fs @ ''; '' @ name) \<noteq> []"
    by (rule TrimSpace_nonempty [of "CHR ''t''"]) (simp_all add: formatFacts_def fs_def is_space_def)
  have facts: "fact ?facts ''type'' = typ" "fact ?facts ''size'' = Itoa n" "fact ?facts ''modify'' = formatMLST t"
    "fact ?facts ''unix.mode'' = []" "fact ?facts ''perm'' = []" by (simp_all add: fact_def)
  have ne: "Itoa n \<noteq> []" "formatMLST t \<noteq> []" by (simp_all add: Itoa_def formatMLST_def pad4_def pad2_def)
  have "ParseInt (Itoa n) 10 64 = Inr n" using n Atoi_Itoa [of n] by (simp add: Atoi_def)
  then have size: "sizeFact ?facts md = FactSize n" for md by (simp add: sizeFact_def facts ne)
  have md: "factMode ?facts = Some 0x100" by (simp add: factMode_def facts)
  have typ': "typ \<noteq> []" "typ \<notin> {''cdir'', ''pdir'', ''.'', ''..''}" using ty by auto
  have "parseMLST (fs @ ''; '' @ name) skip = Inr (Some \<lparr>file_name = name, size = n,
      mode = 0x100 OR typeMode typ, mtime = t\<lparr>t_loc := ''UTC''\<rparr>, raw = fs @ ''; '' @ name\<rparr>)"
    unfolding parseMLST_def Let_def Split_sep2 [OF sp name(3)] list.case
      addFacts_format [OF ty n(1) t, folded fs_def] option.case facts md size
    using trim typ' by (simp add: ne ParseInLocation_formatMLST [OF t] Base_plain [OF name(1,2)])
  moreover have "(0x100 OR typeMode typ) AND ModeDir \<noteq> 0 \<longleftrightarrow> typ = ''dir''"
  proof -
    have "typeMode ''dir'' = ModeDir" "typeMode ''file'' = 0" by code_simp+
    moreover have "(0x100 OR ModeDir) AND ModeDir \<noteq> 0" "(0x100 OR 0) AND ModeDir = 0" by code_simp+
    ultimately show ?thesis using ty by auto
  qed
  ultimately show ?thesis by (simp add: fs_def IsDir_def)
qed

definition sampleTime :: time where
  "sampleTime = \<lparr>t_year = 2015, t_month = 2, t_day = 16, t_hour = 8, t_min = 41, t_sec = 48, t_nsec = 0, t_loc = ''UTC''\<rparr>"

theorem parseMLST_reads_entry_witness:
  "\<exists>f. parseMLST (formatFacts ''file'' 12 sampleTime @ ''; '' @ ''lorem.txt'') True = Inr (Some f) \<and>
    file_name f = ''lorem.txt'' \<and> size f = 12 \<and> mtime f = sampleTime\<lparr>t_loc := ''UTC''\<rparr> \<and>
    (IsDir f \<longleftrightarrow> ''file'' = ''dir'')"
  by (rule parseMLST_reads_entry)
    (simp_all add: sampleTime_def valid_time_def daysIn_def Contains_def HasPrefix_def)

section \<open>Entries of \<^verbatim>\<open>ls\<close> are read back\<close>

text \<open>The parts of a line of \<^verbatim>\<open>ls -l\<close>, each run of blanks as it may be.\<close>

record lsLine =
  l_type :: char
  l_perms :: "string list"
  l_fields :: "string list"
  l_size :: string
  l_month :: string
  l_day :: string
  l_clock :: string
  l_name :: string
  l_gaps :: "string list"

definition ls_ok :: "lsLine \<Rightarrow> bool" where
  "ls_ok l \<longleftrightarrow> rx_nonspace (l_type l) \<and>
     length (l_perms l) = 3 \<and> (\<forall>p \<in> set (l_perms l). length p = 3 \<and> list_all rx_nonspace p) \<and>
     length (l_fields l) = 3 \<and> (\<forall>f \<in> set (l_fields l). f \<noteq> [] \<and> list_all rx_nonspace f) \<and>
     l_size l \<noteq> [] \<and> list_all is_digit (l_size l) \<and>
     l_month l \<noteq> [] \<and> list_all rx_word (l_month l) \<and>
     l_day l \<noteq> [] \<and> list_all is_digit (l_day l) \<and>
     l_clock l \<noteq> [] \<and> list_all rx_clock (l_clock l) \<and>
     l_name l \<noteq> [] \<and> list_all rx_any (l_name l) \<and> rx_nonspace (hd (l_name l)) \<and>
     length (l_gaps l) = 8 \<and> (\<forall>g \<in> set (l_gaps l). g \<noteq> [] \<and> list_all rx_space g)"

definition formatLs :: "lsLine \<Rightarrow> string" where
  "formatLs l =
     (let g = l_gaps l
      in l_type l # concat (l_perms l) @ g ! 0 @ l_fields l ! 0 @ g ! 1 @ l_fields l ! 1 @ g ! 2 @ l_fields l ! 2 @
         g ! 3 @ l_size l @ g ! 4 @ (l_month l @ g ! 5 @ l_day l) @ g ! 6 @ l_clock l @ g ! 7 @ l_name l)"

lemma space_classes:
  "rx_space c \<Longrightarrow> \<not> rx_nonspace c" "rx_space c \<Longrightarrow> \<not> is_digit c" "rx_space c \<Longrightarrow> \<not> rx_word c"
  "rx_space c \<Longrightarrow> \<not> rx_clock c" "is_digit c \<Longrightarrow> \<not> rx_space c" "rx_word c \<Longrightarrow> \<not> rx_space c"
  "rx_clock c \<Longrightarrow> \<not> rx_space c" "rx_nonspace c \<Longrightarrow> \<not> rx_space c"
  by (auto simp: rx_nonspace_def rx_space_def rx_word_def rx_clock_def is_digit_def)

lemma run_hd: "a \<noteq> [] \<Longrightarrow> list_all p a \<Longrightarrow> p (hd (a @ b))"
  by (cases a) auto

lemma match_field:
  assumes "match r b cs k = Some v" "g \<noteq> []" "list_all rx_space g" "f \<noteq> []" "list_all rx_nonspace f"
    "b \<noteq> []" "rx_space (hd b)"
  shows "match (Then rx_field r) (g @ f @ b) cs k = Some v"
proof -
  have "\<not> rx_nonspace (hd b)" using assms(7) by (rule space_classes)
  then have f: "match (Then (Plus rx_nonspace) r) (f @ b) cs k = Some v"
    by (intro match_then_Plus [OF assms(1,4,5)]) simp
  have "\<not> rx_space (hd (f @ b))" using run_hd [OF assms(4,5), of b] by (rule space_classes)
  then have "match (Then (Plus rx_space) (Then (Plus rx_nonspace) r)) (g @ f @ b) cs k = Some v"
    by (intro match_then_Plus [OF f assms(2,3)]) blast
  then show ?thesis by simp
qed

text \<open>The groups the expression captures are the parts of the line.\<close>

lemma lsRegex_match:
  assumes "rx_nonspace ty" "list_all rx_nonspace (p1 @ p2 @ p3)" "length p1 = 3" "length p2 = 3" "length p3 = 3"
    and fs: "f1 \<noteq> []" "list_all rx_nonspace f1" "f2 \<noteq> []" "list_all rx_nonspace f2" "f3 \<noteq> []" "list_all rx_nonspace f3"
    and sz: "sz \<noteq> []" "list_all is_digit sz" and mon: "mon \<noteq> []" "list_all rx_word mon"
    and day: "day \<noteq> []" "list_all is_digit day" and clk: "clk \<noteq> []" "list_all rx_clock clk"
    and name: "name \<noteq> []" "list_all rx_any name" "rx_nonspace (hd name)"
    and gs: "g0 \<noteq> []" "list_all rx_space g0" "g1 \<noteq> []" "list_all rx_space g1" "g2 \<noteq> []" "list_all rx_space g2"
      "g3 \<noteq> []" "list_all rx_space g3" "g4 \<noteq> []" "list_all rx_space g4" "g5 \<noteq> []" "list_all rx_space g5"
      "g6 \<noteq> []" "list_all rx_space g6" "g7 \<noteq> []" "list_all rx_space g7"
  shows "FindStringSubmatch lsRegex (ty # p1 @ p2 @ p3 @ g0 @ f1 @ g1 @ f2 @ g2 @ f3 @ g3 @ sz @ g4 @
      mon @ g5 @ day @ g6 @ clk @ g7 @ name) =
    Some [(8, name), (7, clk), (6, mon @ g5 @ day), (5, sz), (4, p3), (3, p2), (2, p1), (1, [ty])]"
proof -
  let ?k = "\<lambda>_ cs. Some (cs :: caps)"
  have sp: "rx_space (hd (g @ b))" if "g \<noteq> []" "list_all rx_space g" for g b using run_hd that by blast
  have dg: "\<not> rx_space (hd (a @ b))" if "a \<noteq> []" "list_all is_digit a" for a b
    using run_hd [OF that, of b] by (rule space_classes)
  note e8 = match_cap_end [OF name(1,2), of ?k 8]
  have n7: "\<not> rx_space (hd name)" using name(3) by (rule space_classes)
  have m7: "match (Then (Cap 7 (Plus rx_clock)) (Then (Plus rx_space) (Then (Cap 8 (Plus rx_any)) EndText)))
      (clk @ g7 @ name) cs ?k = Some ((8, name) # (7, clk) # cs)" for cs
    by (rule match_then_cap_Plus [OF match_then_Plus [OF e8 gs(15,16)] clk])
      (use n7 sp [OF gs(15,16), of name] space_classes(4) in auto)
  have c7: "\<not> rx_space (hd (clk @ b))" for b using run_hd [OF clk, of b] by (rule space_classes)
  have m6: "match (Then (Cap 6 (Then (Plus rx_word) (Then (Plus rx_space) (Plus is_digit))))
      (Then (Plus rx_space) (Then (Cap 7 (Plus rx_clock)) (Then (Plus rx_space) (Then (Cap 8 (Plus rx_any)) EndText)))))
      (mon @ g5 @ day @ g6 @ clk @ g7 @ name) cs ?k = Some ((8, name) # (7, clk) # (6, mon @ g5 @ day) # cs)" for cs
    by (rule match_then_cap_runs [OF match_then_Plus [OF m7 gs(13,14)] mon _ gs(11,12) _ day])
      (use c7 sp [OF gs(11,12), of "[]"] sp [OF gs(13,14)] dg [OF day, of "[]"] space_classes(2,3) in auto)
  have w6: "\<not> rx_space (hd (mon @ b))" for b using run_hd [OF mon, of b] by (rule space_classes)
  have m5: "match (Then (Cap 5 (Plus is_digit)) (Then (Plus rx_space) (Then (Cap 6 (Then (Plus rx_word) (Then (Plus rx_space) (Plus is_digit))))
      (Then (Plus rx_space) (Then (Cap 7 (Plus rx_clock)) (Then (Plus rx_space) (Then (Cap 8 (Plus rx_any)) EndText)))))))
      (sz @ g4 @ mon @ g5 @ day @ g6 @ clk @ g7 @ name) cs ?k =
      Some ((8, name) # (7, clk) # (6, mon @ g5 @ day) # (5, sz) # cs)" for cs
    by (rule match_then_cap_Plus [OF match_then_Plus [OF m6 gs(9,10)] sz])
      (use w6 sp [OF gs(9,10)] space_classes(2) in auto)
  obtain a1 a2 a3 where p1: "p1 = [a1, a2, a3]" using assms(3) by (auto simp: length_Suc_conv numeral_3_eq_3)
  obtain b1 b2 b3 where p2: "p2 = [b1, b2, b3]" using assms(4) by (auto simp: length_Suc_conv numeral_3_eq_3)
  obtain c1 c2 c3 where p3: "p3 = [c1, c2, c3]" using assms(5) by (auto simp: length_Suc_conv numeral_3_eq_3)
  show ?thesis
    unfolding FindStringSubmatch_def lsRegex_def p1 p2 p3 append_Cons append_Nil
    by (rule match_then_Greedy_none [OF match_then_cap_Cls [OF match_then_cap_three [OF match_then_cap_three
          [OF match_then_cap_three [OF match_field [OF match_field [OF match_field
            [OF match_then_Plus [OF m5 gs(7,8)] gs(5,6) fs(5,6)] gs(3,4) fs(3,4)] gs(1,2) fs(1,2)]]]]]])
      (use assms(1,2) gs dg [OF sz] sp [OF gs(3,4)] sp [OF gs(5,6)] sp [OF gs(7,8)] space_classes(8)
        in \<open>auto simp: p1 p2 p3\<close>)
qed

lemma ls_ok_match:
  assumes "ls_ok l"
  shows "FindStringSubmatch lsRegex (formatLs l) =
    Some [(8, l_name l), (7, l_clock l), (6, l_month l @ l_gaps l ! 5 @ l_day l), (5, l_size l),
      (4, l_perms l ! 2), (3, l_perms l ! 1), (2, l_perms l ! 0), (1, [l_type l])]"
proof -
  obtain p1 p2 p3 where p: "l_perms l = [p1, p2, p3]"
    using assms by (auto simp: ls_ok_def length_Suc_conv numeral_3_eq_3)
  obtain f1 f2 f3 where f: "l_fields l = [f1, f2, f3]"
    using assms by (auto simp: ls_ok_def length_Suc_conv numeral_3_eq_3)
  obtain g0 g1 g2 g3 g4 g5 g6 g7 where g: "l_gaps l = [g0, g1, g2, g3, g4, g5, g6, g7]"
    using assms by (auto simp: ls_ok_def length_Suc_conv eval_nat_numeral)
  have "formatLs l = l_type l # p1 @ p2 @ p3 @ g0 @ f1 @ g1 @ f2 @ g2 @ f3 @ g3 @ l_size l @ g4 @
      l_month l @ g5 @ l_day l @ g6 @ l_clock l @ g7 @ l_name l"
    by (simp add: formatLs_def Let_def p f g)
  with lsRegex_match [of "l_type l" p1 p2 p3 f1 f2 f3 "l_size l" "l_month l" "l_day l" "l_clock l" "l_name l"
      g0 g1 g2 g3 g4 g5 g6 g7] assms show ?thesis
    by (simp add: ls_ok_def p f g)
qed

lemma ls_ok_not_total:
  assumes "ls_ok l"
  shows "\<not> HasPrefix (formatLs l) ''total ''"
proof -
  obtain p1 p2 p3 where p: "l_perms l = [p1, p2, p3]" "length p1 = 3" "length p2 = 3" "list_all rx_nonspace p2"
    using assms by (auto simp: ls_ok_def length_Suc_conv numeral_3_eq_3)
  then obtain a b c x y z where "p1 = [a, b, c]" "p2 = [x, y, z]"
    by (auto simp: length_Suc_conv numeral_3_eq_3)
  with p show ?thesis by (auto simp: formatLs_def Let_def HasPrefix_def rx_nonspace_def rx_space_def)
qed

lemma ParseUint_Itoa: "0 \<le> n \<Longrightarrow> n < 2 ^ 64 \<Longrightarrow> ParseUint (Itoa n) 10 64 = Inr (nat n)"
  using ParseUint_nat_digits [of "nat n" 64] by (simp add: Itoa_def nat_less_iff)

lemma int64_small: "0 \<le> n \<Longrightarrow> n < 2 ^ 63 \<Longrightarrow> int64 (nat n) = n"
proof -
  assume n: "0 \<le> n" "n < 2 ^ 63"
  then have "int64 (nat n) = sint (word_of_int n :: 64 word)" by (simp add: int64_def)
  also have "\<dots> = signed_take_bit 63 n" by (simp only: sint_sbintrunc' len_num1 len_bit0) simp
  also have "\<dots> = n" using n by (intro signed_take_bit_int_eq_self) (auto intro: order.trans [of _ 0])
  finally show ?thesis .
qed

lemma bit_flag: "k < 32 \<Longrightarrow> bit (push_bit k (1 :: 32 word)) n \<longleftrightarrow> n = k"
  by (auto simp: bit_exp_iff)

lemma bit_mode_flags: "bit ModeDir n \<longleftrightarrow> n = 31" "bit ModeSymlink n \<longleftrightarrow> n = 27"
  unfolding ModeDir_def ModeSymlink_def by (rule bit_flag; simp)+

lemma bit_permBits:
  assumes "i < 3"
  shows "bit (permBits i p) n \<longleftrightarrow> (n = 3 * (2 - i) + 2 \<and> p ! 0 = CHR ''r'') \<or>
    (n = 3 * (2 - i) + 1 \<and> p ! 1 = CHR ''w'') \<or>
    (n = 3 * (2 - i) \<and> (p ! 2 = CHR ''x'' \<or> p ! 2 = CHR ''s''))"
proof -
  let ?k = "3 * (2 - i)"
  have k: "?k + 2 < 32" "?k + 1 < 32" "?k < 32" using assms by auto
  have "push_bit ?k (4 :: 32 word) = push_bit (?k + 2) 1" "push_bit ?k (2 :: 32 word) = push_bit (?k + 1) 1"
    by (simp_all add: push_bit_eq_mult power_add)
  then have "bit (push_bit ?k (4 :: 32 word)) n \<longleftrightarrow> n = ?k + 2" "bit (push_bit ?k (2 :: 32 word)) n \<longleftrightarrow> n = ?k + 1"
    "bit (push_bit ?k (1 :: 32 word)) n \<longleftrightarrow> n = ?k"
    using bit_flag [OF k(1)] bit_flag [OF k(2)] bit_flag [OF k(3)] by metis+
  then show ?thesis unfolding permBits_def bit_or_iff by simp
qed

lemma bit_listMode:
  "bit (listMode m) n \<longleftrightarrow> (n = 31 \<and> group m 1 = ''d'') \<or> (n = 27 \<and> group m 1 = ''l'') \<or>
    bit (permBits 0 (group m 2)) n \<or> bit (permBits 1 (group m 3)) n \<or> bit (permBits 2 (group m 4)) n"
  by (auto simp: listMode_def bit_or_iff bit_mode_flags)

lemma and_flag: "k < 32 \<Longrightarrow> (w :: 32 word) AND push_bit k 1 \<noteq> 0 \<longleftrightarrow> bit w k"
proof -
  assume k: "k < 32"
  have "w AND push_bit k 1 \<noteq> 0 \<longleftrightarrow> (\<exists>n. bit (w AND push_bit k 1) n)"
    by (metis bit_0_eq bit_eq_iff bot_apply bot_bool_def)
  also have "\<dots> \<longleftrightarrow> bit w k" unfolding bit_and_iff bit_flag [OF k] by blast
  finally show ?thesis .
qed

lemma IsDir_bit: "IsDir f \<longleftrightarrow> bit (mode f) 31"
  unfolding IsDir_def ModeDir_def by (rule and_flag) simp

lemma symlink_bit: "md AND ModeSymlink \<noteq> 0 \<longleftrightarrow> bit md 27"
  unfolding ModeSymlink_def by (rule and_flag) simp

text \<open>What \<open>int64\<close> makes of a size: from \<open>2 ^ 63\<close> on it is negative.\<close>

lemma int64_wraps:
  assumes "0 \<le> n" "n < 2 ^ 64"
  shows "int64 (nat n) = (if n < 2 ^ 63 then n else n - 2 ^ 64)"
proof (cases "n < 2 ^ 63")
  case False
  have "int64 (nat n) = sint (word_of_int n :: 64 word)" using assms by (simp add: int64_def)
  also have "(word_of_int n :: 64 word) = word_of_int (n - 2 ^ 64)" by (simp add: word_of_int_eq_iff take_bit_eq_mod)
  also have "sint (word_of_int (n - 2 ^ 64) :: 64 word) = signed_take_bit 63 (n - 2 ^ 64)"
    by (simp only: sint_sbintrunc' len_num1 len_bit0) simp
  also have "\<dots> = n - 2 ^ 64" using assms False by (intro signed_take_bit_int_eq_self) auto
  finally show ?thesis using False by simp
qed (use assms int64_small in simp)

text \<open>A line of \<^verbatim>\<open>ls -l\<close> that is not a symbolic link, with any size that is read without an error.\<close>

abbreviation lsGroups :: "lsLine \<Rightarrow> caps" where
  "lsGroups l \<equiv> [(8, l_name l), (7, l_clock l), (6, l_month l @ l_gaps l ! 5 @ l_day l), (5, l_size l),
      (4, l_perms l ! 2), (3, l_perms l ! 1), (2, l_perms l ! 0), (1, [l_type l])]"

lemma lsGroups:
  "group (lsGroups l) 1 = [l_type l]" "group (lsGroups l) 2 = l_perms l ! 0" "group (lsGroups l) 3 = l_perms l ! 1"
  "group (lsGroups l) 4 = l_perms l ! 2" "group (lsGroups l) 5 = l_size l"
  "group (lsGroups l) 6 = l_month l @ l_gaps l ! 5 @ l_day l" "group (lsGroups l) 7 = l_clock l" "group (lsGroups l) 8 = l_name l"
  by (simp_all add: group_def)

lemma parseLIST_plain:
  assumes ok: "ls_ok l" and ty: "l_type l \<noteq> CHR ''l''" and sz: "l_size l = Itoa n" "0 \<le> n" "n < 2 ^ 64"
    and name: "slash \<notin> set (l_name l)"
    and time: "listTime now (l_month l @ l_gaps l ! 5 @ l_day l) (l_clock l) loc = Inr t"
    and entry: "\<not> (skip \<and> l_name l \<in> {''.'', ''..''})"
  shows "parseLIST now (formatLs l) loc skip = Inr (Some \<lparr>file_name = l_name l, size = int64 (nat n),
    mode = listMode (lsGroups l), mtime = t, raw = formatLs l\<rparr>)"
proof -
  have link: "\<not> listMode (lsGroups l) AND ModeSymlink \<noteq> 0"
    unfolding symlink_bit bit_listMode lsGroups using ty by (simp add: bit_permBits)
  have base: "Base (l_name l) = l_name l" using ok name by (intro Base_plain) (simp_all add: ls_ok_def)
  have u: "ParseUint (l_size l) 10 64 = Inr (nat n)" using sz by (simp add: ParseUint_Itoa)
  show ?thesis
    unfolding parseLIST_def ls_ok_match [OF ok] option.case lsGroups u sum.case time Let_def
    using entry ls_ok_not_total [OF ok] link base by simp
qed

text \<open>C15. A line of \<^verbatim>\<open>ls -l\<close> is read back: the name, the size, the time, the kind of the entry and the nine
  permission bits, however the columns are spaced. The entries for the directory itself and its parent are
  skipped when that is asked for.\<close>

theorem parseLIST_reads_entry:
  assumes ok: "ls_ok l" and ty: "l_type l \<noteq> CHR ''l''" and sz: "l_size l = Itoa n" "0 \<le> n" "n < 2 ^ 63"
    and name: "slash \<notin> set (l_name l)"
    and time: "listTime now (l_month l @ l_gaps l ! 5 @ l_day l) (l_clock l) loc = Inr t"
    and entry: "\<not> (skip \<and> l_name l \<in> {''.'', ''..''})"
  shows "\<exists>f. parseLIST now (formatLs l) loc skip = Inr (Some f) \<and>
    file_name f = l_name l \<and> size f = n \<and> mtime f = t \<and> (IsDir f \<longleftrightarrow> l_type l = CHR ''d'') \<and>
    (\<forall>i < 3. (bit (mode f) (8 - 3 * i) \<longleftrightarrow> l_perms l ! i ! 0 = CHR ''r'') \<and>
      (bit (mode f) (7 - 3 * i) \<longleftrightarrow> l_perms l ! i ! 1 = CHR ''w'') \<and>
      (bit (mode f) (6 - 3 * i) \<longleftrightarrow> l_perms l ! i ! 2 \<in> {CHR ''x'', CHR ''s''}))"
proof -
  define f where "f = \<lparr>file_name = l_name l, size = n, mode = listMode (lsGroups l), mtime = t, raw = formatLs l\<rparr>"
  have "parseLIST now (formatLs l) loc skip = Inr (Some f)"
    using parseLIST_plain [OF ok ty sz(1,2) _ name time entry] sz int64_small [OF sz(2,3)] by (simp add: f_def)
  moreover have "IsDir f \<longleftrightarrow> l_type l = CHR ''d''"
    unfolding IsDir_bit f_def ftpFile.select_convs bit_listMode lsGroups by (simp add: bit_permBits)
  moreover have "bit (mode f) (8 - 3 * i) \<longleftrightarrow> l_perms l ! i ! 0 = CHR ''r''"
    "bit (mode f) (7 - 3 * i) \<longleftrightarrow> l_perms l ! i ! 1 = CHR ''w''"
    "bit (mode f) (6 - 3 * i) \<longleftrightarrow> l_perms l ! i ! 2 \<in> {CHR ''x'', CHR ''s''}" if "i < 3" for i
  proof -
    from that consider "i = 0" | "i = 1" | "i = 2" by linarith
    then show "bit (mode f) (8 - 3 * i) \<longleftrightarrow> l_perms l ! i ! 0 = CHR ''r''"
      "bit (mode f) (7 - 3 * i) \<longleftrightarrow> l_perms l ! i ! 1 = CHR ''w''"
      "bit (mode f) (6 - 3 * i) \<longleftrightarrow> l_perms l ! i ! 2 \<in> {CHR ''x'', CHR ''s''}"
      unfolding f_def ftpFile.select_convs bit_listMode lsGroups by (cases; simp add: bit_permBits)+
  qed
  ultimately show ?thesis by (simp add: f_def)
qed

definition sampleLs :: lsLine where
  "sampleLs = \<lparr>l_type = CHR ''d'', l_perms = [''rwx'', ''r-x'', ''r--''], l_fields = [''8'', ''goftp'', ''20''],
     l_size = Itoa 272, l_month = ''Jul'', l_day = ''28'', l_clock = ''2013'', l_name = ''git-ignored'',
     l_gaps = replicate 8 '' ''\<rparr>"

theorem parseLIST_reads_entry_witness:
  "\<exists>f. parseLIST (2024, 3) (formatLs sampleLs) ''UTC'' True = Inr (Some f) \<and>
    file_name f = l_name sampleLs \<and> size f = 272 \<and>
    mtime f = \<lparr>t_year = 2013, t_month = 7, t_day = 28, t_hour = 0, t_min = 0, t_sec = 0, t_nsec = 0, t_loc = ''UTC''\<rparr> \<and>
    (IsDir f \<longleftrightarrow> l_type sampleLs = CHR ''d'') \<and>
    (\<forall>i < 3. (bit (mode f) (8 - 3 * i) \<longleftrightarrow> l_perms sampleLs ! i ! 0 = CHR ''r'') \<and>
      (bit (mode f) (7 - 3 * i) \<longleftrightarrow> l_perms sampleLs ! i ! 1 = CHR ''w'') \<and>
      (bit (mode f) (6 - 3 * i) \<longleftrightarrow> l_perms sampleLs ! i ! 2 \<in> {CHR ''x'', CHR ''s''}))"
proof -
  have "ls_ok sampleLs" "l_type sampleLs \<noteq> CHR ''l''" "l_size sampleLs = Itoa 272" "slash \<notin> set (l_name sampleLs)"
    "listTime (2024, 3) (l_month sampleLs @ l_gaps sampleLs ! 5 @ l_day sampleLs) (l_clock sampleLs) ''UTC'' =
      Inr \<lparr>t_year = 2013, t_month = 7, t_day = 28, t_hour = 0, t_min = 0, t_sec = 0, t_nsec = 0, t_loc = ''UTC''\<rparr>"
    "\<not> (True \<and> l_name sampleLs \<in> {''.'', ''..''})"
    by code_simp+
  then show ?thesis by (intro parseLIST_reads_entry) simp_all
qed

text \<open>C16. The range of a size. A listing may show any size below \<open>2 ^ 64\<close>; it is read as an unsigned number and kept in 64 bits with a
  sign. A size below \<open>2 ^ 63\<close> is exact, and from there on the file is reported with a negative size, and without an error.\<close>

theorem parseLIST_size_wraps:
  assumes "ls_ok l" "l_type l \<noteq> CHR ''l''" "l_size l = Itoa n" "0 \<le> n" "n < 2 ^ 64" "slash \<notin> set (l_name l)"
    and "listTime now (l_month l @ l_gaps l ! 5 @ l_day l) (l_clock l) loc = Inr t"
    and "\<not> (skip \<and> l_name l \<in> {''.'', ''..''})"
  shows "\<exists>f. parseLIST now (formatLs l) loc skip = Inr (Some f) \<and>
    size f = (if n < 2 ^ 63 then n else n - 2 ^ 64) \<and> - (2 ^ 63) \<le> size f \<and> size f < 2 ^ 63"
  using parseLIST_plain [OF assms] int64_wraps [OF assms(4,5)] assms(4,5) by simp

theorem parseLIST_size_wraps_witness:
  "\<exists>f. parseLIST (2024, 3) (formatLs (sampleLs\<lparr>l_size := Itoa 18446744073709551615\<rparr>)) ''UTC'' True = Inr (Some f) \<and> size f = - 1"
proof -
  let ?l = "sampleLs\<lparr>l_size := Itoa 18446744073709551615\<rparr>"
  have sample: "ls_ok sampleLs" "l_type sampleLs \<noteq> CHR ''l''" "slash \<notin> set (l_name sampleLs)"
    "listTime (2024, 3) (l_month sampleLs @ l_gaps sampleLs ! 5 @ l_day sampleLs) (l_clock sampleLs) ''UTC'' =
      Inr \<lparr>t_year = 2013, t_month = 7, t_day = 28, t_hour = 0, t_min = 0, t_sec = 0, t_nsec = 0, t_loc = ''UTC''\<rparr>"
    "\<not> (True \<and> l_name sampleLs \<in> {''.'', ''..''})"
    by code_simp+
  have digits: "Itoa n \<noteq> [] \<and> list_all is_digit (Itoa n)" if "0 \<le> n" for n
    using that nat_digits_digits by (auto simp: Itoa_def list_all_iff)
  with sample(1) have "ls_ok ?l" by (simp add: ls_ok_def)
  from parseLIST_size_wraps [OF this, of 18446744073709551615 "(2024, 3)" "''UTC''"] sample(2-5) show ?thesis by auto
qed

text \<open>A symbolic link is reported under its own name: what \<^verbatim>\<open>ls\<close> prints after the arrow, the target, has no
  influence on the name, not even when it holds slashes.\<close>

theorem parseLIST_symlink_name:
  assumes ok: "ls_ok l" and ty: "l_type l = CHR ''l''" and sz: "l_size l = Itoa n" "0 \<le> n" "n < 2 ^ 63"
    and name: "l_name l = link @ '' -> '' @ target" "link \<noteq> []" "slash \<notin> set link"
      "Index (link @ '' -> '' @ target) '' -> '' = int (length link)"
    and time: "listTime now (l_month l @ l_gaps l ! 5 @ l_day l) (l_clock l) loc = Inr t"
  shows "\<exists>f. parseLIST now (formatLs l) loc skip = Inr (Some f) \<and> file_name f = link \<and>
    bit (mode f) 27 \<and> \<not> IsDir f"
proof -
  let ?m = "[(8, l_name l), (7, l_clock l), (6, l_month l @ l_gaps l ! 5 @ l_day l), (5, l_size l),
      (4, l_perms l ! 2), (3, l_perms l ! 1), (2, l_perms l ! 0), (1, [l_type l])]"
  have g: "group ?m 1 = [l_type l]" "group ?m 2 = l_perms l ! 0" "group ?m 3 = l_perms l ! 1" "group ?m 4 = l_perms l ! 2"
    "group ?m 5 = l_size l" "group ?m 6 = l_month l @ l_gaps l ! 5 @ l_day l" "group ?m 7 = l_clock l" "group ?m 8 = l_name l"
    by (simp_all add: group_def)
  have bits: "bit (listMode ?m) 27" "\<not> bit (listMode ?m) 31"
    unfolding bit_listMode g using ty by (simp_all add: bit_permBits)
  have "listMode ?m AND ModeSymlink \<noteq> 0" unfolding symlink_bit by (rule bits)
  moreover have "l_name l \<noteq> ''.''" "l_name l \<noteq> ''..''"
    unfolding name(1) by (auto simp: append_eq_Cons_conv)
  moreover have "Base link = link" using name(2,3) by (rule Base_plain)
  moreover have u: "ParseUint (l_size l) 10 64 = Inr (nat n)" using sz by (simp add: ParseUint_Itoa)
  ultimately have "parseLIST now (formatLs l) loc skip = Inr (Some \<lparr>file_name = link, size = int64 (nat n),
      mode = listMode ?m, mtime = t, raw = formatLs l\<rparr>)"
    unfolding parseLIST_def ls_ok_match [OF ok] option.case g u sum.case time Let_def symlinkSeparator_def
    using ls_ok_not_total [OF ok] name(1,4) by simp
  with bits show ?thesis by (simp add: IsDir_bit)
qed

theorem parseLIST_symlink_name_witness:
  "\<exists>f. parseLIST (2024, 3) (formatLs (sampleLs\<lparr>l_type := CHR ''l'', l_name := ''config'' @ '' -> '' @ ''etc/real.conf''\<rparr>)) ''UTC'' True =
      Inr (Some f) \<and> file_name f = ''config'' \<and> bit (mode f) 27 \<and> \<not> IsDir f"
proof -
  let ?l = "sampleLs\<lparr>l_type := CHR ''l'', l_name := ''config'' @ '' -> '' @ ''etc/real.conf''\<rparr>"
  have "ls_ok ?l" "l_type ?l = CHR ''l''" "l_size ?l = Itoa 272"
    "listTime (2024, 3) (l_month ?l @ l_gaps ?l ! 5 @ l_day ?l) (l_clock ?l) ''UTC'' =
      Inr \<lparr>t_year = 2013, t_month = 7, t_day = 28, t_hour = 0, t_min = 0, t_sec = 0, t_nsec = 0, t_loc = ''UTC''\<rparr>"
    "Index (''config'' @ '' -> '' @ ''etc/real.conf'') '' -> '' = int (length ''config'')"
    by code_simp+
  then show ?thesis by (intro parseLIST_symlink_name [where n = 272 and target = "''etc/real.conf''"]) simp_all
qed

section \<open>Where the parsers differ from what they promise\<close>

text \<open>The Microsoft format ignores the request to skip the directory itself and its parent: a \<^verbatim>\<open><DIR>\<close> line
  for \<^verbatim>\<open>..\<close> is reported as an entry, although \<open>ReadDir\<close> promises not to.\<close>

theorem dos_parent_not_skipped:
  "\<exists>f. parseLIST now ''10-09-20  09:36PM       <DIR>          ..'' loc True = Inr (Some f) \<and> file_name f = ''..''"
proof -
  have ls: "FindStringSubmatch lsRegex ''10-09-20  09:36PM       <DIR>          ..'' = None"
    "\<not> HasPrefix ''10-09-20  09:36PM       <DIR>          ..'' ''total ''" by code_simp+
  have dos: "FindStringSubmatch dosListRegex ''10-09-20  09:36PM       <DIR>          ..'' =
    Some [(5, ''..''), (3, ''<DIR>''), (2, ''09:36PM''), (1, ''10-09-20'')]" by code_simp
  have "parseChunks (layoutDos [StdYear]) ''10-09-20 09:36PM'' noFields =
    Some (noFields\<lparr>f_month := 10, f_day := 9, f_year := 2020, f_hour := 9, f_min := 36, f_pm := True\<rparr>, [])"
    by code_simp
  then have "ParseInLocation (layoutDos [StdYear]) ''10-09-20 09:36PM'' loc = Inr \<lparr>t_year = 2020, t_month = 10,
      t_day = 9, t_hour = 21, t_min = 36, t_sec = 0, t_nsec = 0, t_loc = loc\<rparr>"
    by (simp add: ParseInLocation_def noFields_def Let_def daysIn_def)
  with ls dos show ?thesis by (simp add: parseLIST_def parseDOSLIST_def Let_def group_def)
qed

text \<open>C40. A machine-readable entry whose name contains a semicolon followed by a space is refused, although the
  name is everything after the first such pair.\<close>

theorem parseMLST_refuses_semicolon:
  assumes "CHR '' '' \<notin> set facts" "facts \<noteq> []" "CHR '' '' \<notin> set a" "\<not> is_space (hd facts)"
  shows "\<exists>e. parseMLST (facts @ ''; '' @ a @ ''; '' @ b) skip = Inl e"
proof -
  have "Split (facts @ ''; '' @ a @ ''; '' @ b) ''; '' = facts # a # Split b ''; ''"
    using Index_sep2 [OF assms(1), of "a @ ''; '' @ b"] Index_sep2 [OF assms(3), of b]
    by (subst Split.simps, simp add: Let_def) (subst Split.simps, simp add: Let_def)
  moreover have "Split b ''; '' \<noteq> []" by (subst Split.simps) (simp add: Let_def)
  moreover have "TrimSpace (facts @ ''; '' @ a @ ''; '' @ b) \<noteq> []"
    using assms(2,4) by (intro TrimSpace_nonempty [of "hd facts"]) simp_all
  ultimately show ?thesis by (auto simp: parseMLST_def Let_def split: list.split)
qed

theorem parseMLST_refuses_semicolon_witness:
  "\<exists>e. parseMLST (''type=file;size=1;modify=20200101000000'' @ ''; '' @ ''a'' @ ''; '' @ ''b'') False = Inl e"
  by (rule parseMLST_refuses_semicolon) (simp_all add: is_space_def)

section \<open>The year of a recent file\<close>

definition dayDigits :: "int \<Rightarrow> string" where
  "dayDigits d = (if d < 10 then [char_of (48 + nat d)] else pad2 d)"

lemma space_not_digit: "\<not> is_digit CHR '' ''" "\<not> is_digit CHR '':''"
  by (simp_all add: is_digit_def)

lemma digit_not_space: "is_digit c \<Longrightarrow> c \<noteq> CHR '' ''"
  by (auto simp: is_digit_def)

lemma dayDigits_hd: "1 \<le> d \<Longrightarrow> d \<le> 31 \<Longrightarrow> is_digit (hd (dayDigits d)) \<and> dayDigits d \<noteq> []"
  using pad2_digits [of d] by (auto simp: dayDigits_def pad2_def)

lemma numField_day:
  assumes "1 \<le> d" "d \<le> 31"
  shows "numField (dayDigits d @ CHR '' '' # rest) False 0 99 upd f = Some (upd d f, CHR '' '' # rest)"
proof (cases "d < 10")
  case True
  with assms show ?thesis
    by (simp add: numField_def getnum_def dayDigits_def space_not_digit in_range_def)
next
  case False
  with assms show ?thesis by (simp add: dayDigits_def numField_pad2)
qed

lemma skipText_spaces:
  assumes "list_all (\<lambda>c. c = CHR '' '') g" "g \<noteq> []" "s \<noteq> []" "hd s \<noteq> CHR '' ''"
  shows "skipText '' '' (g @ s) = Some s"
proof -
  have "hd (g @ s) = CHR '' ''" using assms(1,2) by (cases g) auto
  moreover have "dropWhile (\<lambda>c. c = CHR '' '') (g @ s) = s"
    using assms(1,3,4) by (induction g) (auto simp: neq_Nil_conv)
  ultimately show ?thesis using assms(2) by simp
qed

lemma lookupMonth_name:
  assumes "k < 12"
  shows "lookupMonth 1 shortMonthNames (shortMonthNames ! k @ rest) = Some (int k + 1, rest)"
proof -
  have k: "k \<in> set [0..<12]" using assms by simp
  have "list_all (\<lambda>k. length (shortMonthNames ! k) = 3 \<and>
      lookupMonth 1 shortMonthNames (shortMonthNames ! k) = Some (int k + 1, [])) [0..<12]" by code_simp
  with k have m: "length (shortMonthNames ! k) = 3"
      "lookupMonth 1 shortMonthNames (shortMonthNames ! k) = Some (int k + 1, [])" by (auto simp: list_all_iff)
  have "lookupMonth i ms (s @ rest) = map_option (\<lambda>(n, v). (n, v @ rest)) (lookupMonth i ms s)"
    if "length s = 3" "\<And>m. m \<in> set ms \<Longrightarrow> length m = 3" for i ms s
    using that by (induction ms arbitrary: i) auto
  moreover have "length n = 3" if "n \<in> set shortMonthNames" for n
    using that by (auto simp: shortMonthNames_def)
  ultimately show ?thesis using m by simp
qed

lemma parse_short:
  assumes "k < 12" "list_all (\<lambda>c. c = CHR '' '') g" "g \<noteq> []" "1 \<le> d" "d \<le> 31"
    "0 \<le> h" "h \<le> 23" "0 \<le> mi" "mi \<le> 59"
  shows "parseChunks layoutLsShort ((shortMonthNames ! k @ g @ dayDigits d) @ '' '' @ (pad2 h @ '':'' @ pad2 mi) @ rest) noFields =
    Some (noFields\<lparr>f_month := int k + 1, f_day := d, f_hour := h, f_min := mi\<rparr>, rest)"
proof -
  note day = dayDigits_hd [OF assms(4,5)]
  have d: "hd (dayDigits d @ u) \<noteq> CHR '' ''" for u
    using day digit_not_space by (cases "dayDigits d") auto
  have h: "skipText '' '' (CHR '' '' # pad2 h @ u) = Some (pad2 h @ u)" for u
    using skipText_spaces [of "'' ''" "pad2 h @ u"] pad2_digits [of h] assms digit_not_space
    by (auto simp: pad2_def)
  have s: "skipText '' '' (g @ dayDigits d @ CHR '' '' # u) = Some (dayDigits d @ CHR '' '' # u)" for u
    using skipText_spaces [OF assms(2,3), of "dayDigits d @ CHR '' '' # u"] day digit_not_space by auto
  have c: "skipText '':'' (CHR '':'' # u) = Some u" for u by simp
  show ?thesis
    unfolding layoutLsShort_def
    using assms by (simp add: parseChunk_def lookupMonth_name s d h c numField_pad2 numField_day del: skipText.simps)
qed

text \<open>C17. A listing with a time of day but no year is dated in the past twelve months as far as its month
  tells: in the year of the clock if the month is not later than the clock's month, and in the year before
  otherwise.\<close>

theorem listTime_chooses_year:
  assumes k: "k < 12" and g: "list_all (\<lambda>c. c = CHR '' '') g" "g \<noteq> []"
    and y: "y = (if int k + 1 > M then Y - 1 else Y)" "0 \<le> y" "y < 10000" "Itoa y = pad4 y"
    and d: "1 \<le> d" "d \<le> daysIn (int k + 1) y" and h: "0 \<le> h" "h \<le> 23" "0 \<le> mi" "mi \<le> 59"
  shows "listTime (Y, M) (shortMonthNames ! k @ g @ dayDigits d) (pad2 h @ '':'' @ pad2 mi) loc =
    Inr \<lparr>t_year = y, t_month = int k + 1, t_day = d, t_hour = h, t_min = mi, t_sec = 0, t_nsec = 0, t_loc = loc\<rparr>"
proof -
  let ?day = "shortMonthNames ! k @ g @ dayDigits d" and ?clk = "pad2 h @ '':'' @ pad2 mi"
  have d31: "d \<le> 31" using d(2) daysIn_le [of "int k + 1" y] by simp
  note short = parse_short [OF k g d(1) d31 h]
  have d0: "d \<le> daysIn (int k + 1) 0" using d(2) by (auto simp: daysIn_def isLeap_def split: if_splits)
  have one: "ParseInLocation layoutLsShort (?day @ '' '' @ ?clk) loc = Inr \<lparr>t_year = 0, t_month = int k + 1,
      t_day = d, t_hour = h, t_min = mi, t_sec = 0, t_nsec = 0, t_loc = loc\<rparr>"
    using short [of "[]"] d d0 by (simp add: ParseInLocation_def noFields_def Let_def)
  have app: "parseChunks (xs @ ys) v f = (case parseChunks xs v f of None \<Rightarrow> None | Some (f', v') \<Rightarrow> parseChunks ys v' f')"
    for xs ys v f by (induction xs arbitrary: v f) (auto split: option.split)
  have year: "parseChunks [Text '' '', StdLongYear] ('' '' @ Itoa y) f = Some (f\<lparr>f_year := y\<rparr>, [])" for f
  proof -
    have "hd (pad4 y) \<noteq> CHR '' ''" "pad4 y \<noteq> []"
      using pad4_props [OF y(2,3)] digit_not_space by (auto simp: pad4_def pad2_def)
    then show ?thesis using pad4_props [OF y(2,3)] skipText_spaces [of "'' ''" "pad4 y"]
      by (simp add: y(4) parseChunk_def)
  qed
  have full: "ParseInLocation layoutLsFull (?day @ '' '' @ ?clk @ '' '' @ Itoa y) loc = Inr \<lparr>t_year = y,
      t_month = int k + 1, t_day = d, t_hour = h, t_min = mi, t_sec = 0, t_nsec = 0, t_loc = loc\<rparr>"
    using short [of "'' '' @ Itoa y"] d year
    by (simp add: ParseInLocation_def layoutLsFull_def app noFields_def Let_def)
  have "CHR '':'' \<notin> set (pad2 h)" using h space_not_digit by (intro digits_avoid pad2_digits) simp_all
  from Index_char [OF this, of "pad2 mi"] have "Contains ?clk '':''" by (simp add: Contains_def)
  then show ?thesis unfolding listTime_def one using full y(1) by (cases "int k + 1 > M") (simp_all add: Let_def)
qed

theorem listTime_chooses_year_witness:
  "listTime (2024, 3) (shortMonthNames ! 6 @ '' '' @ dayDigits 28) (pad2 5 @ '':'' @ pad2 3) ''UTC'' =
    Inr \<lparr>t_year = 2023, t_month = int 6 + 1, t_day = 28, t_hour = 5, t_min = 3, t_sec = 0, t_nsec = 0, t_loc = ''UTC''\<rparr>"
proof -
  have "Itoa 2023 = pad4 2023" by code_simp
  then show ?thesis by (intro listTime_chooses_year) (simp_all add: daysIn_def)
qed

end
