(* ===== verification/FileSystem.thy ===== *)
theory FileSystem
  imports ClientOps Listing
begin

text \<open>
  The file-system methods of the client (\<^verbatim>\<open>file_system.go\<close>): \<open>Delete\<close>, \<open>Rename\<close>, \<open>Mkdir\<close>, \<open>Rmdir\<close>, \<open>Getwd\<close>,
  \<open>ReadDir\<close> and \<open>Stat\<close> with its fallback, and the two ways of fetching lines they rest on: over the control
  channel (\<open>controlStringList\<close>) and over a data connection (\<open>dataStringList\<close>) with \<open>bufio.Scanner\<close>.
\<close>

section \<open>Single commands\<close>

text \<open>The part of a method between taking a connection and giving it back has its own name where
  a property speaks of it (\<open>renameOn\<close> and the like).\<close>

definition Delete :: "net \<Rightarrow> string \<Rightarrow> (goerror option, client) go" where
  "Delete net path = withIdle net Some (sendCommandExpected net replyFileActionOkay ''DELE %s'' [AStr path])"

definition renameOn :: "net \<Rightarrow> string \<Rightarrow> string \<Rightarrow> (goerror option, pworld) go" where
  "renameOn net from to =
     seq (sendCommandExpected net replyFileActionPending ''RNFR %s'' [AStr from]) (\<lambda>err.
     case err of
       Some e \<Rightarrow> ret (Some e)
     | None \<Rightarrow> sendCommandExpected net replyFileActionOkay ''RNTO %s'' [AStr to])"

definition Rename :: "net \<Rightarrow> string \<Rightarrow> string \<Rightarrow> (goerror option, client) go" where
  "Rename net from to = withIdle net Some (renameOn net from to)"

definition mkdirOn :: "net \<Rightarrow> string \<Rightarrow> (goerror + string, pworld) go" where
  "mkdirOn net path =
     seq (sendCommand net ''MKD %s'' [AStr path]) (\<lambda>(code, msg, err).
     case err of
       Some e \<Rightarrow> ret (Inl e)
     | None \<Rightarrow>
         if code \<noteq> replyDirCreated then ret (Inl (replyErr code msg))
         else (case extractDirName msg of Inl _ \<Rightarrow> ret (Inr path) | Inr dir \<Rightarrow> ret (Inr dir)))"

definition Mkdir :: "net \<Rightarrow> string \<Rightarrow> (goerror + string, client) go" where
  "Mkdir net path = withIdle net Inl (mkdirOn net path)"

definition Rmdir :: "net \<Rightarrow> string \<Rightarrow> (goerror option, client) go" where
  "Rmdir net path = withIdle net Some (sendCommandExpected net replyFileActionOkay ''RMD %s'' [AStr path])"

definition getwdOn :: "net \<Rightarrow> (goerror + string, pworld) go" where
  "getwdOn net =
     seq (sendCommand net ''PWD'' []) (\<lambda>(code, msg, err).
     case err of
       Some e \<Rightarrow> ret (Inl e)
     | None \<Rightarrow>
         if code \<noteq> replyDirCreated then ret (Inl (replyErr code msg))
         else (case extractDirName msg of Inl e \<Rightarrow> ret (Inl e) | Inr dir \<Rightarrow> ret (Inr dir)))"

definition Getwd :: "net \<Rightarrow> (goerror + string, client) go" where
  "Getwd net = withIdle net Inl (getwdOn net)"

text \<open>The type assertion \<^verbatim>\<open>err.(ftpError)\<close> panics on an error of another type.\<close>

definition commandNotSupporterdError :: "goerror \<Rightarrow> (bool, 's) go" where
  "commandNotSupporterdError err =
     (if is_ftpError err
      then ret (Code err = replyCommandSyntaxError \<or> Code err = replyCommandNotImplemented)
      else abort_with (Panicked ''interface conversion''))"

section \<open>Lines over the control channel\<close>

text \<open>The error of \<open>sendCommand\<close> is not looked at; only the code is.\<close>

definition controlListOn :: "net \<Rightarrow> string \<Rightarrow> goarg list \<Rightarrow> (goerror + string list, pworld) go" where
  "controlListOn net f as =
     (let cmd = Sprintf f as
      in seq (sendCommand net cmd []) (\<lambda>(code, msg, err).
         if \<not> positiveCompletionReply code then
           seq (debug ''unexpected response to %s: %d-%s'' [AStr cmd, AInt code, AStr msg]) (\<lambda>_.
           ret (Inl (replyErr code msg)))
         else ret (Inr (Split msg [CHR 0x0A]))))"

definition controlStringList :: "net \<Rightarrow> string \<Rightarrow> goarg list \<Rightarrow> (goerror + string list, client) go" where
  "controlStringList net f as = withIdle net Inl (controlListOn net f as)"

section \<open>Lines over a data connection\<close>

text \<open>
  \<open>bufio.Scanner\<close> with \<open>ScanLines\<close>: it reads into a buffer of at most 65536 bytes, cuts the complete lines
  off, drops a carriage return at the end of each, and gives up when the buffer is full and holds no
  complete line. A reader that returns nothing 101 times in a row is given up too. At the end of the
  data a last line without a line feed counts as a line. The answers of the environment are the pieces that were
  put in the buffer by one call of \<open>Read\<close>.
\<close>

definition ErrTooLong :: goerror where
  "ErrTooLong = LibError ''bufio.Scanner: token too long''"

definition ErrNoProgress :: goerror where
  "ErrNoProgress = LibError ''multiple Read calls return no data or error''"

definition dropCR :: "string \<Rightarrow> string" where
  "dropCR l = (if l \<noteq> [] \<and> last l = CHR 0x0D then butlast l else l)"

definition cutLines :: "string \<Rightarrow> string list \<times> string" where
  "cutLines buf = (let parts = Split buf [CHR 0x0A] in (map dropCR (butlast parts), last parts))"

fun fillBuffer :: "net \<Rightarrow> dataConn \<Rightarrow> nat \<Rightarrow> (string \<times> goerror option) io" where
  "fillBuffer net dc 0 = ret ([], Some ErrNoProgress)"
| "fillBuffer net dc (Suc k) =
     seq (Read net dc) (\<lambda>(bytes, err).
     if err \<noteq> None \<or> bytes \<noteq> [] then ret (bytes, err) else fillBuffer net dc k)"

text \<open>What the scanner makes of the rest of the data at its end, and of the error that ended it.\<close>

definition lastLines :: "string \<Rightarrow> string list" where
  "lastLines buf = (let (ls, rest) = cutLines buf in ls @ (if rest = [] then [] else [dropCR rest]))"

definition scanErr :: "goerror \<Rightarrow> goerror option" where
  "scanErr e = (if e = EOF then None else Some e)"

fun scanLines :: "net \<Rightarrow> dataConn \<Rightarrow> nat \<Rightarrow> string \<Rightarrow> string list \<Rightarrow> (string list \<times> goerror option) io" where
  "scanLines net dc fuel buf res =
     (let (ls, rest) = cutLines buf
      in if 65536 \<le> length rest then ret (res @ ls, Some ErrTooLong)
         else (case fuel of
             0 \<Rightarrow> abort_with OutOfFuel
           | Suc fuel' \<Rightarrow>
               seq (fillBuffer net dc 101) (\<lambda>(bytes, err).
               case err of
                 None \<Rightarrow> scanLines net dc fuel' (rest @ bytes) (res @ ls)
               | Some e \<Rightarrow> ret (res @ ls @ lastLines (rest @ bytes), scanErr e))))"

declare scanLines.simps [simp del]

text \<open>The end of \<open>dataStringList\<close>: the reply that follows the data decides before the error of the data does.\<close>

definition listResult :: "net \<Rightarrow> goerror option \<Rightarrow> string list \<Rightarrow> (goerror + string list, pworld) go" where
  "listResult net dataError res =
     seq (readResponse net) (\<lambda>(code, msg, err).
     case err of
       Some e \<Rightarrow> ret (Inl e)
     | None \<Rightarrow>
         if \<not> positiveCompletionReply code then
           seq (debug ''unexpected result: %d-%s'' [AInt code, AStr msg]) (\<lambda>_. ret (Inl (replyErr code msg)))
         else (case dataError of Some e \<Rightarrow> ret (Inl e) | None \<Rightarrow> ret (Inr res)))"

definition listBody :: "net \<Rightarrow> nat \<Rightarrow> string \<Rightarrow> dataConn \<Rightarrow> (goerror + string list, pworld) go" where
  "listBody net fuel cmd dc =
     seq (io (scanLines net dc fuel [] [])) (\<lambda>(res, serr).
     seq (case serr of
            None \<Rightarrow> ret None
          | Some e \<Rightarrow>
              seq (debug ''error reading %s data: %s'' [AStr cmd, AErr e]) (\<lambda>_.
              ret (Some (tempErr (Errorf ''error reading %s data: %s'' [AStr cmd, AErr e]))))) (\<lambda>dataError.
     seq (logClose net (Conn dc) ''error closing data connection: %s'') (\<lambda>_.
     listResult net dataError res)))"

definition dataStringList :: "net \<Rightarrow> nat \<Rightarrow> string \<Rightarrow> goarg list \<Rightarrow> (goerror + string list, client) go" where
  "dataStringList net fuel f as = withIdle net Inl
     (let cmd = Sprintf f as
      in withDataConn net (sendCommandExpected net replyGroupPreliminaryReply cmd []) Inl
           (\<lambda>_. ret ()) (\<lambda>_. ret ()) (listBody net fuel cmd))"

section \<open>Listing and describing\<close>

definition entriesOf :: "(string \<Rightarrow> goerror + ftpFile option) \<Rightarrow> string list \<Rightarrow> (goerror + ftpFile list, client) go" where
  "entriesOf parse entries =
     (case parseEntries parse entries of
        Inl e \<Rightarrow> seq (clDebug ''error in ReadDir: %s'' [AErr e]) (\<lambda>_. ret (Inl e))
      | Inr files \<Rightarrow> ret (Inr files))"

text \<open>\<open>now\<close> is the clock that \<open>parseLIST\<close> reads; a \<open>nil\<close> location does not occur after \<open>newClient\<close>.\<close>

definition serverLocation :: "client \<Rightarrow> location" where
  "serverLocation c = (case ServerLocation (clConfig c) of None \<Rightarrow> [] | Some l \<Rightarrow> l)"

definition ReadDir :: "net \<Rightarrow> nat \<Rightarrow> clock \<Rightarrow> string \<Rightarrow> (goerror + ftpFile list, client) go" where
  "ReadDir net fuel now path =
     seq (dataStringList net fuel ''MLSD %s'' [AStr path]) (\<lambda>r.
     case r of
       Inr entries \<Rightarrow> entriesOf (\<lambda>e. parseMLST e True) entries
     | Inl err \<Rightarrow>
         seq (commandNotSupporterdError err) (\<lambda>unsupported.
         if \<not> unsupported then ret (Inl err)
         else
           seq (dataStringList net fuel ''LIST %s'' [AStr path]) (\<lambda>r.
           case r of
             Inl e \<Rightarrow> ret (Inl e)
           | Inr entries \<Rightarrow>
               seq (gets serverLocation) (\<lambda>loc. entriesOf (\<lambda>e. parseLIST now e loc True) entries))))"

text \<open>The first attempt of \<open>statViaLIST\<close>: the one line of \<^verbatim>\<open>LIST -d\<close>, if it names what was asked for.\<close>

definition describedAs :: "clock \<Rightarrow> location \<Rightarrow> string \<Rightarrow> goerror + string list \<Rightarrow> ftpFile option" where
  "describedAs now loc want r =
     (case r of
        Inr [line] \<Rightarrow>
          (case parseLIST now line loc False of
             Inr (Some info) \<Rightarrow> if file_name info = want then Some info else None
           | _ \<Rightarrow> None)
      | _ \<Rightarrow> None)"

definition statViaLIST :: "net \<Rightarrow> nat \<Rightarrow> clock \<Rightarrow> string \<Rightarrow> (goerror + ftpFile, client) go" where
  "statViaLIST net fuel now path =
     (let want = Base (TrimRight path ''/'');
          parent = Dir (TrimRight path ''/'')
      in seq (dataStringList net fuel ''LIST -d %s'' [AStr path]) (\<lambda>r.
         seq (gets serverLocation) (\<lambda>loc.
         case describedAs now loc want r of
           Some info \<Rightarrow> ret (Inr info)
         | None \<Rightarrow>
             if want = [] \<or> want = ''.'' \<or> want = ''/'' \<or> parent = path then
               ret (Inl (wrapErr (Errorf ''cannot stat %q without MLST: the server did not describe it and it has no parent to search'' [AStr path])))
             else
               seq (ReadDir net fuel now parent) (\<lambda>r.
               case r of
                 Inl e \<Rightarrow> ret (Inl e)
               | Inr entries \<Rightarrow>
                   (case find (\<lambda>f. file_name f = want) entries of
                      Some entry \<Rightarrow> ret (Inr entry)
                    | None \<Rightarrow> ret (Inl (wrapErr (Errorf ''%q not found in %q'' [AStr want, AStr parent]))))))))"

definition Stat :: "net \<Rightarrow> nat \<Rightarrow> clock \<Rightarrow> string \<Rightarrow> (goerror + ftpFile, client) go" where
  "Stat net fuel now path =
     seq (controlStringList net ''MLST %s'' [AStr path]) (\<lambda>r.
     case r of
       Inl err \<Rightarrow>
         seq (commandNotSupporterdError err) (\<lambda>unsupported.
         if unsupported then statViaLIST net fuel now path else ret (Inl err))
     | Inr lines \<Rightarrow>
         if length lines \<noteq> 3 then
           ret (Inl (wrapErr (Errorf ''unexpected MLST response: %v'' [AStrs lines])))
         else
           (case parseMLST (TrimLeft (lines ! 1) '' '') False of
              Inl e \<Rightarrow> ret (Inl e)
            | Inr None \<Rightarrow> ret (Inl (wrapErr (Errorf ''MLST reply described nothing: %v'' [AStrs lines])))
            | Inr (Some info) \<Rightarrow> ret (Inr info)))"

section \<open>Contracts of the single commands\<close>

abbreviation ftpErr :: "goerror option \<Rightarrow> bool" where
  "ftpErr err \<equiv> (\<forall>e. err = Some e \<longrightarrow> is_ftpError e)"

lemma extractDirName_error: "extractDirName msg = Inl e \<Longrightarrow> is_ftpError e"
  by (auto simp: extractDirName_def Let_def split: if_splits)

lemma Delete_ok: "cl_ok F (Delete net path) ftpErr"
  unfolding Delete_def by (rule withIdle_ok [OF conn_ok_ctl [OF ctl_ok_sendCommandExpected]]) simp

lemma Rmdir_ok: "cl_ok F (Rmdir net path) ftpErr"
  unfolding Rmdir_def by (rule withIdle_ok [OF conn_ok_ctl [OF ctl_ok_sendCommandExpected]]) simp

lemma Rename_ok: "cl_ok F (Rename net from to) ftpErr"
  unfolding Rename_def renameOn_def
  by (rule withIdle_ok [OF conn_ok_ctl [OF ctl_ok_call1 [OF ctl_ok_sendCommandExpected]]])
    (auto intro: ctl_ok_sendCommandExpected ctl_ok_ret)

lemma Mkdir_ok: "cl_ok F (Mkdir net path) (\<lambda>r. ftpErr (errOf r))"
  unfolding Mkdir_def mkdirOn_def
  by (rule withIdle_ok [OF conn_ok_ctl [OF ctl_ok_call3 [OF ctl_ok_sendCommand]]])
    (auto intro!: ctl_ok_if ctl_ok_ret split: sum.split)

lemma Getwd_ok: "cl_ok F (Getwd net) (\<lambda>r. ftpErr (errOf r))"
  unfolding Getwd_def getwdOn_def
  by (rule withIdle_ok [OF conn_ok_ctl [OF ctl_ok_call3 [OF ctl_ok_sendCommand]]])
    (auto intro!: ctl_ok_if ctl_ok_ret dest: extractDirName_error split: sum.split)

lemma controlStringList_ok: "cl_ok F (controlStringList net f as) (\<lambda>r. ftpErr (errOf r))"
  unfolding controlStringList_def controlListOn_def Let_def
  by (rule withIdle_ok [OF conn_ok_ctl [OF ctl_ok_call3 [OF ctl_ok_sendCommand]]])
    (auto intro!: ctl_ok_if ctl_ok_ret ctl_ok_then [OF ctl_ok_debug])

section \<open>Reading lines\<close>

text \<open>Reading keeps the connection and the sockets as they are.\<close>

lemma fillBuffer_live:
  "wp (fillBuffer net dc k) (\<lambda>_ h'. live h' = live h) never h"
proof (induction k arbitrary: h)
  case (Suc k)
  have "wp (fillBuffer net dc k) (\<lambda>_ h'. live h' = live h) never (EvDataIn s b r # EvReadDeadline s t # h)" for s b r t
    by (rule wp_mono [OF Suc]) simp_all
  then show ?case by (simp add: wp_seq wp_Read wp_if wp_ret Let_def split_beta)
qed (simp add: wp_simps)

lemma wp_scanLines:
  assumes "\<And>ls rest. cutLines buf = (ls, rest) \<Longrightarrow> 65536 \<le> length rest \<Longrightarrow> Q (res @ ls, Some ErrTooLong) h"
    and "\<And>ls rest. cutLines buf = (ls, rest) \<Longrightarrow> length rest < 65536 \<Longrightarrow>
      wp (fillBuffer net dc 101) (\<lambda>(bytes, err) h'. case err of
          None \<Rightarrow> wp (scanLines net dc fuel (rest @ bytes) (res @ ls)) Q E h'
        | Some e \<Rightarrow> Q (res @ ls @ lastLines (rest @ bytes), scanErr e) h') E h"
  shows "wp (scanLines net dc (Suc fuel) buf res) Q E h"
proof -
  obtain ls rest where cut: "cutLines buf = (ls, rest)" by (cases "cutLines buf")
  show ?thesis
  proof (cases "65536 \<le> length rest")
    case True
    with assms(1) [OF cut] cut show ?thesis by (subst scanLines.simps) (simp add: wp_ret)
  next
    case False
    then have "length rest < 65536" by simp
    from assms(2) [OF cut this] have "wp (fillBuffer net dc 101) (\<lambda>r. wp (case r of (bytes, err) \<Rightarrow> case err of
            None \<Rightarrow> scanLines net dc fuel (rest @ bytes) (res @ ls)
          | Some e \<Rightarrow> ret (res @ ls @ lastLines (rest @ bytes), scanErr e)) Q E) E h"
      by (rule wp_mono) (auto simp: wp_ret split: prod.splits option.splits)
    with False cut show ?thesis by (subst scanLines.simps) (simp add: wp_seq del: fillBuffer.simps)
  qed
qed

lemma scanLines_live:
  "wp (scanLines net dc fuel buf res) (\<lambda>_ h'. live h' = live h) (\<lambda>e _. e = OutOfFuel) h"
proof (induction fuel arbitrary: buf res h)
  case 0
  show ?case by (subst scanLines.simps) (simp add: wp_simps split: prod.split)
next
  case (Suc fuel)
  show ?case
  proof (rule wp_scanLines, simp, rule wp_mono [OF fillBuffer_live], goal_cases)
    case (1 ls rest r h')
    with Suc [of _ _ h'] show ?case by (auto split: prod.split option.split)
  qed simp
qed

text \<open>
  How many reads a data connection answers without an error or the end of the data. A server that ends
  its data connections answers at most some number of them.
\<close>

fun reads_on :: "handle \<Rightarrow> history \<Rightarrow> nat" where
  "reads_on s [] = 0"
| "reads_on s (EvDataIn s' _ _ # h) = (if s' = s then Suc (reads_on s h) else reads_on s h)"
| "reads_on s (_ # h) = reads_on s h"

definition ends_within :: "nat \<Rightarrow> net \<Rightarrow> bool" where
  "ends_within N net \<longleftrightarrow> (\<forall>h s. N \<le> reads_on s h \<longrightarrow> snd (net_read net h s) \<noteq> None)"

lemma fillBuffer_reads:
  assumes "ends_within N net"
  shows "wp (fillBuffer net dc (Suc k)) (\<lambda>(bytes, err) h'.
      err \<noteq> None \<or> reads_on (sock (Conn dc)) h < reads_on (sock (Conn dc)) h' \<and> reads_on (sock (Conn dc)) h' \<le> N) never h"
proof (induction k arbitrary: h)
  case 0
  show ?case
    using assms [unfolded ends_within_def, rule_format, of "sock (Conn dc)" "EvReadDeadline (sock (Conn dc)) (dcTimeout dc) # h"]
    by (simp add: wp_simps Let_def split_beta) (metis Suc_leI not_le)
next
  case (Suc k)
  show ?case
    unfolding fillBuffer.simps(2) [of net dc "Suc k"] wp_seq wp_Read Let_def
    using assms [unfolded ends_within_def, rule_format, of "sock (Conn dc)" "EvReadDeadline (sock (Conn dc)) (dcTimeout dc) # h"]
    by (auto simp del: fillBuffer.simps simp: wp_ret wp_if split_beta not_le Suc_le_eq intro!: wp_mono [OF Suc])
qed

lemma scanLines_fuel:
  assumes net: "ends_within N net" and "0 < fuel" "N < fuel + reads_on (sock (Conn dc)) h"
  shows "wp (scanLines net dc fuel buf res) (\<lambda>_ _. True) never h"
  using assms(2,3)
proof (induction fuel arbitrary: buf res h)
  case (Suc fuel)
  show ?case
  proof (rule wp_scanLines, simp, rule wp_mono [OF fillBuffer_reads [OF net, of dc 100, simplified]], goal_cases)
    case (1 ls rest r h')
    obtain bytes err where r: "r = (bytes, err)" by (cases r)
    show ?case
    proof (cases err)
      case None
      with 1 r Suc.prems have "0 < fuel" "N < fuel + reads_on (sock (Conn dc)) h'" by auto
      with Suc.IH None r show ?thesis by simp
    qed (simp add: r)
  qed simp
qed simp

definition enough :: "net \<Rightarrow> nat \<Rightarrow> bool" where
  "enough net fuel \<longleftrightarrow> (\<exists>N < fuel. ends_within N net)"

lemma scanLines_contract:
  "wp (scanLines net dc fuel buf res) (\<lambda>_ h'. live h' = live h) (\<lambda>e _. \<not> enough net fuel \<and> e = OutOfFuel) h"
proof (cases "enough net fuel")
  case True
  then obtain N where "ends_within N net" "N < fuel" by (auto simp: enough_def)
  then have "wp (scanLines net dc fuel buf res) (\<lambda>_ _. True) never h" by (intro scanLines_fuel) auto
  with scanLines_live [of net dc fuel buf res h] show ?thesis by (auto simp: wp_def split: out.splits)
qed (use scanLines_live in simp)

section \<open>Contracts of the listing methods\<close>

lemma listResult_ok: "ftpErr dataError \<Longrightarrow> ctl_ok (listResult net dataError res) errOf"
  unfolding listResult_def
  by (rule ctl_ok_call3 [OF ctl_ok_readResponse])
    (auto intro!: ctl_ok_if ctl_ok_ret ctl_ok_then [OF ctl_ok_debug] split: option.split)

text \<open>Work on a data connection, its end and the reply, as listing and transferring do it.\<close>

definition body_step :: "dataConn \<Rightarrow> pworld \<Rightarrow> pworld \<Rightarrow> bool" where
  "body_step dc w w' \<longleftrightarrow> conn_step w w' \<and> live (hist w') - {sock (Conn dc)} = live (hist w) - {sock (Conn dc)}"

lemma body_step_ctl: "body_step dc w w' \<Longrightarrow> ctl_step w' w'' \<Longrightarrow> body_step dc w w''"
  using ctl_step_releases [of w' w''] by (auto simp: body_step_def releases_def intro: conn_step_trans)

lemma close_then:
  assumes m: "ctl_ok m err" and w: "connected w" and step: "body_step dc w w'"
  shows "wp (seq (logClose net (Conn dc) why) (\<lambda>_. m)) (\<lambda>r w''. body_step dc w w'' \<and> ftpErr (err r)) E w'"
  unfolding wp_seq
proof (rule wp_mono [OF logClose_contract], goal_cases)
  case (1 u w'')
  then have step': "body_step dc w w''"
    using step by (auto simp: body_step_def releases_def intro: conn_step_trans)
  then have "connected w''" using w conn_step_connected by (auto simp: body_step_def)
  from ctl_okD [OF m this] show ?case by (rule wp_mono) (auto intro: body_step_ctl [OF step'])
qed simp

lemma listBody_ok: "data_body (\<not> enough net fuel) (listBody net fuel cmd) (\<lambda>r. ftpErr (errOf r))"
  unfolding data_body_def
proof (intro allI impI)
  fix dc w assume w: "connected w"
  let ?E = "\<lambda>e _. \<not> enough net fuel \<and> e = OutOfFuel"
  have close: "wp (seq (logClose net (Conn dc) why) (\<lambda>_. listResult net d res))
      (\<lambda>r w''. body_step dc w w'' \<and> ftpErr (errOf r)) ?E w'" if "body_step dc w w'" "ftpErr d" for why d res w'
    by (rule close_then [OF listResult_ok [OF that(2)] w that(1)])
  have "wp (listBody net fuel cmd dc) (\<lambda>r w''. body_step dc w w'' \<and> ftpErr (errOf r)) ?E w"
    unfolding listBody_def wp_seq [of "io _"] wp_io
  proof (rule wp_mono [OF scanLines_contract], goal_cases)
    case (1 r h')
    then have "body_step dc w (w\<lparr>hist := h'\<rparr>)" "body_step dc w (w\<lparr>hist := EvLog i f as # h'\<rparr>)" for i f as
      by (simp_all add: body_step_def conn_step_def)
    with close show ?case
      by (cases r; cases "snd r") (auto simp: wp_seq [of "ret _"] wp_seq [of "debug _ _"] wp_seq [of "seq _ _"] wp_ret wp_debug)
  qed simp
  then show "wp (listBody net fuel cmd dc) (\<lambda>a w'. conn_step w w' \<and> ftpErr (errOf a) \<and>
      live (hist w') - {sock (Conn dc)} = live (hist w) - {sock (Conn dc)}) ?E w"
    by (rule wp_mono) (simp_all add: body_step_def)
qed

lemma dataStringList_ok: "cl_ok (\<not> enough net fuel) (dataStringList net fuel f as) (\<lambda>r. ftpErr (errOf r))"
  unfolding dataStringList_def Let_def
  by (intro withIdle_ok withDataConn_ok ctl_ok_sendCommandExpected listBody_ok ctl_ok_ret) simp_all

context entry_parser
begin

lemma entriesOf_ok: "cl_ok F (entriesOf parse es) (\<lambda>r. ftpErr (errOf r))"
proof (cases "parseEntries parse es")
  case (Inl e)
  then have "is_ftpError e" by (rule entries_error)
  then have "cl_ok F (seq (clDebug f as) (\<lambda>_. ret (Inl e))) (\<lambda>r. ftpErr (errOf r))" for f as
    by (intro cl_ok_seq [OF cl_ok_debug] cl_ok_ret) simp
  with Inl show ?thesis by (simp add: entriesOf_def)
qed (simp add: entriesOf_def cl_ok_ret)

end

lemma commandNotSupporterdError_ok: "is_ftpError e \<Longrightarrow> cl_ok F (commandNotSupporterdError e) (\<lambda>_. True)"
  by (simp add: commandNotSupporterdError_def cl_ok_ret)

text \<open>The rule for \<^verbatim>\<open>x, err := f()\<close> followed by a test of \<open>err\<close>.\<close>

lemma cl_ok_call:
  assumes "cl_ok F m (\<lambda>r. ftpErr (errOf r))"
    and "\<And>e. is_ftpError e \<Longrightarrow> cl_ok F (f (Inl e)) Q" and "\<And>a. cl_ok F (f (Inr a)) Q"
  shows "cl_ok F (seq m f) Q"
  by (rule cl_ok_seq [OF assms(1)]) (use assms(2,3) in \<open>auto split: sum.splits\<close>)

lemma cl_ok_if: "(b \<Longrightarrow> cl_ok F m Q) \<Longrightarrow> (\<not> b \<Longrightarrow> cl_ok F m' Q) \<Longrightarrow> cl_ok F (if b then m else m') Q"
  by simp

lemma ReadDir_ok: "cl_ok (\<not> enough net fuel) (ReadDir net fuel now path) (\<lambda>r. ftpErr (errOf r))"
  unfolding ReadDir_def
  by (rule cl_ok_call [OF dataStringList_ok])
    (auto intro!: cl_ok_seq [OF commandNotSupporterdError_ok] cl_ok_call [OF dataStringList_ok]
      cl_ok_seq [OF cl_ok_gets] cl_ok_ret mlst.entriesOf_ok ls.entriesOf_ok)

lemma statViaLIST_ok: "cl_ok (\<not> enough net fuel) (statViaLIST net fuel now path) (\<lambda>r. ftpErr (errOf r))"
proof -
  have parent: "cl_ok (\<not> enough net fuel) (seq (ReadDir net fuel now d) (\<lambda>r. case r of
         Inl e \<Rightarrow> ret (Inl e)
       | Inr entries \<Rightarrow> (case find (\<lambda>f. file_name f = want) entries of
            Some entry \<Rightarrow> ret (Inr entry) | None \<Rightarrow> ret (Inl (wrapErr e')))))
      (\<lambda>r. ftpErr (errOf r))" for d want e'
    by (rule cl_ok_call [OF ReadDir_ok]) (auto intro!: cl_ok_ret split: option.split)
  show ?thesis
    unfolding statViaLIST_def Let_def
    by (rule cl_ok_seq [OF dataStringList_ok], rule cl_ok_seq [OF cl_ok_gets])
      (auto intro!: cl_ok_ret parent split: option.split)
qed

lemma Stat_ok: "cl_ok (\<not> enough net fuel) (Stat net fuel now path) (\<lambda>r. ftpErr (errOf r))"
  unfolding Stat_def
  by (rule cl_ok_call [OF controlStringList_ok])
    (auto intro!: cl_ok_seq [OF commandNotSupporterdError_ok] cl_ok_weaken [OF statViaLIST_ok] cl_ok_ret
      split: sum.split option.split dest: mlst.error_ftp)

section \<open>The methods as instances of the interface\<close>

interpretation delete: terminating_method "Delete net path" ftpErr for net path
  by unfold_locales (rule Delete_ok)

interpretation rename: terminating_method "Rename net a b" ftpErr for net a b
  by unfold_locales (rule Rename_ok)

interpretation mkdir: terminating_method "Mkdir net path" "\<lambda>r. ftpErr (errOf r)" for net path
  by unfold_locales (rule Mkdir_ok)

interpretation rmdir: terminating_method "Rmdir net path" ftpErr for net path
  by unfold_locales (rule Rmdir_ok)

interpretation getwd: terminating_method "Getwd net" "\<lambda>r. ftpErr (errOf r)" for net
  by unfold_locales (rule Getwd_ok)

interpretation readdir: client_method "\<not> enough net fuel" "ReadDir net fuel now path" "\<lambda>r. ftpErr (errOf r)"
  for net fuel now path
  by unfold_locales (rule ReadDir_ok)

interpretation stat: client_method "\<not> enough net fuel" "Stat net fuel now path" "\<lambda>r. ftpErr (errOf r)"
  for net fuel now path
  by unfold_locales (rule Stat_ok)

end
