(* ===== verification/FileProps.thy ===== *)
theory FileProps
  imports FileSystem
begin

text \<open>
  What the file-system methods do: a listing is read line by line however the data is cut into pieces, a method
  always answers when it is alone with the client and the server ends its data connections, a rename
  is two commands of which the second depends on the first, names survive quoting, and the ways in
  which a path or an error is changed on the way.
\<close>

section \<open>Lines in pieces\<close>

lemma Split_char_nonempty [simp]: "Split a [c] \<noteq> []"
  by (subst Split.simps) (simp add: Let_def)

lemma Split_char_append: "Split (a @ b) [c] = butlast (Split a [c]) @ Split (last (Split a [c]) @ b) [c]"
proof (induction "length a" arbitrary: a rule: less_induct)
  case less
  show ?case
  proof (cases "c \<in> set a")
    case True
    then obtain p q where a: "a = p @ c # q" "c \<notin> set p" by (blast dest: split_list_first)
    then have "Split (q @ b) [c] = butlast (Split q [c]) @ Split (last (Split q [c]) @ b) [c]"
      by (intro less) simp
    with a show ?thesis by (simp add: Split_char_Cons)
  qed (simp add: Split_char_none)
qed

lemma last_Split_char: "c \<notin> set (last (Split a [c]))"
proof (induction "length a" arbitrary: a rule: less_induct)
  case less
  show ?case
  proof (cases "c \<in> set a")
    case True
    then obtain p q where "a = p @ c # q" "c \<notin> set p" by (blast dest: split_list_first)
    with less show ?thesis by (simp add: Split_char_Cons)
  qed (simp add: Split_char_none)
qed

lemma hd_Split_char: "c \<notin> set a \<Longrightarrow> length a \<le> length (hd (Split (a @ b) [c]))"
proof (cases "c \<in> set b")
  case True
  then obtain p q where "b = p @ c # q" "c \<notin> set p" by (blast dest: split_list_first)
  moreover assume "c \<notin> set a"
  ultimately show ?thesis using Split_char_Cons [of c "a @ p" q] by simp
qed (simp add: Split_char_none)

lemma lastLines_cut:
  assumes "cutLines buf = (ls, rest)"
  shows "lastLines (buf @ t) = ls @ lastLines (rest @ t)"
  using assms Split_char_append [of buf t "CHR 0x0A"]
  by (auto simp: lastLines_def cutLines_def Let_def butlast_append)

definition short_lines :: "string \<Rightarrow> bool" where
  "short_lines buf \<longleftrightarrow> (\<forall>l \<in> set (Split buf [CHR 0x0A]). length l < 65536)"

lemma short_lines_cut:
  assumes "short_lines (buf @ t)" "cutLines buf = (ls, rest)"
  shows "short_lines (rest @ t)" "length rest < 65536"
proof -
  from assms(2) have rest: "rest = last (Split buf [CHR 0x0A])" by (simp add: cutLines_def Let_def)
  with assms(1) Split_char_append [of buf t "CHR 0x0A"] show s: "short_lines (rest @ t)"
    by (auto simp: short_lines_def)
  have "hd (Split (rest @ t) [CHR 0x0A]) \<in> set (Split (rest @ t) [CHR 0x0A])" by simp
  moreover have "length rest \<le> length (hd (Split (rest @ t) [CHR 0x0A]))"
    unfolding rest by (rule hd_Split_char) (rule last_Split_char)
  ultimately show "length rest < 65536" using s unfolding short_lines_def by fastforce
qed

text \<open>A data connection that delivers the pieces \<open>cs\<close> and then the end of the data.\<close>

definition delivers :: "net \<Rightarrow> handle \<Rightarrow> string list \<Rightarrow> bool" where
  "delivers net s cs \<longleftrightarrow> (\<forall>h. net_read net h s =
     (if reads_on s h < length cs then (cs ! reads_on s h, None) else ([], Some EOF)))"

lemma fillBuffer_delivers:
  assumes "delivers net (sock (Conn dc)) cs" "[] \<notin> set cs"
  shows "wp (fillBuffer net dc 101) (\<lambda>r h'. if reads_on (sock (Conn dc)) h < length cs
      then r = (cs ! reads_on (sock (Conn dc)) h, None) \<and> reads_on (sock (Conn dc)) h' = Suc (reads_on (sock (Conn dc)) h)
      else r = ([], Some EOF)) never h"
proof -
  have "cs ! k \<noteq> []" if "k < length cs" for k using assms(2) nth_mem [OF that] by auto
  with assms(1) have "wp (fillBuffer net dc (Suc 100)) (\<lambda>r h'. if reads_on (sock (Conn dc)) h < length cs
      then r = (cs ! reads_on (sock (Conn dc)) h, None) \<and> reads_on (sock (Conn dc)) h' = Suc (reads_on (sock (Conn dc)) h)
      else r = ([], Some EOF)) never h"
    unfolding fillBuffer.simps wp_seq wp_Read by (auto simp: delivers_def Let_def wp_ret)
  then show ?thesis by simp
qed

lemma scanLines_delivers:
  assumes net: "delivers net (sock (Conn dc)) cs" "[] \<notin> set cs"
    and "reads_on (sock (Conn dc)) h \<le> length cs" "length cs < fuel + reads_on (sock (Conn dc)) h"
    and "short_lines (buf @ concat (drop (reads_on (sock (Conn dc)) h) cs))"
  shows "wp (scanLines net dc fuel buf res)
    (\<lambda>r _. r = (res @ lastLines (buf @ concat (drop (reads_on (sock (Conn dc)) h) cs)), None)) never h"
  using assms(3-5)
proof (induction fuel arbitrary: buf res h)
  case (Suc fuel)
  let ?k = "reads_on (sock (Conn dc)) h"
  show ?case
  proof (rule wp_scanLines)
    fix ls rest assume cut: "cutLines buf = (ls, rest)"
    note short = short_lines_cut [OF Suc.prems(3) cut]
    show "(res @ ls, Some ErrTooLong) = (res @ lastLines (buf @ concat (drop ?k cs)), None)" if "65536 \<le> length rest"
      using that short(2) by simp
    show "wp (fillBuffer net dc 101) (\<lambda>(bytes, err) h'. case err of
          None \<Rightarrow> wp (scanLines net dc fuel (rest @ bytes) (res @ ls))
            (\<lambda>r _. r = (res @ lastLines (buf @ concat (drop ?k cs)), None)) never h'
        | Some e \<Rightarrow> (res @ ls @ lastLines (rest @ bytes), scanErr e) =
            (res @ lastLines (buf @ concat (drop ?k cs)), None)) never h"
    proof (rule wp_mono [OF fillBuffer_delivers [OF net]], goal_cases)
      case (1 r h')
      show ?case
      proof (cases "?k < length cs")
        case True
        with 1 have r: "r = (cs ! ?k, None)" "reads_on (sock (Conn dc)) h' = Suc ?k" by simp_all
        have d: "concat (drop ?k cs) = cs ! ?k @ concat (drop (Suc ?k) cs)" using True by (simp add: Cons_nth_drop_Suc [symmetric])
        have "wp (scanLines net dc fuel (rest @ cs ! ?k) (res @ ls)) (\<lambda>x _. x =
            ((res @ ls) @ lastLines ((rest @ cs ! ?k) @ concat (drop (reads_on (sock (Conn dc)) h') cs)), None)) never h'"
          using True Suc.prems(2) short(1) by (intro Suc.IH) (simp_all add: r d)
        then show ?thesis by (simp add: r d lastLines_cut [OF cut])
      next
        case False
        with 1 lastLines_cut [OF cut, of "[]"] show ?thesis by (simp add: scanErr_def)
      qed
    qed simp
  qed
qed simp

lemma dropCR_crlf [simp]: "dropCR (l @ [CHR 0x0D]) = l"
  by (simp add: dropCR_def)

lemma Split_lines:
  "(\<And>l. l \<in> set ls \<Longrightarrow> CHR 0x0A \<notin> set l) \<Longrightarrow>
     Split (concat (map (\<lambda>l. l @ crlf) ls)) [CHR 0x0A] = map (\<lambda>l. l @ [CHR 0x0D]) ls @ [[]]"
proof (induction ls)
  case (Cons l ls)
  have "CHR 0x0A \<notin> set (l @ [CHR 0x0D])" using Cons.prems by simp
  from Split_char_Cons [OF this, of "concat (map (\<lambda>l. l @ crlf) ls)"] Cons show ?case by simp
qed (simp add: Split_char_none)

text \<open>C8. A listing is read exactly, however the data connection cuts it into pieces: when the pieces
  together are the lines \<open>ls\<close>, each ended by CR LF and short enough for the scanner's buffer, the scanner returns
  \<open>ls\<close> and no error, with one unit of fuel for each piece and one for the end.\<close>

theorem scanner_reads_lines:
  assumes net: "delivers net (sock (Conn dc)) cs" "[] \<notin> set cs" and fresh: "reads_on (sock (Conn dc)) h = 0"
    and data: "concat cs = concat (map (\<lambda>l. l @ crlf) ls)"
    and lines: "\<And>l. l \<in> set ls \<Longrightarrow> CHR 0x0A \<notin> set l \<and> length l < 65535"
    and fuel: "length cs < fuel"
  shows "\<exists>h'. scanLines net dc fuel [] [] h = Ret (ls, None) h'"
proof -
  have sp: "Split (concat cs) [CHR 0x0A] = map (\<lambda>l. l @ [CHR 0x0D]) ls @ [[]]"
    unfolding data by (rule Split_lines) (use lines in blast)
  have last: "lastLines (concat cs) = ls" by (simp add: lastLines_def cutLines_def Let_def sp o_def)
  have "short_lines (concat cs)" using lines by (auto simp: short_lines_def sp)
  with scanLines_delivers [OF net, of h fuel "[]" "[]"] fresh fuel last
  have "wp (scanLines net dc fuel [] []) (\<lambda>r _. r = (ls, None)) never h" by simp
  from wp_never_returns [OF this] show ?thesis by auto
qed

definition inPieces :: "string list \<Rightarrow> net \<Rightarrow> net" where
  "inPieces cs net = net\<lparr>net_read := (\<lambda>h s. if reads_on s h < length cs then (cs ! reads_on s h, None) else ([], Some EOF))\<rparr>"

theorem scanner_reads_lines_witness:
  "\<exists>h'. scanLines (inPieces [''type=file; a'' @ [CHR 0x0D], [CHR 0x0A] @ ''type=fi'', ''le; b'' @ crlf] (scripted (\<lambda>_. []) []))
      \<lparr>Conn = Sock 7, dcTimeout = 5\<rparr> 4 [] [] [] = Ret ([''type=file; a'', ''type=file; b''], None) h'"
  by (rule scanner_reads_lines [where cs = "[''type=file; a'' @ [CHR 0x0D], [CHR 0x0A] @ ''type=fi'', ''le; b'' @ crlf]"])
    (auto simp: delivers_def inPieces_def)

section \<open>Answering\<close>

text \<open>C7. \<open>ReadDir\<close> always answers a caller that is alone with the client, when the server ends its data connections:
  it neither blocks nor panics (in particular at the type assertion on the error) nor loops for ever, its
  error is an \<open>ftpError\<close>, and it leaves the pool in order.\<close>

theorem ReadDir_answers:
  assumes "pool_ok L [] [] c" and "ends_within N net" and "N < fuel"
  shows "\<exists>r c'. ReadDir net fuel now path c = Ret r c' \<and> pool_ok L [] [] c' \<and>
    (\<forall>e. r = Inl e \<longrightarrow> is_ftpError e)"
  using readdir.returns_or_fuel [OF assms(1), of net fuel now path] assms(2,3)
  by (fastforce simp: enough_def)

lemma scripted_ends: "ends_within 0 (scripted script data)"
  by (simp add: ends_within_def scripted_def)

lemma sampleClient_ok: "pool_ok {} [] [] sampleClient"
  by (simp add: sampleClient_def newClient_ok live_def)

theorem ReadDir_answers_witness:
  "\<exists>r c'. ReadDir (scripted (\<lambda>_. [''220 ready'']) []) 1 (0, 0) ''/pub'' sampleClient = Ret r c' \<and>
    pool_ok {} [] [] c' \<and> (\<forall>e. r = Inl e \<longrightarrow> is_ftpError e)"
  by (rule ReadDir_answers [OF sampleClient_ok scripted_ends]) simp

text \<open>The same for \<open>Stat\<close>, with its fallback to \<^verbatim>\<open>LIST\<close> and to the listing of the parent directory.\<close>

theorem Stat_answers:
  assumes "pool_ok L [] [] c" and "ends_within N net" and "N < fuel"
  shows "\<exists>r c'. Stat net fuel now path c = Ret r c' \<and> pool_ok L [] [] c' \<and>
    (\<forall>e. r = Inl e \<longrightarrow> is_ftpError e)"
  using stat.returns_or_fuel [OF assms(1), of net fuel now path] assms(2,3)
  by (fastforce simp: enough_def)

theorem Stat_answers_witness:
  "\<exists>r c'. Stat (scripted (\<lambda>_. [''220 ready'']) []) 1 (0, 0) ''/pub/x'' sampleClient = Ret r c' \<and>
    pool_ok {} [] [] c' \<and> (\<forall>e. r = Inl e \<longrightarrow> is_ftpError e)"
  by (rule Stat_answers [OF sampleClient_ok scripted_ends]) simp

text \<open>C9. In passive mode a listing leaves no socket behind, whether it succeeds or fails, and whoever else
  uses the client: every socket open afterwards is the control socket of a connection of the pool or one
  that did not belong to the client.\<close>

theorem ReadDir_leaves_no_socket:
  assumes "pool_ok L pend held c" and "ReadDir net fuel now path c = Ret r c'" and "\<not> ActiveTransfers (clConfig c')"
  shows "live (chist c') \<subseteq> L \<union> (\<Union>p \<in> set (freeConnCh c' @ held). ctl_socks (heap c' p))"
  by (rule readdir.leaves_no_socket [OF assms])

theorem ReadDir_leaves_no_socket_witness:
  "\<exists>r c'. ReadDir (scripted (\<lambda>_. [''220 ready'']) []) 1 (0, 0) ''/pub'' sampleClient = Ret r c' \<and>
    (\<not> ActiveTransfers (clConfig c') \<longrightarrow>
      live (chist c') \<subseteq> {} \<union> (\<Union>p \<in> set (freeConnCh c' @ []). ctl_socks (heap c' p)))"
proof -
  from readdir.returns_or_fuel [OF sampleClient_ok] scripted_ends obtain r c'
    where "ReadDir (scripted (\<lambda>_. [''220 ready'']) []) 1 (0, 0) ''/pub'' sampleClient = Ret r c'"
    by (metis enough_def less_one)
  with ReadDir_leaves_no_socket [OF sampleClient_ok this] show ?thesis by blast
qed

section \<open>Renaming\<close>

text \<open>One command on a connection without stubs: what is written, on which connection, and what is said and heard.\<close>

lemma sendCommandExpected_says:
  assumes c: "controlConn (pconn w) = Some c" and stubs: "stubResponses (config (pconn w)) = Map.empty"
  shows "wp (sendCommandExpected net x f as) (\<lambda>err w'.
    controlConn (pconn w') = Some c \<and> stubResponses (config (pconn w')) = Map.empty \<and>
    sent_on (hist w') = sent_on (hist w) @ [(c, Sprintf f as @ crlf)] \<and>
    (\<exists>us answer. dialogue net (sock c) (hist w') = dialogue net (sock c) (hist w) @ us \<and> exchanged (Sprintf f as) answer us \<and>
      (err = None \<longleftrightarrow> (\<exists>code. answer = Some code \<and> replyOk x code)))) never w"
proof -
  have "talking (config (pconn w)) (sock c) w" using c by (simp add: talking_def)
  from speaksD [OF speaks_sendCommandExpected [OF stubs] this, of net x f as] sendCommandExpected_contract [OF c, of net x f as]
  show ?thesis using c stubs by (auto simp: wp_def exchange_def split: out.splits)
qed

text \<open>
  \<open>renameTalk from to r us\<close>: the dialogue \<open>us\<close> of a rename with the result \<open>r\<close>. The second command follows only a reply 350 to the first, and
  the result is no error only after a reply 250 to the second.
\<close>

definition renameTalk :: "string \<Rightarrow> string \<Rightarrow> goerror option \<Rightarrow> utterance list \<Rightarrow> bool" where
  "renameTalk from to r us \<longleftrightarrow>
     (\<exists>answer. answer \<noteq> Some 350 \<and> exchanged (''RNFR '' @ from) answer us \<and> r \<noteq> None) \<or>
     (\<exists>vs answer. us = [Said (''RNFR '' @ from @ crlf), Heard 350] @ vs \<and> exchanged (''RNTO '' @ to) answer vs \<and>
        (r = None \<longleftrightarrow> answer = Some 250))"

definition saidOnly :: "utterance list \<Rightarrow> string list" where
  "saidOnly us = concat (map (\<lambda>u. case u of Said b \<Rightarrow> [b] | _ \<Rightarrow> []) us)"

lemma saidOnly_exchanged: "exchanged cmd answer us \<Longrightarrow> saidOnly us = [cmd @ crlf]"
  by (auto simp: exchanged_def saidOnly_def split: option.splits)

text \<open>C28. \<open>Rename\<close> sends \<^verbatim>\<open>RNFR\<close>, and \<^verbatim>\<open>RNTO\<close> only after the server has asked for it with code 350: after any other reply, or none, nothing
  more is sent and the result is an error. It succeeds exactly when the second command is answered with code 250. The commands are
  all that is sent, on the one connection.\<close>

theorem Rename_order:
  assumes c: "controlConn (pconn w) = Some c" and stubs: "stubResponses (config (pconn w)) = Map.empty"
  shows "\<exists>r w' us. renameOn net from to w = Ret r w' \<and>
    dialogue net (sock c) (hist w') = dialogue net (sock c) (hist w) @ us \<and>
    renameTalk from to r us \<and> sent_on (hist w') = sent_on (hist w) @ map (Pair c) (saidOnly us)"
proof -
  have fmt: "Sprintf ''RNFR %s'' [AStr from] = ''RNFR '' @ from" "Sprintf ''RNTO %s'' [AStr to] = ''RNTO '' @ to"
    by (simp_all add: Sprintf_def fmt_arg_def)
  have codes: "replyOk replyFileActionPending k \<longleftrightarrow> k = 350" "replyOk replyFileActionOkay k \<longleftrightarrow> k = 250" for k
    by (simp_all add: replyOk_code replyFileActionPending_def replyFileActionOkay_def)
  let ?Q = "\<lambda>r w'. \<exists>us. dialogue net (sock c) (hist w') = dialogue net (sock c) (hist w) @ us \<and>
    renameTalk from to r us \<and> sent_on (hist w') = sent_on (hist w) @ map (Pair c) (saidOnly us)"
  have "wp (renameOn net from to) ?Q never w"
    unfolding renameOn_def wp_seq
  proof (rule wp_mono [OF sendCommandExpected_says [OF c stubs]], goal_cases)
    case (1 r w1)
    then obtain us answer where us: "dialogue net (sock c) (hist w1) = dialogue net (sock c) (hist w) @ us"
      and ex: "exchanged (''RNFR '' @ from) answer us" and r: "r = None \<longleftrightarrow> answer = Some 350"
      and w1: "controlConn (pconn w1) = Some c" "stubResponses (config (pconn w1)) = Map.empty"
        "sent_on (hist w1) = sent_on (hist w) @ [(c, (''RNFR '' @ from) @ crlf)]"
      unfolding fmt codes by auto
    show ?case
    proof (cases r)
      case None
      with r ex have first: "us = [Said (''RNFR '' @ from @ crlf), Heard 350]" by (simp add: exchanged_def)
      have "wp (sendCommandExpected net replyFileActionOkay ''RNTO %s'' [AStr to]) ?Q never w1"
      proof (rule wp_mono [OF sendCommandExpected_says [OF w1(1,2)]], goal_cases)
        case (1 r w2)
        then obtain vs answer where "dialogue net (sock c) (hist w2) = dialogue net (sock c) (hist w1) @ vs"
          "exchanged (''RNTO '' @ to) answer vs" "r = None \<longleftrightarrow> answer = Some 250"
          "sent_on (hist w2) = sent_on (hist w1) @ [(c, (''RNTO '' @ to) @ crlf)]" unfolding fmt codes by auto
        with us first w1(3) saidOnly_exchanged [OF this(2)] show ?case
          by (intro exI [of _ "us @ vs"]) (auto simp: renameTalk_def saidOnly_def)
      qed simp
      with None show ?thesis by simp
    next
      case (Some e)
      with us r ex w1(3) saidOnly_exchanged [OF ex] show ?thesis
        by (auto simp: wp_ret renameTalk_def)
    qed
  qed simp
  from wp_never_returns [OF this] show ?thesis by blast
qed

theorem Rename_order_witness:
  "\<exists>r w' us. renameOn (scripted (\<lambda>_. [''350 go on'']) []) ''a'' ''b'' sampleWorld = Ret r w' \<and>
    dialogue (scripted (\<lambda>_. [''350 go on'']) []) 0 (hist w') = dialogue (scripted (\<lambda>_. [''350 go on'']) []) 0 (hist sampleWorld) @ us \<and>
    renameTalk ''a'' ''b'' r us \<and> sent_on (hist w') = sent_on (hist sampleWorld) @ map (Pair (Sock 0)) (saidOnly us)"
  using Rename_order [of sampleWorld "Sock 0" "scripted (\<lambda>_. [''350 go on'']) []" "''a''" "''b''"]
  by (simp add: sampleWorld_def sampleConn_def sampleConfig_def zeroConfig_def)

section \<open>Directory names\<close>

text \<open>A server that takes the command and answers with the lines \<open>ls\<close>.\<close>

lemma sendCommand_answer:
  assumes "controlConn (pconn w) = Some c" "stubResponses (config (pconn w)) (Sprintf f as) = None"
    and "\<And>h. net_write net h (sock c) (Sprintf f as @ crlf) = None"
    and "\<And>h. net_lines net h (sock c) = (ls, eof)" and "responseOf ls eof = ((code, msg, None), n)"
  shows "wp (sendCommand net f as) (\<lambda>r _. r = (code, msg, None)) never w"
  using assms by (auto simp: sendCommand_def readResponse_def wp_simps Let_def)

text \<open>C29. \<open>Mkdir\<close> and \<open>Getwd\<close> return the name the server put in its reply: a server that answers 257 with the
  name in quotes and its quotes doubled, as RFC 959 asks, is understood exactly, whatever the name.\<close>

theorem directory_name_roundtrip:
  assumes c: "controlConn (pconn w) = Some c" "stubResponses (config (pconn w)) = Map.empty"
    and wr: "\<And>h bytes. net_write net h (sock c) bytes = None"
    and reply: "\<And>h. net_lines net h (sock c) = ([Itoa 257 @ CHR '' '' # [quote] @ quoteName dir @ [quote] @ rest], eof)"
    and rest: "quote \<notin> set rest"
  shows "(\<exists>w'. mkdirOn net path w = Ret (Inr dir) w') \<and> (\<exists>w'. getwdOn net w = Ret (Inr dir) w')"
proof -
  have resp: "responseOf [Itoa 257 @ CHR '' '' # [quote] @ quoteName dir @ [quote] @ rest] eof =
      ((257, [quote] @ quoteName dir @ [quote] @ rest, None), 1)"
    by (rule responseOf_line) simp_all
  have name: "extractDirName (quote # quoteName dir @ quote # rest) = Inr dir"
    using extractDirName_quoted [of "[]" rest dir] rest by simp
  have send: "wp (sendCommand net f as) (\<lambda>r _. r = (257, [quote] @ quoteName dir @ [quote] @ rest, None)) never w" for f as
    using c wr reply resp by (intro sendCommand_answer) simp_all
  have "wp (mkdirOn net path) (\<lambda>r _. r = Inr dir) never w"
    unfolding mkdirOn_def wp_seq by (rule wp_mono [OF send]) (simp_all add: wp_simps replyDirCreated_def name)
  moreover have "wp (getwdOn net) (\<lambda>r _. r = Inr dir) never w"
    unfolding getwdOn_def wp_seq by (rule wp_mono [OF send]) (simp_all add: wp_simps replyDirCreated_def name)
  ultimately show ?thesis by (auto dest!: wp_never_returns)
qed

theorem directory_name_roundtrip_witness:
  "(\<exists>w'. mkdirOn (scripted (\<lambda>_. [Itoa 257 @ CHR '' '' # [quote] @ quoteName (''a'' @ [quote] @ ''b'') @ [quote] @ '' created'']) [])
      ''x'' sampleWorld = Ret (Inr (''a'' @ [quote] @ ''b'')) w') \<and>
   (\<exists>w'. getwdOn (scripted (\<lambda>_. [Itoa 257 @ CHR '' '' # [quote] @ quoteName (''a'' @ [quote] @ ''b'') @ [quote] @ '' created'']) [])
      sampleWorld = Ret (Inr (''a'' @ [quote] @ ''b'')) w')"
  by (rule directory_name_roundtrip [where c = "Sock 0" and rest = "'' created''" and eof = EOF])
    (simp_all add: sampleWorld_def sampleConn_def sampleConfig_def zeroConfig_def scripted_def)

section \<open>Errors and paths that are changed on the way\<close>

text \<open>C37. \<open>controlStringList\<close> drops the error of its command. When the control connection fails, the error it
  returns has no cause, code 0 and no text, and is not temporary, although the error of the command was temporary
  and named the cause.\<close>

theorem controlStringList_loses_error:
  assumes c: "controlConn (pconn w) = Some c" "stubResponses (config (pconn w)) (Sprintf (Sprintf f as) []) = None"
    and fails: "\<And>h. net_write net h (sock c) (Sprintf (Sprintf f as) [] @ crlf) = Some cause"
  shows "(\<exists>w'. sendCommand net (Sprintf f as) [] w =
      Ret (0, [], Some (tempErr (Errorf ''error writing command: %s'' [AErr cause]))) w') \<and>
    (\<exists>w'. controlListOn net f as w = Ret (Inl (replyErr 0 [])) w') \<and> \<not> Temporary (replyErr 0 [])"
proof -
  have send: "wp (sendCommand net (Sprintf f as) []) (\<lambda>r _.
      r = (0, [], Some (tempErr (Errorf ''error writing command: %s'' [AErr cause])))) never w"
    using c fails by (auto simp: sendCommand_def wp_simps Let_def)
  have zero: "\<not> positiveCompletionReply 0" "\<not> Temporary (replyErr 0 [])"
    by (simp_all add: positiveCompletionReply_def transientNegativeCompletionReply_def sdiv_100_eq)
  have "wp (controlListOn net f as) (\<lambda>r _. r = Inl (replyErr 0 [])) never w"
    unfolding controlListOn_def Let_def wp_seq
    by (rule wp_mono [OF send]) (simp_all add: wp_simps zero)
  with send zero(2) show ?thesis by (auto dest!: wp_never_returns)
qed

theorem controlStringList_loses_error_witness:
  "(\<exists>w'. sendCommand ((scripted (\<lambda>_. []) [])\<lparr>net_write := (\<lambda>_ _ _. Some EOF)\<rparr>) (Sprintf ''MLST %s'' [AStr ''a'']) [] sampleWorld =
      Ret (0, [], Some (tempErr (Errorf ''error writing command: %s'' [AErr EOF]))) w') \<and>
    (\<exists>w'. controlListOn ((scripted (\<lambda>_. []) [])\<lparr>net_write := (\<lambda>_ _ _. Some EOF)\<rparr>) ''MLST %s'' [AStr ''a''] sampleWorld =
      Ret (Inl (replyErr 0 [])) w') \<and> \<not> Temporary (replyErr 0 [])"
  by (rule controlStringList_loses_error)
    (simp_all add: sampleWorld_def sampleConn_def sampleConfig_def zeroConfig_def)

text \<open>C38. \<open>controlStringList\<close> passes the finished command to \<open>sendCommand\<close> as a format. A path without a percent
  sign is sent as it is; a percent sign is read as a directive that has no operand, so that for example a
  path that ends with one is sent with an error text in its place, and a doubled one is sent as a single one.\<close>

theorem percent_sign_in_path:
  assumes c: "controlConn (pconn w) = Some c" "stubResponses (config (pconn w)) = Map.empty"
    and plain: "CHR ''%'' \<notin> set path"
  shows "(\<exists>r w'. controlListOn net ''MLST %s'' [AStr path] w = Ret r w' \<and>
      sent_on (hist w') = sent_on (hist w) @ [(c, ''MLST '' @ path @ crlf)]) \<and>
    (\<exists>r w'. controlListOn net ''MLST %s'' [AStr (path @ ''%'')] w = Ret r w' \<and>
      sent_on (hist w') = sent_on (hist w) @ [(c, ''MLST '' @ path @ ''%!(NOVERB)'' @ crlf)]) \<and>
    (\<exists>r w'. controlListOn net ''MLST %s'' [AStr (path @ ''%%'')] w = Ret r w' \<and>
      sent_on (hist w') = sent_on (hist w) @ [(c, ''MLST '' @ path @ ''%'' @ crlf)])"
proof -
  have append: "sprintf0 (p @ q) = p @ sprintf0 q" if "CHR ''%'' \<notin> set p" for p q
    using that by (induction p) auto
  have dir: "sprintf0 ''%'' = ''%!(NOVERB)''" "sprintf0 ''%%'' = ''%''" by code_simp+
  have cmd: "Sprintf ''MLST %s'' [AStr p] = ''MLST '' @ p" for p by (simp add: Sprintf_def fmt_arg_def)
  have run: "\<exists>r w'. controlListOn net ''MLST %s'' [AStr p] w = Ret r w' \<and>
      sent_on (hist w') = sent_on (hist w) @ [(c, sprintf0 (''MLST '' @ p) @ crlf)]" for p
  proof -
    have "wp (controlListOn net ''MLST %s'' [AStr p]) (\<lambda>_ w'.
        sent_on (hist w') = sent_on (hist w) @ [(c, sprintf0 (''MLST '' @ p) @ crlf)]) never w"
      unfolding controlListOn_def Let_def wp_seq cmd
      by (rule wp_mono [OF sendCommand_contract [OF c(1)]])
        (use c(2) in \<open>auto simp: wp_simps Sprintf_def exchange_def split: prod.split\<close>)
    from wp_never_returns [OF this] show ?thesis .
  qed
  note plain' = append [of "''MLST '' @ path"]
  show ?thesis
    using run [of path] plain' [of "[]"] run [of "path @ ''%''"] plain' [of "''%''"]
      run [of "path @ ''%%''"] plain' [of "''%%''"] plain dir by simp
qed

theorem percent_sign_in_path_witness:
  "(\<exists>r w'. controlListOn (scripted (\<lambda>_. []) []) ''MLST %s'' [AStr ''100''] sampleWorld = Ret r w' \<and>
      sent_on (hist w') = sent_on (hist sampleWorld) @ [(Sock 0, ''MLST '' @ ''100'' @ crlf)]) \<and>
    (\<exists>r w'. controlListOn (scripted (\<lambda>_. []) []) ''MLST %s'' [AStr (''100'' @ ''%'')] sampleWorld = Ret r w' \<and>
      sent_on (hist w') = sent_on (hist sampleWorld) @ [(Sock 0, ''MLST '' @ ''100'' @ ''%!(NOVERB)'' @ crlf)]) \<and>
    (\<exists>r w'. controlListOn (scripted (\<lambda>_. []) []) ''MLST %s'' [AStr (''100'' @ ''%%'')] sampleWorld = Ret r w' \<and>
      sent_on (hist w') = sent_on (hist sampleWorld) @ [(Sock 0, ''MLST '' @ ''100'' @ ''%'' @ crlf)])"
  by (rule percent_sign_in_path)
    (simp_all add: sampleWorld_def sampleConn_def sampleConfig_def zeroConfig_def)

end
