(* ===== verification/FileTransfer.thy ===== *)
theory FileTransfer
  imports FileSystem
begin

text \<open>
  Transferring files (\<^verbatim>\<open>transfer.go\<close>): one attempt from an offset (\<open>transferFromOffset\<close>), the loops that
  resume (\<open>Retrieve\<close>, \<open>RetrieveFrom\<close>, \<open>Store\<close>), and the size of a remote file.

  The caller's writer and reader belong to the outside world: \<open>dest_write\<close>, \<open>src_read\<close> and \<open>src_seek\<close> of \<open>net\<close>
  answer for them, and the history records what they were given. \<open>io.Copy\<close> is the loop over \<open>Read\<close> and \<open>Write\<close> that it is
  for readers and writers that have no faster way of their own; neither has the data connection. Offsets and
  counts are \<open>int64\<close> in the code; they are integers here, since no file has 2^63 bytes. \<open>fuel\<close> bounds the number of
  reads of one copy, \<open>k\<close> the number of attempts.
\<close>

section \<open>The caller's reader and writer\<close>

definition destWrite :: "net \<Rightarrow> string \<Rightarrow> (nat \<times> goerror option) io" where
  "destWrite net bytes h = (case dest_write net h bytes of (n, err) \<Rightarrow> Ret (n, err) (EvDest bytes n err # h))"

definition srcRead :: "net \<Rightarrow> (string \<times> goerror option) io" where
  "srcRead net h = (case src_read net h of (bytes, err) \<Rightarrow> Ret (bytes, err) (EvSrc bytes err # h))"

definition srcSeek :: "net \<Rightarrow> int \<Rightarrow> (goerror option) io" where
  "srcSeek net pos h = (let err = src_seek net h pos in Ret err (EvSeek pos err # h))"

section \<open>\<^verbatim>\<open>io.Copy\<close>\<close>

definition errInvalidWrite :: goerror where
  "errInvalidWrite = LibError ''invalid write result''"

definition ErrShortWrite :: goerror where
  "ErrShortWrite = LibError ''short write''"

text \<open>What one \<open>Write\<close> adds to the count, and the error that ends the copy after it.\<close>

definition writeResult :: "string \<Rightarrow> nat \<Rightarrow> goerror option \<Rightarrow> nat \<times> goerror option" where
  "writeResult buf nw ew =
     (if length buf < nw then (0, if ew = None then Some errInvalidWrite else ew)
      else (nw, if ew = None \<and> nw \<noteq> length buf then Some ErrShortWrite else ew))"

definition copyWrite :: "(string \<Rightarrow> (nat \<times> goerror option) io) \<Rightarrow> string \<Rightarrow> (nat \<times> goerror option) io" where
  "copyWrite wr buf =
     (if buf = [] then ret (0, None) else seq (wr buf) (\<lambda>(nw, ew). ret (writeResult buf nw ew)))"

fun copyLoop :: "(string \<times> goerror option) io \<Rightarrow> (string \<Rightarrow> (nat \<times> goerror option) io) \<Rightarrow> nat \<Rightarrow> int \<Rightarrow>
    (int \<times> goerror option) io" where
  "copyLoop rd wr 0 written = abort_with OutOfFuel"
| "copyLoop rd wr (Suc fuel) written =
     seq rd (\<lambda>(buf, er).
     seq (copyWrite wr buf) (\<lambda>(n, ew).
     case ew of
       Some e \<Rightarrow> ret (written + int n, Some e)
     | None \<Rightarrow>
         (case er of
            Some e \<Rightarrow> ret (written + int n, if e = EOF then None else Some e)
          | None \<Rightarrow> copyLoop rd wr fuel (written + int n))))"

section \<open>One attempt\<close>

text \<open>\<open>dest\<close> and \<open>src\<close> say whether the caller gave a writer and a reader; exactly one of them is given.\<close>

definition transferCmd :: "bool \<Rightarrow> bool \<Rightarrow> string option" where
  "transferCmd dest src =
     (if \<not> dest \<and> src then Some ''STOR'' else if dest \<and> \<not> src then Some ''RETR'' else None)"

definition copyData :: "net \<Rightarrow> nat \<Rightarrow> bool \<Rightarrow> dataConn \<Rightarrow> (int \<times> goerror option) io" where
  "copyData net fuel dest dc =
     (if dest then copyLoop (Read net dc) (destWrite net) fuel 0
      else copyLoop (srcRead net) (Write net dc) fuel 0)"

definition transferReply :: "net \<Rightarrow> string \<Rightarrow> int \<Rightarrow> (int \<times> goerror option, pworld) go" where
  "transferReply net cmd n =
     seq (readResponse net) (\<lambda>(code, msg, err).
     case err of
       Some e \<Rightarrow> seq (debug ''error reading response after %s: %s'' [AStr cmd, AErr e]) (\<lambda>_. ret (n, Some e))
     | None \<Rightarrow>
         if \<not> positiveCompletionReply code then
           seq (debug ''unexpected response after %s: %d (%s)'' [AStr cmd, AInt code, AStr msg]) (\<lambda>_.
           ret (n, Some (replyErr code msg)))
         else ret (n, None))"

definition transferBody :: "net \<Rightarrow> nat \<Rightarrow> string \<Rightarrow> bool \<Rightarrow> dataConn \<Rightarrow> (int \<times> goerror option, pworld) go" where
  "transferBody net fuel cmd dest dc =
     seq (io (copyData net fuel dest dc)) (\<lambda>(n, err).
     case err of
       Some e \<Rightarrow> seq (updPconn (\<lambda>pc. pc\<lparr>broken := True\<rparr>)) (\<lambda>_. ret (n, Some e))
     | None \<Rightarrow>
         seq (logClose net (Conn dc) ''error closing data connection: %s'') (\<lambda>_.
         transferReply net cmd n))"

definition transferOn :: "net \<Rightarrow> nat \<Rightarrow> string \<Rightarrow> bool \<Rightarrow> bool \<Rightarrow> int \<Rightarrow> (int \<times> goerror option, pworld) go" where
  "transferOn net fuel path dest src offset =
     seq (setType net ''I'') (\<lambda>err.
     case err of
       Some e \<Rightarrow> ret (0, Some e)
     | None \<Rightarrow>
         seq (if offset > 0 then sendCommandExpected net replyFileActionPending ''REST %d'' [AInt offset]
              else ret None) (\<lambda>err.
         case err of
           Some e \<Rightarrow> ret (0, Some e)
         | None \<Rightarrow>
             withDataConn net
               (case transferCmd dest src of
                  None \<Rightarrow> abort_with (Panicked ''this shouldn't happen'')
                | Some cmd \<Rightarrow>
                    sendCommandExpected net replyGroupPreliminaryReply ''%s %s'' [AStr cmd, AStr path])
               (\<lambda>e. (0, Some e))
               (\<lambda>e. debug ''error preparing data connection: %s'' [AErr e])
               (\<lambda>e. debug ''error getting data connection: %s'' [AErr e])
               (transferBody net fuel (case transferCmd dest src of None \<Rightarrow> [] | Some cmd \<Rightarrow> cmd) dest)))"

definition transferFromOffset :: "net \<Rightarrow> nat \<Rightarrow> string \<Rightarrow> bool \<Rightarrow> bool \<Rightarrow> int \<Rightarrow> (int \<times> goerror option, client) go" where
  "transferFromOffset net fuel path dest src offset =
     withIdle net (\<lambda>e. (0, Some e)) (transferOn net fuel path dest src offset)"

section \<open>The size of a file, and whether transfers can be resumed\<close>

definition sizeOn :: "net \<Rightarrow> string \<Rightarrow> (int \<times> goerror option, pworld) go" where
  "sizeOn net path =
     seq (gets pconn) (\<lambda>pc.
     if \<not> hasFeature pc ''SIZE'' then
       seq (debug ''server doesn't support SIZE'' []) (\<lambda>_. ret (- 1, None))
     else
       seq (setType net ''I'') (\<lambda>err.
       case err of
         Some e \<Rightarrow> ret (0, Some e)
       | None \<Rightarrow>
           seq (sendCommand net ''SIZE %s'' [AStr path]) (\<lambda>(code, msg, err).
           case err of
             Some e \<Rightarrow> ret (- 1, Some e)
           | None \<Rightarrow>
               if code \<noteq> replyFileStatus then
                 seq (debug ''unexpected SIZE response: %d (%s)'' [AInt code, AStr msg]) (\<lambda>_. ret (- 1, None))
               else
                 (case ParseInt msg 10 64 of
                    Inl e \<Rightarrow>
                      seq (debug ''failed parsing SIZE response \"%s\": %s'' [AStr msg, AErr (NumError ''ParseInt'' msg e)])
                        (\<lambda>_. ret (- 1, None))
                  | Inr n \<Rightarrow> ret (n, None)))))"

definition sizeOf :: "net \<Rightarrow> string \<Rightarrow> (int \<times> goerror option, client) go" where
  "sizeOf net path = withIdle net (\<lambda>e. (- 1, Some e)) (sizeOn net path)"

definition canResume :: "net \<Rightarrow> (bool, client) go" where
  "canResume net = withIdle net (\<lambda>_. False) (gets (\<lambda>w. hasFeatureWithArg (pconn w) ''REST'' ''STREAM''))"

section \<open>Downloading\<close>

fun retrieveLoop :: "net \<Rightarrow> nat \<Rightarrow> nat \<Rightarrow> string \<Rightarrow> bool \<Rightarrow> int \<Rightarrow> (goerror + int, client) go" where
  "retrieveLoop net fuel 0 path resume bytesSoFar = abort_with OutOfFuel"
| "retrieveLoop net fuel (Suc k) path resume bytesSoFar =
     seq (transferFromOffset net fuel path True False bytesSoFar) (\<lambda>(n, err).
     case err of
       None \<Rightarrow> ret (Inr (bytesSoFar + n))
     | Some e \<Rightarrow>
         if n = 0 then ret (Inl e)
         else if \<not> resume then ret (Inl (tempErr (Errorf ''%s (can't resume)'' [AErr e])))
         else retrieveLoop net fuel k path resume (bytesSoFar + n))"

definition RetrieveFrom :: "net \<Rightarrow> nat \<Rightarrow> nat \<Rightarrow> string \<Rightarrow> int \<Rightarrow> (goerror option, client) go" where
  "RetrieveFrom net fuel k path offset =
     (if offset < 0 then ret (Some (wrapErr (Errorf ''offset %d is negative'' [AInt offset])))
      else
        seq (sizeOf net path) (\<lambda>(size, err).
        case err of
          Some e \<Rightarrow> ret (Some e)
        | None \<Rightarrow>
            if size \<noteq> - 1 \<and> offset > size then
              ret (Some (wrapErr (Errorf ''offset %d is past the end of %q, which is %d bytes''
                [AInt offset, AStr path, AInt size])))
            else
              seq (canResume net) (\<lambda>resume.
              if offset > 0 \<and> \<not> resume then
                ret (Some (wrapErr (Errorf ''cannot start at offset %d: the server does not support REST STREAM'' [AInt offset])))
              else if offset = size then ret None
              else
                seq (retrieveLoop net fuel k path resume offset) (\<lambda>r.
                case r of
                  Inl e \<Rightarrow> ret (Some e)
                | Inr bytesSoFar \<Rightarrow>
                    if size \<noteq> - 1 \<and> bytesSoFar \<noteq> size then
                      ret (Some (tempErr (Errorf ''expected %d bytes, got %d'' [AInt size, AInt bytesSoFar])))
                    else ret None))))"

definition Retrieve :: "net \<Rightarrow> nat \<Rightarrow> nat \<Rightarrow> string \<Rightarrow> (goerror option, client) go" where
  "Retrieve net fuel k path = RetrieveFrom net fuel k path 0"

section \<open>Uploading\<close>

definition onClient :: "'a io \<Rightarrow> ('a, client) go" where
  "onClient m = zoom chist (\<lambda>h c. c\<lparr>chist := h\<rparr>) m"

text \<open>The operands of \<^verbatim>\<open>"%s (resume failed)"\<close>: the error of the attempt before.\<close>

definition prevErr :: "goerror option \<Rightarrow> goarg list" where
  "prevErr err = (case err of None \<Rightarrow> [] | Some e \<Rightarrow> [AErr e])"

text \<open>Where the next attempt starts: at the size the server reports. \<open>seeker\<close> is \<open>nil\<close> when the source cannot seek.\<close>

definition resumeAt :: "net \<Rightarrow> string \<Rightarrow> bool \<Rightarrow> int \<Rightarrow> goerror option \<Rightarrow> (goerror + int, client) go" where
  "resumeAt net path seekable bytesSoFar err =
     (if bytesSoFar > 0 then
        seq (sizeOf net path) (\<lambda>(size, sizeErr).
        case sizeErr of
          Some e \<Rightarrow> ret (Inl (tempErr e))
        | None \<Rightarrow>
            if size = - 1 then ret (Inl (tempErr (Errorf ''%s (resume failed)'' (prevErr err))))
            else if \<not> seekable then abort_with (Panicked ''nil pointer dereference'')
            else
              seq (onClient (srcSeek net size)) (\<lambda>seekErr.
              if seekErr \<noteq> None then
                seq (clDebug ''failed seeking to %d while resuming upload to %s: %s''
                      ([AInt size, AStr path] @ prevErr err)) (\<lambda>_.
                ret (Inl (tempErr (Errorf ''%s (resume failed)'' (prevErr err)))))
              else ret (Inr size)))
      else ret (Inr bytesSoFar))"

fun storeLoop :: "net \<Rightarrow> nat \<Rightarrow> nat \<Rightarrow> string \<Rightarrow> bool \<Rightarrow> bool \<Rightarrow> int \<Rightarrow> goerror option \<Rightarrow> (goerror + int, client) go" where
  "storeLoop net fuel 0 path seekable resume bytesSoFar err = abort_with OutOfFuel"
| "storeLoop net fuel (Suc k) path seekable resume bytesSoFar err =
     seq (resumeAt net path seekable bytesSoFar err) (\<lambda>r.
     case r of
       Inl e \<Rightarrow> ret (Inl e)
     | Inr start \<Rightarrow>
         seq (transferFromOffset net fuel path False True start) (\<lambda>(n, err).
         case err of
           None \<Rightarrow> ret (Inr (start + n))
         | Some e \<Rightarrow>
             if n = 0 then ret (Inl (tempErr e))
             else if \<not> resume then ret (Inl (tempErr (Errorf ''%s (can't resume)'' [AErr e])))
             else storeLoop net fuel k path seekable resume (start + n) (Some e)))"

definition Store :: "net \<Rightarrow> nat \<Rightarrow> nat \<Rightarrow> string \<Rightarrow> bool \<Rightarrow> (goerror option, client) go" where
  "Store net fuel k path seekable =
     seq (gets hosts) (\<lambda>hs.
     seq (if length hs = 1 then canResume net else ret False) (\<lambda>res.
     seq (storeLoop net fuel k path seekable (res \<and> seekable) 0 None) (\<lambda>r.
     case r of
       Inl e \<Rightarrow> ret (Some e)
     | Inr bytesSoFar \<Rightarrow>
         seq (sizeOf net path) (\<lambda>(size, err).
         case err of
           Some e \<Rightarrow> ret (Some e)
         | None \<Rightarrow>
             if size \<noteq> - 1 \<and> size \<noteq> bytesSoFar then
               ret (Some (tempErr (Errorf ''sent %d bytes, but size is %d'' [AInt bytesSoFar, AInt size])))
             else ret None))))"

end
