(* ===== verification/TransferOk.thy ===== *)
theory TransferOk
  imports FileTransfer
begin

text \<open>
  The contracts of the transfer methods: they keep the pool in order, leave no socket behind in passive mode,
  never panic, and end when the server ends its data connections, the source ends and the destination
  has an end.
\<close>

section \<open>Rules of the system calls\<close>

lemma wp_destWrite [wp_simps]:
  "wp (destWrite net bytes) Q E h = (let r = dest_write net h bytes in Q r (EvDest bytes (fst r) (snd r) # h))"
  by (simp add: wp_def destWrite_def Let_def split_beta)

lemma wp_srcRead [wp_simps]:
  "wp (srcRead net) Q E h = (let r = src_read net h in Q r (EvSrc (fst r) (snd r) # h))"
  by (simp add: wp_def srcRead_def Let_def split_beta)

lemma wp_srcSeek [wp_simps]:
  "wp (srcSeek net pos) Q E h = (let r = src_seek net h pos in Q r (EvSeek pos r # h))"
  by (simp add: wp_def srcSeek_def Let_def)

lemma wp_onClient [wp_simps]:
  "wp (onClient m) Q E c = wp m (\<lambda>a h. Q a (c\<lparr>chist := h\<rparr>)) (\<lambda>e h. E e (c\<lparr>chist := h\<rparr>)) (chist c)"
  by (simp add: onClient_def wp_simps)

section \<open>Copying\<close>

text \<open>One turn of the copy: a read, a write of what was read, and then the end or the next turn.\<close>

lemma wp_copyWrite:
  assumes "buf = [] \<Longrightarrow> P (0, None) h"
    and "buf \<noteq> [] \<Longrightarrow> wp (wr buf) (\<lambda>(nw, ew). P (writeResult buf nw ew)) E h"
  shows "wp (copyWrite wr buf) P E h"
proof (cases "buf = []")
  case False
  from assms(2) [OF this] have "wp (wr buf) (\<lambda>r. wp (case r of (nw, ew) \<Rightarrow> ret (writeResult buf nw ew)) P E) E h"
    by (rule wp_mono) (auto simp: wp_ret split: prod.splits)
  with False show ?thesis by (simp add: copyWrite_def wp_seq)
qed (use assms(1) in \<open>simp add: copyWrite_def wp_ret\<close>)

definition copy_turn :: "(int \<times> goerror option \<Rightarrow> history \<Rightarrow> bool) \<Rightarrow> (int \<Rightarrow> history \<Rightarrow> bool) \<Rightarrow> int \<Rightarrow>
    goerror option \<Rightarrow> nat \<times> goerror option \<Rightarrow> history \<Rightarrow> bool" where
  "copy_turn Q again written er r h = (case r of (n, ew) \<Rightarrow>
     (case ew of
        Some e \<Rightarrow> Q (written + int n, Some e) h
      | None \<Rightarrow> (case er of
          Some e \<Rightarrow> Q (written + int n, if e = EOF then None else Some e) h
        | None \<Rightarrow> again (written + int n) h)))"

lemma wp_copyLoop:
  assumes rd: "wp rd (\<lambda>(buf, er). wp (copyWrite wr buf)
      (copy_turn Q (\<lambda>n. wp (copyLoop rd wr fuel n) Q E) written er) E) E h"
  shows "wp (copyLoop rd wr (Suc fuel) written) Q E h"
  unfolding copyLoop.simps wp_seq [of rd]
proof (rule wp_mono [OF rd], goal_cases)
  case (1 r h1)
  obtain buf er where r: "r = (buf, er)" by (cases r)
  from 1 show ?case
    unfolding r split wp_seq
    by (rule wp_mono [of "copyWrite wr buf"]) (auto simp: r copy_turn_def wp_ret split: prod.splits option.splits)
qed

text \<open>A copy whose reads and writes keep the sockets keeps them too, and its count never goes down.\<close>

lemma copyLoop_live:
  assumes rd: "\<And>h. wp rd (\<lambda>_ h'. live h' = live h) never h"
    and wr: "\<And>b h. wp (wr b) (\<lambda>_ h'. live h' = live h) never h"
  shows "wp (copyLoop rd wr fuel written) (\<lambda>(n, _) h'. written \<le> n \<and> live h' = live h) (\<lambda>e _. e = OutOfFuel) h"
proof (induction fuel arbitrary: written h)
  case (Suc fuel)
  let ?Q = "\<lambda>(n, _ :: goerror option) h'. written \<le> n \<and> live h' = live h"
  let ?E = "\<lambda>e (_ :: history). e = OutOfFuel"
  have turn: "copy_turn ?Q (\<lambda>n. wp (copyLoop rd wr fuel n) ?Q ?E) written er r h'" if "live h' = live h" for er r h'
  proof -
    have "wp (copyLoop rd wr fuel (written + int n)) ?Q ?E h'" for n
      by (rule wp_mono [OF Suc]) (use that in auto)
    with that show ?thesis by (simp add: copy_turn_def split: prod.split option.split)
  qed
  show ?case
  proof (rule wp_copyLoop, rule wp_mono [OF rd], goal_cases)
    case (1 r h1)
    obtain buf er where r: "r = (buf, er)" by (cases r)
    show ?case
      unfolding r split
      by (rule wp_copyWrite, rule turn, rule 1, rule wp_mono [OF wr]) (use 1 turn in \<open>auto split: prod.split\<close>)
  qed simp
qed (simp add: wp_simps)

text \<open>
  A copy ends when its reads end: \<open>cnt\<close> counts the reads, after \<open>N\<close> of them a read reports an error or the end,
  and writing does not change the count.
\<close>

lemma copyLoop_ends:
  assumes rd: "\<And>h. wp rd (\<lambda>(_, er) h'. er \<noteq> None \<or> cnt h < cnt h' \<and> cnt h' \<le> N) never h"
    and wr: "\<And>b h. wp (wr b) (\<lambda>_ h'. cnt h' = cnt h) never h"
    and "0 < fuel" "N < fuel + cnt h"
  shows "wp (copyLoop rd wr fuel written) (\<lambda>_ _. True) never h"
  using assms(3,4)
proof (induction fuel arbitrary: written h)
  case (Suc fuel)
  let ?Q = "\<lambda>(_ :: int \<times> goerror option) (_ :: history). True"
  show ?case
  proof (rule wp_copyLoop, rule wp_mono [OF rd], goal_cases)
    case (1 r h1)
    obtain buf er where r: "r = (buf, er)" by (cases r)
    have turn: "copy_turn ?Q (\<lambda>n. wp (copyLoop rd wr fuel n) ?Q never) written er x h2" if "cnt h2 = cnt h1" for x h2
    proof -
      have "wp (copyLoop rd wr fuel n) ?Q never h2" if "er = None" for n
        by (rule Suc.IH) (use 1 r that \<open>cnt h2 = cnt h1\<close> Suc.prems in auto)
      then show ?thesis by (simp add: copy_turn_def split: prod.split option.split)
    qed
    show ?case
      unfolding r split
      by (rule wp_copyWrite, rule turn, rule refl, rule wp_mono [OF wr]) (use turn in \<open>auto split: prod.split\<close>)
  qed simp
qed simp

text \<open>The reads of the source since it was last positioned.\<close>

fun src_reads :: "history \<Rightarrow> nat" where
  "src_reads [] = 0"
| "src_reads (EvSrc _ _ # h) = Suc (src_reads h)"
| "src_reads (EvSeek _ _ # h) = 0"
| "src_reads (_ # h) = src_reads h"

definition src_ends :: "nat \<Rightarrow> net \<Rightarrow> bool" where
  "src_ends N net \<longleftrightarrow> (\<forall>h. N \<le> src_reads h \<longrightarrow> snd (src_read net h) \<noteq> None)"

definition enoughFor :: "bool \<Rightarrow> net \<Rightarrow> nat \<Rightarrow> bool" where
  "enoughFor dest net fuel \<longleftrightarrow> (if dest then enough net fuel else (\<exists>N < fuel. src_ends N net))"

lemma copyData_live:
  "wp (copyData net fuel dest dc) (\<lambda>(n, _) h'. 0 \<le> n \<and> live h' = live h) (\<lambda>e _. e = OutOfFuel) h"
  unfolding copyData_def by (cases dest) (simp_all, (rule copyLoop_live; simp add: wp_simps Let_def)+)

lemma copyData_ends:
  assumes "enoughFor dest net fuel"
  shows "wp (copyData net fuel dest dc) (\<lambda>_ _. True) never h"
proof (cases dest)
  case True
  with assms obtain N where N: "ends_within N net" "N < fuel" by (auto simp: enoughFor_def enough_def)
  have "wp (copyLoop (Read net dc) (destWrite net) fuel 0) (\<lambda>_ _. True) never h"
  proof (rule copyLoop_ends [where cnt = "reads_on (sock (Conn dc))" and N = N])
    show "wp (Read net dc) (\<lambda>(_, er) h'. er \<noteq> None \<or> reads_on (sock (Conn dc)) h < reads_on (sock (Conn dc)) h' \<and>
        reads_on (sock (Conn dc)) h' \<le> N) never h" for h
      using N(1) [unfolded ends_within_def, rule_format, of "sock (Conn dc)" "EvReadDeadline (sock (Conn dc)) (dcTimeout dc) # h"]
      by (simp add: wp_simps Let_def split_beta) (metis Suc_leI not_le)
  qed (use N in \<open>simp_all add: wp_simps Let_def\<close>)
  with True show ?thesis by (simp add: copyData_def)
next
  case False
  with assms obtain N where N: "src_ends N net" "N < fuel" by (auto simp: enoughFor_def)
  have "wp (copyLoop (srcRead net) (Write net dc) fuel 0) (\<lambda>_ _. True) never h"
  proof (rule copyLoop_ends [where cnt = src_reads and N = N])
    show "wp (srcRead net) (\<lambda>(_, er) h'. er \<noteq> None \<or> src_reads h < src_reads h' \<and> src_reads h' \<le> N) never h" for h
      using N(1) [unfolded src_ends_def, rule_format, of h]
      by (simp add: wp_simps Let_def split_beta) (metis Suc_leI not_le)
  qed (use N in \<open>simp_all add: wp_simps Let_def\<close>)
  with False show ?thesis by (simp add: copyData_def)
qed

lemma copyData_contract:
  "wp (copyData net fuel dest dc) (\<lambda>(n, _) h'. 0 \<le> n \<and> live h' = live h)
     (\<lambda>e _. \<not> enoughFor dest net fuel \<and> e = OutOfFuel) h"
  using copyData_live [of net fuel dest dc h] copyData_ends [of dest net fuel dc h]
  by (cases "enoughFor dest net fuel") (auto simp: wp_def split: out.splits)

section \<open>One attempt\<close>

lemma ctl_step_log: "ctl_step w w' \<Longrightarrow> ctl_step w (w'\<lparr>hist := EvLog i f as # hist w'\<rparr>)"
  by (auto simp: ctl_step_def same_socks_def)

lemma transferReply_ok:
  assumes "connected w"
  shows "wp (transferReply net cmd n) (\<lambda>(m, err) w'. ctl_step w w' \<and> m = n \<and> ftpErr err) never w"
  unfolding transferReply_def wp_seq [of "readResponse net"]
  by (rule wp_mono [OF ctl_okD [OF ctl_ok_readResponse assms]])
    (auto simp: wp_simps intro: ctl_step_log split: prod.splits option.splits)

lemma transferBody_step:
  assumes w: "connected w"
  shows "wp (transferBody net fuel cmd dest dc) (\<lambda>(n, _) w'. body_step dc w w' \<and> 0 \<le> n)
    (\<lambda>e _. \<not> enoughFor dest net fuel \<and> e = OutOfFuel) w"
  unfolding transferBody_def wp_seq [of "io _"] wp_io
proof (rule wp_mono [OF copyData_contract], goal_cases)
  case (1 r h')
  obtain n err where r: "r = (n, err)" by (cases r)
  with 1 have n: "0 \<le> n" and step: "body_step dc w (w\<lparr>hist := h'\<rparr>)" by (auto simp: body_step_def conn_step_def)
  show ?case
  proof (cases err)
    case None
    have "wp (seq (logClose net (Conn dc) why) (\<lambda>_. transferReply net cmd n))
        (\<lambda>(m, _) w'. body_step dc w w' \<and> 0 \<le> m) (\<lambda>e _. \<not> enoughFor dest net fuel \<and> e = OutOfFuel) (w\<lparr>hist := h'\<rparr>)" for why
      unfolding wp_seq
    proof (rule wp_mono [OF logClose_contract], goal_cases)
      case (1 u w1)
      then have step1: "body_step dc w w1"
        using step by (auto simp: body_step_def releases_def intro: conn_step_trans)
      then have "connected w1" using w conn_step_connected by (auto simp: body_step_def)
      from transferReply_ok [OF this] show ?case
        by (rule wp_mono) (use n in \<open>auto intro: body_step_ctl [OF step1]\<close>)
    qed simp
    then show ?thesis by (simp add: r None)
  qed (use n step in \<open>simp add: r wp_simps body_step_def conn_step_def\<close>)
qed simp

lemma transferBody_ok: "data_body (\<not> enoughFor dest net fuel) (transferBody net fuel cmd dest) (\<lambda>(n, _). 0 \<le> n)"
  unfolding data_body_def
  by (intro allI impI, rule wp_mono [OF transferBody_step]) (auto simp: body_step_def)

lemma conn_ok_call:
  assumes "ctl_ok m (\<lambda>err. err)" "conn_ok F (f None) Q" "\<And>e. is_ftpError e \<Longrightarrow> conn_ok F (f (Some e)) Q"
  shows "conn_ok F (seq m f) Q"
proof (rule conn_ok_seq [OF conn_ok_ctl [OF assms(1)]])
  fix err :: "goerror option" assume "ftpErr err"
  with assms(2,3) show "conn_ok F (f err) Q" by (cases err) auto
qed

lemma transferOn_ok:
  assumes "dest \<noteq> src"
  shows "conn_ok (\<not> enoughFor dest net fuel) (transferOn net fuel path dest src offset) (\<lambda>(n, _). 0 \<le> n)"
proof -
  obtain cmd where cmd: "transferCmd dest src = Some cmd" using assms by (auto simp: transferCmd_def)
  have rest: "ctl_ok (if offset > 0 then sendCommandExpected net x f as else ret None) (\<lambda>err. err)" for x f as
    by (auto intro: ctl_ok_sendCommandExpected ctl_ok_ret)
  show ?thesis
    unfolding transferOn_def cmd option.case
    by (rule conn_ok_call [OF ctl_ok_setType], unfold option.case, rule conn_ok_call [OF rest], unfold option.case)
      (auto intro!: conn_ok_ret withDataConn_ok ctl_ok_sendCommandExpected ctl_ok_debug transferBody_ok)
qed

lemma transferFromOffset_ok:
  "dest \<noteq> src \<Longrightarrow>
     cl_ok (\<not> enoughFor dest net fuel) (transferFromOffset net fuel path dest src offset) (\<lambda>(n, _). 0 \<le> n)"
  unfolding transferFromOffset_def by (rule withIdle_ok [OF transferOn_ok]) simp_all

section \<open>Sizes and features\<close>

lemma ctl_ok_sizeOn: "ctl_ok (sizeOn net path) (\<lambda>(n, err). err)"
  unfolding sizeOn_def
  by (rule ctl_ok_then [OF ctl_ok_gets])
    (auto intro!: ctl_ok_if ctl_ok_ret ctl_ok_then [OF ctl_ok_debug] ctl_ok_call1 [OF ctl_ok_setType]
      ctl_ok_call3 [OF ctl_ok_sendCommand] split: sum.split)

lemma sizeOf_ok: "cl_ok F (sizeOf net path) (\<lambda>(n, err). ftpErr err)"
  unfolding sizeOf_def
  by (rule withIdle_ok, rule conn_ok_weaken [OF conn_ok_ctl [OF ctl_ok_sizeOn]]) auto

lemma canResume_ok: "cl_ok F (canResume net) (\<lambda>_. True)"
  unfolding canResume_def
  by (rule withIdle_ok, rule conn_ok_weaken [OF conn_ok_ctl [OF ctl_ok_gets]]) auto

section \<open>Downloads\<close>

lemma cl_ok_fuel: "cl_ok F m Q \<Longrightarrow> cl_ok True m (\<lambda>_. True)"
  unfolding cl_ok_def by (blast intro: wp_mono)

lemma sizeOf_call:
  assumes "\<And>n. cl_ok F (f n None) Q" and "\<And>n e. is_ftpError e \<Longrightarrow> cl_ok F (f n (Some e)) Q"
  shows "cl_ok F (seq (sizeOf net path) (\<lambda>(n, err). f n err)) Q"
proof (rule cl_ok_seq [OF sizeOf_ok])
  fix r :: "int \<times> goerror option" assume "case r of (n, err) \<Rightarrow> ftpErr err"
  with assms show "cl_ok F (case r of (n, err) \<Rightarrow> f n err) Q" by (cases "snd r") (auto split: prod.split)
qed

lemma retrieveLoop_ok: "cl_ok True (retrieveLoop net fuel k path resume bytesSoFar) (\<lambda>_. True)"
proof (induction k arbitrary: resume bytesSoFar)
  case 0
  show ?case by (simp add: cl_ok_def wp_abort_with)
next
  case (Suc k)
  have attempt: "cl_ok True (transferFromOffset net fuel path True False offset) (\<lambda>_. True)" for offset
    by (rule cl_ok_fuel [OF transferFromOffset_ok]) simp
  show ?case
    unfolding retrieveLoop.simps
    by (rule cl_ok_seq [OF attempt]) (use Suc in \<open>auto intro!: cl_ok_ret split: option.split\<close>)
qed

lemma RetrieveFrom_ok: "cl_ok True (RetrieveFrom net fuel k path offset) (\<lambda>_. True)"
proof -
  have loop: "cl_ok True (seq (retrieveLoop net fuel k path resume n) f) (\<lambda>_. True)"
    if "\<And>r. cl_ok True (f r) (\<lambda>_. True)" for resume n and f :: "goerror + int \<Rightarrow> (goerror option, client) go"
    by (rule cl_ok_seq [OF retrieveLoop_ok]) (rule that)
  show ?thesis
    unfolding RetrieveFrom_def
    by (auto intro!: cl_ok_ret sizeOf_call cl_ok_seq [OF canResume_ok] loop split: sum.split)
qed

interpretation retrieve: client_method True "RetrieveFrom net fuel k path offset" "\<lambda>_. True" for net fuel k path offset
  by unfold_locales (rule RetrieveFrom_ok)

end
