(* ===== verification/Payload.thy ===== *)
theory Payload
  imports TransferOk
begin

text \<open>
  The payload of a transfer: the events in which file data moves, that is what the data connections
  deliver and take, and what the caller's reader and writer give and take. Everything the client does on its
  control connections, in its pool and in opening and closing sockets leaves the payload as it is; only copying, scanning and
  seeking change it. So the effect of a whole transfer on the data is the effect of its copies. The rules are stated for
  every view of the history that looks only at the payload and at commands about files; the payload is one such view.
\<close>

section \<open>Data connections in a view\<close>

abbreviation kept_s :: "(history \<Rightarrow> 'v) \<Rightarrow> 'v \<Rightarrow> 'a closure \<Rightarrow> bool" where
  "kept_s view X \<equiv> keeps (\<lambda>s. view (hist (fst s)) = X)"

context command_view
begin

lemma kept_inner [keeps_rules]: "kept_w view X m \<Longrightarrow> kept_s view X (inner m)"
  by (auto simp: keeps_def wp_inner elim!: wp_mono)

lemma kept_withCell [keeps_rules]: "kept_s view X m \<Longrightarrow> kept_w view X (withCell m)"
  by (auto simp: keeps_def wp_withCell elim!: wp_mono)

lemma kept_listening [keeps_rules]:
  "kept_h view X (ResolveTCPAddr net a)" "kept_h view X (ListenTCP net a)" "kept_h view X (Accept net l)"
  by (auto simp: keeps_def wp_simps Let_def silent split: prod.split)

lemma kept_requestPASV [keeps_rules]: "kept_w view X (requestPASV net)"
  unfolding requestPASV_def by (intro keeps_rules quietI) simp

lemma kept_requestPassive [keeps_rules]: "kept_w view X (requestPassive net)"
  unfolding requestPassive_def by (intro keeps_rules quietI) simp

lemma kept_listenActive [keeps_rules]: "kept_w view X (listenActive net)"
  unfolding listenActive_def announce_def by (intro keeps_rules quietI) simp_all

lemma kept_prepareDataConn [keeps_rules]: "kept_w view X (prepareDataConn net)"
  unfolding prepareDataConn_def by (intro keeps_rules)

lemma kept_logClose [keeps_rules]: "kept_w view X (logClose net c why)"
  unfolding logClose_def by (intro keeps_rules)

lemma kept_abortData [keeps_rules]: "kept_s view X (abortData net p)"
  unfolding abortData_def by (auto intro!: keeps_rules split: prepared.split)

lemma kept_getData [keeps_rules]: "kept_s view X (getData net p)"
  unfolding getData_def acceptData_def handshakeData_def setDataConn_def
  by (auto intro!: keeps_rules split: prepared.split conn.split)

lemma kept_closeData [keeps_rules]: "kept_w view X (closeData net dc)"
  unfolding closeData_def by (intro keeps_rules)

lemma kept_transferReply [keeps_rules]: "kept_w view X (transferReply net cmd n)"
  unfolding transferReply_def by (intro keeps_rules)

lemma kept_withIdle [keeps_rules]: "kept_w view X body \<Longrightarrow> kept_c view X (withIdle net fail body)"
  unfolding withIdle_def bracketed_def by (intro keeps_rules)

lemma kept_sizeOf [keeps_rules]: "kept_c view X (sizeOf net path)"
  unfolding sizeOf_def sizeOn_def by (intro keeps_rules quietI) simp

lemma kept_canResume [keeps_rules]: "kept_c view X (canResume net)"
  unfolding canResume_def by (intro keeps_rules)

end

section \<open>What moves a view\<close>

text \<open>
  \<open>moves v R m\<close>: running \<open>m\<close> relates what is seen before, the result and what is seen after by \<open>R\<close>; \<open>v\<close> reads it off
  a state. What keeps the view may stand before and after it.
\<close>

definition moves :: "('s \<Rightarrow> 'v) \<Rightarrow> ('v \<Rightarrow> 'a \<Rightarrow> 'v \<Rightarrow> bool) \<Rightarrow> ('a, 's) go \<Rightarrow> bool" where
  "moves v R m \<longleftrightarrow> (\<forall>s. wp m (\<lambda>a s'. R (v s) a (v s')) (\<lambda>_ _. True) s)"

abbreviation w_view :: "(history \<Rightarrow> 'v) \<Rightarrow> pworld \<Rightarrow> 'v" where
  "w_view view \<equiv> (\<lambda>w. view (hist w))"

abbreviation s_view :: "(history \<Rightarrow> 'v) \<Rightarrow> pworld \<times> bool \<Rightarrow> 'v" where
  "s_view view \<equiv> (\<lambda>s. view (hist (fst s)))"

abbreviation c_view :: "(history \<Rightarrow> 'v) \<Rightarrow> client \<Rightarrow> 'v" where
  "c_view view \<equiv> (\<lambda>c. view (chist c))"

lemma movesD: "moves v R m \<Longrightarrow> wp m (\<lambda>a s'. R (v s) a (v s')) (\<lambda>_ _. True) s"
  by (simp add: moves_def)

lemma moves_ret: "(\<And>X. R X a X) \<Longrightarrow> moves v R (ret a)"
  by (simp add: moves_def wp_ret)

lemma moves_abort: "moves v R (abort_with e)"
  by (simp add: moves_def wp_abort_with)

lemma moves_after:
  assumes m: "\<And>X. keeps (\<lambda>s. v s = X) m" and f: "\<And>a. moves v R (f a)"
  shows "moves v R (seq m f)"
  unfolding moves_def wp_seq
proof (rule allI, rule wp_mono [OF keeps_unchanged [of v, OF m]], goal_cases)
  case (1 s a s')
  then show ?case using movesD [OF f, of a s'] by simp
qed simp

lemma moves_call:
  assumes m: "\<And>X. keeps (\<lambda>s. v s = X) m" and f: "moves v R (f None)" "\<And>e. moves v R (f (Some e))"
  shows "moves v R (seq m f)"
proof (rule moves_after [OF m])
  show "moves v R (f err)" for err using f by (cases err) auto
qed

lemma wp_deferred_kept:
  assumes m: "wp m (\<lambda>a s'. Q a (v s')) (\<lambda>_ _. True) s" and d: "\<And>X. keeps (\<lambda>s. v s = X) d"
  shows "wp (deferred d m) (\<lambda>a s'. Q a (v s')) (\<lambda>_ _. True) s"
  unfolding wp_deferred
proof (rule wp_mono [OF m], goal_cases)
  case (1 a s')
  then show ?case using wp_mono [OF keeps_unchanged [of v d s', OF d]] by fastforce
next
  case (2 e s')
  then show ?case using wp_mono [OF keeps_unchanged [of v d s', OF d]] by (auto split: abn.split)
qed

lemma moves_before: "moves v R m \<Longrightarrow> (\<And>X. keeps (\<lambda>s. v s = X) d) \<Longrightarrow> moves v R (deferred d m)"
  unfolding moves_def by (blast intro: wp_deferred_kept)

lemma moves_inner: "moves (w_view view) R m \<Longrightarrow> moves (s_view view) R (inner m)"
  by (simp add: moves_def wp_inner)

lemma moves_withCell: "moves (s_view view) R m \<Longrightarrow> moves (w_view view) R (withCell m)"
  unfolding moves_def wp_withCell by (metis fst_conv)

lemma moves_onConn: "moves (w_view view) R m \<Longrightarrow> moves (c_view view) R (onConn r m)"
proof (unfold moves_def wp_onConn, rule allI)
  fix s :: client assume "\<forall>w. wp m (\<lambda>a w'. R (view (hist w)) a (view (hist w'))) (\<lambda>_ _. True) w"
  then have "wp m (\<lambda>a w'. R (view (hist \<lparr>pconn = heap s r, hist = chist s\<rparr>)) a (view (hist w'))) (\<lambda>_ _. True)
      \<lparr>pconn = heap s r, hist = chist s\<rparr>" by blast
  then show "wp m (\<lambda>a w. R (view (chist s)) a (view (chist (s\<lparr>heap := (heap s)(r := pconn w), chist := hist w\<rparr>)))) (\<lambda>_ _. True)
      \<lparr>pconn = heap s r, hist = chist s\<rparr>" by simp
qed

lemma keeps_Ret: "(\<And>X. keeps (\<lambda>s. v s = X) m) \<Longrightarrow> m s = Ret a s' \<Longrightarrow> v s' = v s"
  using keeps_unchanged [of v m s] by (auto simp: wp_def)

context command_view
begin

text \<open>What follows the command of a transfer: getting the data connection, working on it, closing it.\<close>

lemma moves_getData:
  assumes get: "\<And>X e. kept_w view X (onGet e)" and fail: "\<And>X e. R X (fail e) X"
    and body: "\<And>dc. moves (w_view view) R (body dc)"
  shows "moves (s_view view) R (seq (getData net p) (\<lambda>r. case r of
      Inl e \<Rightarrow> inner (seq (onGet e) (\<lambda>_. ret (fail e)))
    | Inr dc \<Rightarrow> inner (deferred (closeData net dc) (body dc))))"
proof -
  have failed: "moves (w_view view) R (seq (onGet e) (\<lambda>_. ret (fail e)))" for e
    by (rule moves_after [OF get], rule moves_ret) (rule fail)
  show ?thesis
    by (rule moves_after [OF kept_getData])
      (auto intro!: moves_inner failed moves_before body kept_closeData split: sum.split)
qed

lemma moves_withDataConn:
  assumes send: "\<And>X. kept_w view X send" and prep: "\<And>X e. kept_w view X (onPrep e)" and get: "\<And>X e. kept_w view X (onGet e)"
    and fail: "\<And>X e. R X (fail e) X" and body: "\<And>dc. moves (w_view view) R (body dc)"
  shows "moves (w_view view) R (withDataConn net send fail onPrep onGet body)"
proof -
  have failed: "moves (w_view view) R (seq (onPrep e) (\<lambda>_. ret (fail e)))" for e
    by (rule moves_after [OF prep], rule moves_ret) (rule fail)
  have "moves (w_view view) R (dataCommand net p send fail onGet body)" for p
    unfolding dataCommand_def
    by (intro moves_withCell moves_before kept_abortData moves_after [OF kept_inner [OF send]])
      (auto intro!: moves_ret fail moves_getData get body split: option.split)
  then show ?thesis
    unfolding withDataConn_def
    by (intro moves_after [OF kept_prepareDataConn]) (auto intro!: failed split: sum.split)
qed

lemma moves_withIdle:
  assumes "\<And>X e. R X (fail e) X" and "moves (w_view view) R body"
  shows "moves (c_view view) R (withIdle net fail body)"
  unfolding withIdle_def bracketed_def
  by (rule moves_after [OF kept_getIdleConn])
    (auto intro!: moves_ret assms moves_before moves_onConn kept_returnConn split: sum.split)

end

section \<open>The payload\<close>

fun is_payload :: "event \<Rightarrow> bool" where
  "is_payload (EvDataIn _ _ _) = True"
| "is_payload (EvDataOut _ _ _ _) = True"
| "is_payload (EvDest _ _ _) = True"
| "is_payload (EvSrc _ _) = True"
| "is_payload (EvSeek _ _) = True"
| "is_payload _ = False"

abbreviation payload :: "history \<Rightarrow> event list" where
  "payload h \<equiv> filter is_payload h"

abbreviation pay_w :: "pworld \<Rightarrow> event list" where
  "pay_w \<equiv> w_view payload"

abbreviation pay_c :: "client \<Rightarrow> event list" where
  "pay_c \<equiv> c_view payload"

text \<open>No command is file data, so every command is quiet for the payload.\<close>

interpretation pay: command_view payload "\<lambda>_. True"
proof
  show "payload (ev # h) = payload h" if "is_setup ev" for ev h
    using that by (cases ev) simp_all
qed simp_all

end
