(* ===== verification/TransferProps.thy ===== *)
theory TransferProps
  imports Payload
begin

text \<open>
  What a transfer does with the data. A download hands the caller's writer exactly the bytes it counts, in the
  order the data connections delivered them; the offset of every resumed attempt is the offset of the
  first plus the bytes written so far; a download that succeeds against a server that reports sizes has written the
  whole rest of the file; and the loop ends, since every further attempt has made progress.
\<close>

section \<open>The bytes a download moves\<close>

text \<open>What the caller's writer took, and what the data connections delivered, the oldest bytes first.\<close>

fun accepted :: "history \<Rightarrow> string" where
  "accepted [] = []"
| "accepted (EvDest bs n _ # h) = accepted h @ (if n \<le> length bs then take n bs else [])"
| "accepted (_ # h) = accepted h"

fun received :: "history \<Rightarrow> string" where
  "received [] = []"
| "received (EvDataIn _ bs _ # h) = received h @ bs"
| "received (_ # h) = received h"

lemma accepted_payload: "accepted (payload h) = accepted h"
  by (induction h rule: accepted.induct) auto

lemma received_payload: "received (payload h) = received h"
  by (induction h rule: received.induct) auto

lemma writeResult_take:
  "writeResult buf nw ew = (n, ew') \<Longrightarrow>
     (if nw \<le> length buf then take nw buf else []) = take n buf \<and> n \<le> length buf \<and> (ew' = None \<longrightarrow> n = length buf)"
  by (auto simp: writeResult_def split: if_splits)

text \<open>A writer that takes everything, and one that has room for \<open>M\<close> bytes.\<close>

definition takes_all :: "net \<Rightarrow> bool" where
  "takes_all net \<longleftrightarrow> (\<forall>h bs. dest_write net h bs = (length bs, None))"

definition room :: "nat \<Rightarrow> net \<Rightarrow> bool" where
  "room M net \<longleftrightarrow> (\<forall>h bs. 0 < fst (dest_write net h bs) \<and> fst (dest_write net h bs) \<le> length bs \<longrightarrow>
     length (accepted h) + fst (dest_write net h bs) \<le> M)"

text \<open>
  \<open>downloaded net h (n, err) h'\<close>: between \<open>h\<close> and \<open>h'\<close> the writer took \<open>n\<close> bytes, the first of those the data connections
  delivered, and all of them if there was no error or if the writer is one that takes everything.
\<close>

definition downloaded :: "net \<Rightarrow> event list \<Rightarrow> int \<times> goerror option \<Rightarrow> event list \<Rightarrow> bool" where
  "downloaded net h r h' \<longleftrightarrow> (\<exists>got lost. int (length got) = fst r \<and> accepted h' = accepted h @ got \<and>
     received h' = received h @ got @ lost \<and> (takes_all net \<or> snd r = None \<longrightarrow> lost = []) \<and>
     (\<forall>M. room M net \<longrightarrow> got \<noteq> [] \<longrightarrow> length (accepted h') \<le> M))"

lemma downloadedI:
  "int (length got) = fst r \<Longrightarrow> accepted h' = accepted h @ got \<Longrightarrow> received h' = received h @ got @ lost \<Longrightarrow>
     (takes_all net \<or> snd r = None \<Longrightarrow> lost = []) \<Longrightarrow>
     (\<And>M. room M net \<Longrightarrow> got \<noteq> [] \<Longrightarrow> length (accepted h') \<le> M) \<Longrightarrow> downloaded net h r h'"
  unfolding downloaded_def by (intro exI [of _ got] exI [of _ lost]) simp

lemma copy_downloads:
  "wp (copyLoop (Read net dc) (destWrite net) fuel written)
     (\<lambda>r h'. downloaded net h (fst r - written, snd r) h') (\<lambda>_ _. True) h"
proof (induction fuel arbitrary: written h)
  case (Suc fuel)
  let ?Q = "\<lambda>r h'. downloaded net h (fst r - written, snd r) h'"
  let ?again = "\<lambda>n. wp (copyLoop (Read net dc) (destWrite net) fuel n) ?Q (\<lambda>_ _. True)"
  have next_turn: "?again (written + int (length buf)) h2"
    if h2: "accepted h2 = accepted h @ buf" "received h2 = received h @ buf"
      and rm: "\<And>M. room M net \<Longrightarrow> buf \<noteq> [] \<Longrightarrow> length (accepted h2) \<le> M" for buf h2
  proof (rule wp_mono [OF Suc], goal_cases)
    case (1 r h')
    then obtain got lost where r: "int (length got) = fst r - (written + int (length buf))"
      "accepted h' = accepted h2 @ got" "received h' = received h2 @ got @ lost" "takes_all net \<or> snd r = None \<longrightarrow> lost = []"
      "\<forall>M. room M net \<longrightarrow> got \<noteq> [] \<longrightarrow> length (accepted h') \<le> M"
      unfolding downloaded_def fst_conv snd_conv by (elim exE conjE) (rule that; assumption)
    then have "length (accepted h') \<le> M" if "room M net" "buf @ got \<noteq> []" for M
      using rm [OF that(1)] that by (cases "got = []") auto
    with r show ?case using h2 by (intro downloadedI [where got = "buf @ got" and lost = lost]) auto
  qed simp
  have turn: "copy_turn ?Q ?again written er (n, ew) h2"
    if h2: "accepted h2 = accepted h @ take n buf" "received h2 = received h @ buf" "n \<le> length buf"
      and all: "takes_all net \<or> ew = None \<longrightarrow> n = length buf"
      and rm: "\<And>M. room M net \<Longrightarrow> take n buf \<noteq> [] \<Longrightarrow> length (accepted h2) \<le> M" for n ew er h2 buf
  proof (cases ew)
    case None
    with all h2 rm have eq: "n = length buf" "accepted h2 = accepted h @ buf"
      "\<And>M. room M net \<Longrightarrow> buf \<noteq> [] \<Longrightarrow> length (accepted h2) \<le> M" by auto
    with None next_turn [OF eq(2) h2(2) eq(3)] h2(2) show ?thesis
      by (auto simp: copy_turn_def intro!: downloadedI [where got = buf and lost = "[]"] split: option.split)
  next
    case (Some e)
    with h2 all rm show ?thesis
      by (auto simp: copy_turn_def intro!: downloadedI [where got = "take n buf" and lost = "drop n buf"])
  qed
  show ?case
  proof (rule wp_copyLoop, unfold wp_Read Let_def split_beta, rule wp_copyWrite, goal_cases)
    case 1
    show ?case by (rule turn [where buf = "[]"]) (use 1 in simp_all)
  next
    case 2
    define h0 where "h0 = EvReadDeadline (sock (Conn dc)) (dcTimeout dc) # h"
    obtain buf er where rd: "net_read net h0 (sock (Conn dc)) = (buf, er)" by fastforce
    define h1 where "h1 = EvDataIn (sock (Conn dc)) buf er # h0"
    obtain nw ew where wr: "dest_write net h1 buf = (nw, ew)" by fastforce
    obtain n ew' where res: "writeResult buf nw ew = (n, ew')" by fastforce
    have h1: "accepted h1 = accepted h" "received h1 = received h @ buf" by (simp_all add: h1_def h0_def)
    have rm: "length (accepted h) + nw \<le> M" if "room M net" "0 < nw \<and> nw \<le> length buf" for M
      using that(1) [unfolded room_def, rule_format, of h1 buf] that(2) wr h1(1) by simp
    have "copy_turn ?Q ?again written er (n, ew') (EvDest buf nw ew # h1)"
    proof (rule turn)
      show "takes_all net \<or> ew' = None \<longrightarrow> n = length buf"
        using writeResult_take [OF res] wr res by (auto simp: takes_all_def writeResult_def)
      show "length (accepted (EvDest buf nw ew # h1)) \<le> M" if "room M net" "take n buf \<noteq> []" for M
        using that rm [OF that(1)] res h1 by (auto simp: writeResult_def split: if_splits)
    qed (use writeResult_take [OF res] h1 in auto)
    then show ?case
      unfolding h0_def [symmetric] rd fst_conv snd_conv h1_def [symmetric] wp_destWrite Let_def wr prod.case res .
  qed
qed (simp add: wp_simps)

lemma downloaded_payload: "downloaded net (payload h) r (payload h') = downloaded net h r h'"
  by (simp add: downloaded_def accepted_payload received_payload)

lemma downloaded_none [simp]: "downloaded net X (0, err) X"
  by (rule downloadedI [where got = "[]" and lost = "[]"]) simp_all

text \<open>
  The effect of an attempt on what is seen is the effect of its copy, once the command of the transfer is sent (\<open>copy_effect\<close>); and
  when no command is seen, whatever the commands and replies around it (\<open>transfer_effect\<close>). Both directions of a transfer are
  instances of the second for the payload.
\<close>

locale copy_effect = command_view view quiet for view :: "history \<Rightarrow> 'v" and quiet +
  fixes net :: net and dest :: bool and R :: "'v \<Rightarrow> int \<times> goerror option \<Rightarrow> 'v \<Rightarrow> bool"
  assumes copy_effect: "\<And>fuel dc h. wp (copyData net fuel dest dc) (\<lambda>r h'. R (view h) r (view h')) (\<lambda>_ _. True) h"
    and no_data: "\<And>X e. R X (0, Some e) X"
    and reply_error: "\<And>X n err X'. R X (n, None) X' \<Longrightarrow> R X (n, err) X'"
begin

lemma body_effect: "moves (w_view view) R (transferBody net fuel cmd dest dc)"
  unfolding moves_def
proof
  fix w :: pworld
  let ?v = "w_view view"
  have copy: "wp (io (copyData net fuel dest dc)) (\<lambda>r w'. R (?v w) r (?v w')) (\<lambda>_ _. True) w"
    unfolding wp_io using copy_effect [of fuel dc "hist w"] by simp
  have reply: "wp (transferReply net cmd n) (\<lambda>(m, _) w'. m = n \<and> ?v w' = ?v u) (\<lambda>_ _. True) u" for n and u :: pworld
  proof -
    have "wp (transferReply net cmd n) (\<lambda>(m, _) _. m = n) (\<lambda>_ _. True) u"
      by (auto simp: transferReply_def readResponse_def wp_simps split: option.split prod.split)
    with keeps_unchanged [of ?v "transferReply net cmd n" u, OF kept_transferReply] show ?thesis
      by (auto simp: wp_def split: out.splits)
  qed
  show "wp (transferBody net fuel cmd dest dc) (\<lambda>r w'. R (?v w) r (?v w')) (\<lambda>_ _. True) w"
    unfolding transferBody_def wp_seq [of "io _"]
  proof (rule wp_mono [OF copy], goal_cases)
    case (1 r w1)
    obtain n err where r: "r = (n, err)" by (cases r)
    note got = 1
    show ?case
    proof (cases err)
      case None
      have "wp (seq (logClose net (Conn dc) why) (\<lambda>_. transferReply net cmd n)) (\<lambda>r w'. R (?v w) r (?v w')) (\<lambda>_ _. True) w1" for why
        unfolding wp_seq
      proof (rule wp_mono [OF keeps_unchanged [of ?v, OF kept_logClose]], goal_cases)
        case (1 a w2)
        then show ?case
          by (intro wp_mono [OF reply]) (use got r None in \<open>auto intro: reply_error\<close>)
      qed simp
      then show ?thesis by (simp add: r None)
    qed (use 1 r in \<open>simp add: wp_simps\<close>)
  qed simp
qed

text \<open>From the moment the command of the transfer has been accepted.\<close>

lemma data_effect:
  "moves (s_view view) R (seq (getData net p) (\<lambda>r. case r of
     Inl e \<Rightarrow> inner (seq (debug g [AErr e]) (\<lambda>_. ret (0, Some e)))
   | Inr dc \<Rightarrow> inner (deferred (closeData net dc) (transferBody net fuel cmd dest dc))))"
  by (intro moves_getData body_effect keeps_rules no_data)

end

locale transfer_effect = copy_effect +
  assumes all_quiet: "\<And>bytes. quiet bytes"
begin

lemma attempt_effect: "moves (w_view view) R (transferOn net fuel path dest (\<not> dest) offset)"
proof -
  obtain cmd where cmd: "transferCmd dest (\<not> dest) = Some cmd" by (cases dest) (auto simp: transferCmd_def)
  have rest: "kept_w view X (if offset > 0 then sendCommandExpected net x f as else ret None)" for X x f as
    by (intro keeps_rules all_quiet)
  have data: "moves (w_view view) R (withDataConn net (sendCommandExpected net x f as) (\<lambda>e. (0, Some e))
      (\<lambda>e. debug g [AErr e]) (\<lambda>e. debug g' [AErr e]) (transferBody net fuel cmd dest))" for x f as g g'
    by (intro moves_withDataConn body_effect keeps_rules all_quiet no_data)
  show ?thesis
    unfolding transferOn_def cmd option.case
    by (rule moves_call [OF kept_setType], unfold option.case, rule moves_call [OF rest], unfold option.case)
      (auto intro: data moves_ret no_data)
qed

lemma transfer_effect: "moves (c_view view) R (transferFromOffset net fuel path dest (\<not> dest) offset)"
  unfolding transferFromOffset_def by (rule moves_withIdle [OF _ attempt_effect]) (rule no_data)

end

interpretation download: transfer_effect payload "\<lambda>_. True" net True "downloaded net" for net
proof
  show "wp (copyData net fuel True dc) (\<lambda>r h'. downloaded net (payload h) r (payload h')) (\<lambda>_ _. True) h" for fuel dc h
    unfolding copyData_def downloaded_payload using copy_downloads [of net dc fuel 0 h] by (simp add: split_beta)
  show "downloaded net X (n, err) X'" if "downloaded net X (n, None) X'" for X n err X'
    using that by (auto simp: downloaded_def)
qed simp_all

lemma transfer_downloads: "moves pay_c (downloaded net) (transferFromOffset net fuel path True False offset)"
  using download.transfer_effect [of net fuel path offset] by simp

section \<open>Resuming a download\<close>

definition fetched :: "net \<Rightarrow> int \<Rightarrow> event list \<Rightarrow> event list \<Rightarrow> bool" where
  "fetched net n X X' \<longleftrightarrow> (\<exists>got. int (length got) = n \<and> accepted X' = accepted X @ got \<and>
     (takes_all net \<longrightarrow> received X' = received X @ got))"

lemma downloaded_fetched: "downloaded net X (n, err) X' \<Longrightarrow> fetched net n X X'"
  by (auto simp: downloaded_def fetched_def)

lemma fetched_trans: "fetched net n X Y \<Longrightarrow> fetched net m Y Z \<Longrightarrow> fetched net (n + m) X Z"
  unfolding fetched_def by (elim exE, rule exI [of _ "got @ gota" for got gota]) auto

lemma retrieveLoop_fetches:
  "moves pay_c (\<lambda>X r X'. \<forall>b. r = Inr b \<longrightarrow> fetched net (b - bytesSoFar) X X')
     (retrieveLoop net fuel k path resume bytesSoFar)"
proof (induction k arbitrary: bytesSoFar)
  case (Suc k)
  show ?case
    unfolding moves_def retrieveLoop.simps wp_seq
  proof (intro allI, rule wp_mono [OF movesD [OF transfer_downloads]], goal_cases)
    case (1 c r c1)
    obtain n err where r: "r = (n, err)" by (cases r)
    with 1 have got: "fetched net n (pay_c c) (pay_c c1)" by (auto dest: downloaded_fetched)
    have "wp (retrieveLoop net fuel k path resume (bytesSoFar + n))
        (\<lambda>r c'. \<forall>b. r = Inr b \<longrightarrow> fetched net (b - bytesSoFar) (pay_c c) (pay_c c')) (\<lambda>_ _. True) c1"
      by (rule wp_mono [OF movesD [OF Suc]]) (use fetched_trans [OF got] in \<open>fastforce simp: algebra_simps\<close>)+
    with got show ?case by (cases resume) (simp_all add: r wp_simps split: option.split)
  qed simp
qed (simp add: moves_abort)

text \<open>When the server reports a size, a successful \<open>RetrieveFrom\<close> has handed the caller's writer as many bytes as there are from the offset to
  that size; with a writer that takes everything they are the bytes the data connections delivered, in order.\<close>

lemma RetrieveFrom_counts:
  assumes size: "sizeOf net path c = Ret (n, None) c1" "n \<noteq> - 1"
    and run: "RetrieveFrom net fuel k path offset c = Ret None c'"
  shows "\<exists>got. accepted (chist c') = accepted (chist c) @ got \<and> int (length got) = n - offset \<and>
    (takes_all net \<longrightarrow> received (chist c') = received (chist c) @ got)"
proof -
  have c1: "pay_c c1 = pay_c c" by (rule keeps_Ret [OF pay.kept_sizeOf size(1)])
  let ?Q = "\<lambda>r c'. r = None \<longrightarrow> fetched net (n - offset) (pay_c c) (pay_c c')"
  have zero: "fetched net 0 X X" for X by (simp add: fetched_def)
  have loop: "wp (seq (retrieveLoop net fuel k path resume offset) (\<lambda>r. case r of
        Inl e \<Rightarrow> ret (Some e)
      | Inr b \<Rightarrow> if n \<noteq> - 1 \<and> b \<noteq> n then ret (Some (err b)) else ret None)) ?Q (\<lambda>_ _. True) c2"
    if "pay_c c2 = pay_c c" for resume c2 err
    unfolding wp_seq
    by (rule wp_mono [OF movesD [OF retrieveLoop_fetches]]) (use that size(2) in \<open>auto simp: wp_simps split: sum.splits\<close>)
  have "wp (seq (canResume net) (\<lambda>resume.
        if offset > 0 \<and> \<not> resume then ret (Some e)
        else if offset = n then ret None
        else seq (retrieveLoop net fuel k path resume offset) (\<lambda>r. case r of
          Inl e \<Rightarrow> ret (Some e)
        | Inr b \<Rightarrow> if n \<noteq> - 1 \<and> b \<noteq> n then ret (Some (err b)) else ret None))) ?Q (\<lambda>_ _. True) c1" for e err
    unfolding wp_seq [of "canResume net"]
    by (rule wp_mono [OF keeps_unchanged [of pay_c, OF pay.kept_canResume]]) (use zero c1 loop in \<open>simp_all add: wp_ret\<close>)
  then have "wp (RetrieveFrom net fuel k path offset) ?Q (\<lambda>_ _. True) c"
    unfolding RetrieveFrom_def wp_if wp_seq [of "sizeOf net path"]
    by (simp add: wp_def [of "sizeOf net path"] size wp_ret)
  from wp_RetD [OF this run] have "fetched net (n - offset) (pay_c c) (pay_c c')" by simp
  then show ?thesis by (auto simp: fetched_def accepted_payload received_payload)
qed

section \<open>Ending a download\<close>

text \<open>The contract of an attempt and its effect on the data, for a caller that is alone with the client.\<close>

lemma transfer_alone:
  assumes "pool_ok L [] [] c" "enough net fuel"
  shows "wp (transferFromOffset net fuel path True False offset)
    (\<lambda>r c'. pool_ok L [] [] c' \<and> downloaded net (chist c) r (chist c')) never c"
proof -
  have F: "enoughFor True net fuel" using assms(2) by (simp add: enoughFor_def)
  from cl_okD [OF transferFromOffset_ok assms(1), of True False net fuel path offset] F
  have "wp (transferFromOffset net fuel path True False offset) (\<lambda>_. pool_ok L [] []) never c"
    by (auto simp: not_stuck elim!: wp_mono)
  with movesD [OF transfer_downloads, of net fuel path offset c] show ?thesis
    by (auto simp: wp_def downloaded_payload split: out.splits)
qed

lemma downloaded_progress:
  assumes "downloaded net X (n, err) X'" "room M net" "n \<noteq> 0"
  shows "length (accepted X) < length (accepted X') \<and> length (accepted X') \<le> M"
proof -
  from assms(1) obtain got where got: "int (length got) = n" "accepted X' = accepted X @ got"
    "\<forall>M. room M net \<longrightarrow> got \<noteq> [] \<longrightarrow> length (accepted X') \<le> M"
    unfolding downloaded_def fst_conv by (elim exE conjE) (rule that; assumption)
  with assms(3) have "got \<noteq> []" by auto
  with got assms(2) show ?thesis by (metis length_append length_greater_0_conv less_add_same_cancel1)
qed

lemma retrieveLoop_ends:
  assumes enough: "enough net fuel" and room: "room M net"
    and "pool_ok L [] [] c" "0 < k" "M < k + length (accepted (chist c))"
  shows "wp (retrieveLoop net fuel k path resume bytesSoFar) (\<lambda>_. pool_ok L [] []) never c"
  using assms(3-5)
proof (induction k arbitrary: c bytesSoFar)
  case (Suc k)
  show ?case
    unfolding retrieveLoop.simps wp_seq
  proof (rule wp_mono [OF transfer_alone [OF Suc.prems(1) enough]], goal_cases)
    case (1 r c1)
    obtain n err where r: "r = (n, err)" by (cases r)
    have "wp (retrieveLoop net fuel k path resume (bytesSoFar + n)) (\<lambda>_. pool_ok L [] []) never c1" if "n \<noteq> 0"
    proof (rule Suc.IH)
      have "length (accepted (chist c)) < length (accepted (chist c1))" "length (accepted (chist c1)) \<le> M"
        using downloaded_progress [OF _ room that] 1 r by auto
      with Suc.prems(3) show "0 < k" "M < k + length (accepted (chist c1))" by linarith+
    qed (use 1 in simp)
    with 1 show ?case by (cases resume) (simp_all add: r wp_simps split: option.split)
  qed simp
qed simp

text \<open>C4. A download ends. For a caller that is alone with the client, with a server that ends its data
  connections and a writer that has room for \<open>M\<close> bytes, \<open>RetrieveFrom\<close> returns after at most \<open>M + 1\<close> attempts and leaves the pool in order: every
  attempt after the first follows one that wrote at least one byte.\<close>

theorem RetrieveFrom_ends:
  assumes ok: "pool_ok L [] [] c" and server: "ends_within N net" "N < fuel" and dest: "room M net" "M < k"
  shows "\<exists>r c'. RetrieveFrom net fuel k path offset c = Ret r c' \<and> pool_ok L [] [] c'"
proof -
  have enough: "enough net fuel" using server by (auto simp: enough_def)
  have loop: "wp (seq (retrieveLoop net fuel k path resume offset) (\<lambda>r. case r of
        Inl e \<Rightarrow> ret (Some e)
      | Inr b \<Rightarrow> if n \<noteq> - 1 \<and> b \<noteq> n then ret (Some (err b)) else ret None)) (\<lambda>_. pool_ok L [] []) never c2"
    if "pool_ok L [] [] c2" for resume c2 err n
    unfolding wp_seq
    by (rule wp_mono [OF retrieveLoop_ends [OF enough dest(1) that]]) (use dest(2) in \<open>auto simp: wp_simps split: sum.splits\<close>)
  have rest: "wp (seq (canResume net) (\<lambda>resume.
        if offset > 0 \<and> \<not> resume then ret (Some e)
        else if offset = n then ret None
        else seq (retrieveLoop net fuel k path resume offset) (\<lambda>r. case r of
          Inl e \<Rightarrow> ret (Some e)
        | Inr b \<Rightarrow> if n \<noteq> - 1 \<and> b \<noteq> n then ret (Some (err b)) else ret None))) (\<lambda>_. pool_ok L [] []) never c1"
    if "pool_ok L [] [] c1" for e err n c1
    unfolding wp_seq [of "canResume net"]
    by (rule wp_mono [OF cl_okD [OF canResume_ok [of False] that]]) (auto simp: wp_ret not_stuck intro: loop)
  have "wp (RetrieveFrom net fuel k path offset) (\<lambda>_. pool_ok L [] []) never c"
  proof (cases "offset < 0")
    case False
    then show ?thesis
      unfolding RetrieveFrom_def wp_if wp_seq [of "sizeOf net path"]
      by (simp, intro wp_mono [OF cl_okD [OF sizeOf_ok [of False] ok]])
        (auto simp: wp_ret not_stuck intro: rest split: option.split prod.split)
  qed (simp add: RetrieveFrom_def wp_ret ok)
  from wp_never_returns [OF this] show ?thesis .
qed

text \<open>A server that answers each command with the lines of a script, one reply after the other, and a writer
  with room for \<open>M\<close> bytes.\<close>

fun taken :: "history \<Rightarrow> nat" where
  "taken [] = 0"
| "taken (EvSend _ _ _ # h) = 0"
| "taken (EvRecv _ n # h) = n + taken h"
| "taken (_ # h) = taken h"

definition served :: "(string \<Rightarrow> string list) \<Rightarrow> string \<Rightarrow> nat \<Rightarrow> net" where
  "served script data M = (scripted script data)\<lparr>
     net_lines := (\<lambda>h _. (drop (taken h) (script (lastSent h)), EOF)),
     dest_write := (\<lambda>h bs. let n = min (length bs) (M - length (accepted h))
       in (n, if n = length bs then None else Some (LibError ''full'')))\<rparr>"

definition downloadScript :: "string \<Rightarrow> string list" where
  "downloadScript cmd =
     (if cmd = [] then [''220 ready'']
      else if HasPrefix cmd ''USER'' then [''230 hello'']
      else if HasPrefix cmd ''FEAT'' then [''211-Features'', '' SIZE'', ''211 End'']
      else if HasPrefix cmd ''TYPE'' then [''200 ok'']
      else if HasPrefix cmd ''SIZE'' then [''213 5'']
      else if HasPrefix cmd ''EPSV'' then [''229 ok (|||6446|)'']
      else if HasPrefix cmd ''RETR'' then [''150 coming'', ''226 done'']
      else [''500 what''])"

lemma served_room: "room M (served script data M)"
  by (auto simp: room_def served_def Let_def)

lemma served_ends: "ends_within 0 (served script data M)"
  by (simp add: ends_within_def served_def scripted_def)

theorem RetrieveFrom_ends_witness:
  "\<exists>r c'. RetrieveFrom (served downloadScript ''hello'' 3) 1 4 ''f'' 0 sampleClient = Ret r c' \<and> pool_ok {} [] [] c'"
  by (rule RetrieveFrom_ends [OF _ served_ends _ served_room])
    (simp_all add: sampleClient_def newClient_ok live_def)

end
