(* ===== verification/StoreProps.thy ===== *)
theory StoreProps
  imports TransferProps
begin

text \<open>
  What an upload does. \<open>Store\<close> resumes at the size that the server reports, after seeking its source there, so the last attempt sends the
  rest of the source from exactly that place; it never seeks a source that cannot seek; and its error is
  always the package's own.
\<close>

section \<open>The contract\<close>

lemma cl_ok_onClient_seek: "cl_ok F (onClient (srcSeek net pos)) (\<lambda>_. True)"
  by (simp add: cl_ok_def wp_onClient wp_srcSeek Let_def pool_ok_def no_leak_def)

lemma resumeAt_ok:
  assumes "0 < bytesSoFar \<longrightarrow> seekable"
  shows "cl_ok F (resumeAt net path seekable bytesSoFar err) (\<lambda>r. ftpErr (errOf r))"
proof (cases "0 < bytesSoFar")
  case True
  with assms show ?thesis
    unfolding resumeAt_def
    by (auto intro!: sizeOf_call cl_ok_ret cl_ok_seq [OF cl_ok_onClient_seek] cl_ok_seq [OF cl_ok_debug])
qed (simp add: resumeAt_def cl_ok_ret)

lemma storeLoop_ok:
  assumes "0 < bytesSoFar \<longrightarrow> seekable" "resume \<longrightarrow> seekable"
  shows "cl_ok True (storeLoop net fuel k path seekable resume bytesSoFar err) (\<lambda>r. ftpErr (errOf r))"
  using assms
proof (induction k arbitrary: bytesSoFar err)
  case 0
  show ?case by (simp add: cl_ok_def wp_abort_with)
next
  case (Suc k)
  have attempt: "cl_ok True (transferFromOffset net fuel path False True start) (\<lambda>_. True)" for start
    by (rule cl_ok_fuel [OF transferFromOffset_ok]) simp
  show ?case
    unfolding storeLoop.simps
    by (rule cl_ok_call [OF resumeAt_ok [OF Suc.prems(1)]])
      (use Suc in \<open>auto intro!: cl_ok_ret cl_ok_seq [OF attempt] split: option.split\<close>)
qed

lemma Store_ok: "cl_ok True (Store net fuel k path seekable) ftpErr"
proof -
  have resume: "cl_ok True (if b then canResume net else ret False) (\<lambda>_. True)" for b
    by (auto intro: canResume_ok cl_ok_ret)
  show ?thesis
    unfolding Store_def
    by (rule cl_ok_seq [OF cl_ok_gets], rule cl_ok_seq [OF resume], rule cl_ok_call [OF storeLoop_ok])
      (auto intro!: cl_ok_ret sizeOf_call)
qed

interpretation store: client_method True "Store net fuel k path seekable" ftpErr for net fuel k path seekable
  by unfold_locales (rule Store_ok)

text \<open>C10. \<open>Store\<close> never panics, whoever else uses the client: a source that cannot seek is never asked to. What it returns is
  success or an \<open>ftpError\<close>, the connection goes back to the pool, and it blocks only when every slot is taken and no
  connection is free.\<close>

theorem Store_safe:
  assumes "pool_ok L pend held c"
  shows "case Store net fuel k path seekable c of
      Ret r c' \<Rightarrow> pool_ok L pend held c' \<and> (\<forall>e. r = Some e \<longrightarrow> is_ftpError e)
    | Abn (Panicked _) _ \<Rightarrow> False
    | Abn Blocked c' \<Rightarrow> stuck L pend held c'
    | Abn OutOfFuel _ \<Rightarrow> True"
  using store.keeps_pool [OF assms] store.no_panic [OF assms] store.blocked [OF assms]
  by (auto split: out.split abn.split)

section \<open>The bytes an upload moves\<close>

text \<open>
  Where the source stands, where it was last positioned, and what went out on the data connections since then.
\<close>

fun srcPos :: "history \<Rightarrow> nat" where
  "srcPos [] = 0"
| "srcPos (EvSrc bs _ # h) = srcPos h + length bs"
| "srcPos (EvSeek p err # h) = (if err = None then nat p else srcPos h)"
| "srcPos (_ # h) = srcPos h"

fun lastSeek :: "history \<Rightarrow> int" where
  "lastSeek [] = 0"
| "lastSeek (EvSeek p err # h) = (if err = None then p else lastSeek h)"
| "lastSeek (_ # h) = lastSeek h"

fun sentSince :: "history \<Rightarrow> string" where
  "sentSince [] = []"
| "sentSince (EvDataOut _ bs n _ # h) = sentSince h @ (if n \<le> length bs then take n bs else [])"
| "sentSince (EvSeek _ err # h) = (if err = None then [] else sentSince h)"
| "sentSince (_ # h) = sentSince h"

text \<open>A source with the content \<open>S\<close>: a read gives what comes next, and the end of the file is reported at the end. Seeking before
  the start is an error, as \<^verbatim>\<open>io.Seeker\<close> says.\<close>

definition reads_file :: "string \<Rightarrow> net \<Rightarrow> bool" where
  "reads_file S net \<longleftrightarrow> (\<forall>h bs err. src_read net h = (bs, err) \<longrightarrow>
     (\<exists>rest. drop (srcPos h) S = bs @ rest \<and> (err = Some EOF \<longrightarrow> rest = [])))"

definition seeks_from_start :: "net \<Rightarrow> bool" where
  "seeks_from_start net \<longleftrightarrow> (\<forall>h p. p < 0 \<longrightarrow> src_seek net h p \<noteq> None)"

lemma srcPos_payload: "srcPos (payload h) = srcPos h"
  by (induction h rule: srcPos.induct) auto

fun is_seek :: "event \<Rightarrow> bool" where
  "is_seek (EvSeek _ _) = True"
| "is_seek _ = False"

definition no_seek :: "event list \<Rightarrow> bool" where
  "no_seek Y = list_all (\<lambda>e. \<not> is_seek e) Y"

lemma no_seek_simps [simp]: "no_seek []" "no_seek (e # Y) = (\<not> is_seek e \<and> no_seek Y)" "no_seek (Y @ Z) = (no_seek Y \<and> no_seek Z)"
  by (simp_all add: no_seek_def)

text \<open>
  \<open>uploaded S X (n, err) X'\<close>: without positioning the source, \<open>n\<close> bytes of \<open>S\<close> went out from where the source stood, and all of them
  if there was no error.
\<close>

definition uploaded :: "string \<Rightarrow> event list \<Rightarrow> int \<times> goerror option \<Rightarrow> event list \<Rightarrow> bool" where
  "uploaded S X r X' \<longleftrightarrow> (\<exists>Y put rest. X' = Y @ X \<and> no_seek Y \<and>
     sentSince Y = put \<and> int (length put) = fst r \<and> drop (srcPos X) S = put @ rest \<and> (snd r = None \<longrightarrow> rest = []))"

lemma uploadedI:
  "X' = Y @ X \<Longrightarrow> no_seek Y \<Longrightarrow> int (length (sentSince Y)) = fst r \<Longrightarrow>
     drop (srcPos X) S = sentSince Y @ rest \<Longrightarrow> (snd r = None \<Longrightarrow> rest = []) \<Longrightarrow> uploaded S X r X'"
  unfolding uploaded_def by (intro exI [of _ Y] exI [of _ "sentSince Y"] exI [of _ rest]) simp

lemma uploadedE:
  assumes "uploaded S X (n, err) X'"
  obtains Y rest where "X' = Y @ X" "no_seek Y" "int (length (sentSince Y)) = n"
    "drop (srcPos X) S = sentSince Y @ rest" "err = None \<longrightarrow> rest = []"
  using assms unfolding uploaded_def by auto

lemma no_seek_append:
  assumes "no_seek Y"
  shows "sentSince (Y @ X) = sentSince X @ sentSince Y" "lastSeek (Y @ X) = lastSeek X"
  using assms
proof (induction Y)
  case (Cons e Y)
  case 1
  with Cons show ?case by (cases e) auto
  case 2
  with Cons show ?case by (cases e) auto
qed simp_all

lemma uploaded_trans:
  assumes Y: "no_seek Y" and buf: "drop (srcPos X) S = sentSince Y @ rest" "srcPos (Y @ X) = srcPos X + length (sentSince Y)"
    and more: "uploaded S (Y @ X) (n - int (length (sentSince Y)), err) X'"
  shows "uploaded S X (n, err) X'"
proof -
  from more obtain Z rest' where Z: "X' = Z @ Y @ X" "no_seek Z"
    "int (length (sentSince Z)) = n - int (length (sentSince Y))"
    "drop (srcPos (Y @ X)) S = sentSince Z @ rest'" "err = None \<longrightarrow> rest' = []" by (rule uploadedE)
  have "drop (length (sentSince Y)) (drop (srcPos X) S) = rest" by (simp add: buf(1))
  with Z(4) have "rest = sentSince Z @ rest'" by (simp add: buf(2) add.commute)
  with Z Y buf(1) show ?thesis
    by (intro uploadedI [where Y = "Z @ Y" and rest = rest']) (auto simp: no_seek_append(1))
qed

text \<open>One turn of a copy puts what was read on the wire, and the rest of the copy goes on from there.\<close>

lemma copy_uploads:
  assumes src: "reads_file S net"
  shows "wp (copyLoop (srcRead net) (Write net dc) fuel written)
     (\<lambda>r h'. uploaded S (payload h) (fst r - written, snd r) (payload h')) (\<lambda>_ _. True) h"
proof (induction fuel arbitrary: written h)
  case (Suc fuel)
  let ?Q = "\<lambda>r h'. uploaded S (payload h) (fst r - written, snd r) (payload h')"
  let ?again = "\<lambda>n. wp (copyLoop (srcRead net) (Write net dc) fuel n) ?Q (\<lambda>_ _. True)"
  obtain buf er where rd: "src_read net h = (buf, er)" by fastforce
  from src rd obtain rest where rest: "drop (srcPos h) S = buf @ rest" "er = Some EOF \<longrightarrow> rest = []"
    unfolding reads_file_def by blast
  have turn: "copy_turn ?Q ?again written er (n, ew) h2"
    if h2: "payload h2 = Y @ payload h" "no_seek Y" "sentSince Y = take n buf" "n \<le> length buf"
      "ew = None \<Longrightarrow> n = length buf" "srcPos h2 = srcPos h + length buf" for n ew h2 Y
  proof (cases ew)
    case (Some e)
    with h2 rest show ?thesis
      by (auto simp: copy_turn_def srcPos_payload intro!: uploadedI [where Y = Y and rest = "drop n buf @ rest"])
  next
    case None
    with h2(5) have n: "n = length buf" by simp
    show ?thesis
    proof (cases er)
      case None
      have "?again (written + int n) h2"
      proof (rule wp_mono [OF Suc], goal_cases)
        case (1 r h')
        show ?case
          by (rule uploaded_trans [where Y = Y and rest = rest])
            (use 1 h2 rest n srcPos_payload [of h2] in \<open>auto simp: srcPos_payload algebra_simps\<close>)
      qed simp
      with None \<open>ew = None\<close> show ?thesis by (simp add: copy_turn_def)
    next
      case (Some e)
      with \<open>ew = None\<close> h2 rest n show ?thesis
        by (auto simp: copy_turn_def srcPos_payload intro!: uploadedI [where Y = Y and rest = rest])
    qed
  qed
  show ?case
  proof (rule wp_copyLoop, unfold wp_srcRead Let_def rd fst_conv snd_conv prod.case, rule wp_copyWrite, goal_cases)
    case 1
    show ?case by (rule turn [where Y = "[EvSrc buf er]"]) (use 1 in simp_all)
  next
    case 2
    define h1 where "h1 = EvWriteDeadline (sock (Conn dc)) (dcTimeout dc) # EvSrc buf er # h"
    obtain nw ew where wr: "net_put net h1 (sock (Conn dc)) buf = (nw, ew)" by fastforce
    obtain n ew' where res: "writeResult buf nw ew = (n, ew')" by fastforce
    have "copy_turn ?Q ?again written er (n, ew') (EvDataOut (sock (Conn dc)) buf nw ew # h1)"
      by (rule turn [where Y = "[EvDataOut (sock (Conn dc)) buf nw ew, EvSrc buf er]"])
        (use writeResult_take [OF res] in \<open>auto simp: h1_def\<close>)
    then show ?case
      unfolding wp_Write Let_def h1_def [symmetric] wr fst_conv snd_conv prod.case res .
  qed
qed (simp add: wp_simps)

interpretation upload: transfer_effect payload "\<lambda>_. True" net False "\<lambda>X r X'. reads_file S net \<longrightarrow> uploaded S X r X'" for net S
proof
  show "wp (copyData net fuel False dc) (\<lambda>r h'. reads_file S net \<longrightarrow> uploaded S (payload h) r (payload h')) (\<lambda>_ _. True) h"
    for fuel dc h
    using copy_uploads [of S net dc fuel 0 h] by (auto simp: copyData_def wp_def split_beta split: out.splits)
  show "reads_file S net \<longrightarrow> uploaded S X (0, Some e) X" for X e
    by (auto intro!: uploadedI [where Y = "[]" and rest = "drop (srcPos X) S"])
  show "reads_file S net \<longrightarrow> uploaded S X (n, err) X'" if "reads_file S net \<longrightarrow> uploaded S X (n, None) X'" for X n err X'
    using that by (auto simp: uploaded_def)
qed simp

section \<open>Resuming an upload\<close>

fun has_seek :: "event list \<Rightarrow> bool" where
  "has_seek [] = False"
| "has_seek (EvSeek _ None # X) = True"
| "has_seek (_ # X) = has_seek X"

lemma has_seek_append:
  assumes "has_seek Y"
  shows "sentSince (Y @ X) = sentSince Y" "lastSeek (Y @ X) = lastSeek Y" "has_seek (Y @ X)"
  using assms by (induction Y rule: has_seek.induct) auto

text \<open>
  \<open>stored S net path Y sz\<close>, for the data events \<open>Y\<close> of an upload: since the source was last positioned, at the start or at a size that the server reported, exactly the rest of
  the source was sent, and \<open>sz\<close> is where that ends.
\<close>

definition stored :: "string \<Rightarrow> net \<Rightarrow> string \<Rightarrow> event list \<Rightarrow> int \<Rightarrow> bool" where
  "stored S net path Y sz \<longleftrightarrow> 0 \<le> lastSeek Y \<and>
     (lastSeek Y = 0 \<or> (\<exists>c3 c4. sizeOf net path c3 = Ret (lastSeek Y, None) c4)) \<and>
     sentSince Y = drop (nat (lastSeek Y)) S \<and> sz = lastSeek Y + int (length (sentSince Y))"

lemma resumeAt_seeks:
  assumes "seeks_from_start net"
  shows "wp (resumeAt net path seekable b err) (\<lambda>r c'. \<forall>start. r = Inr start \<longrightarrow>
    (if 0 < b then pay_c c' = EvSeek start None # pay_c c \<and> 0 \<le> start \<and> (\<exists>c3 c4. sizeOf net path c3 = Ret (start, None) c4)
     else pay_c c' = pay_c c \<and> start = b)) (\<lambda>_ _. True) c"
proof (cases "0 < b")
  case True
  have size: "wp (sizeOf net path) (\<lambda>r c1. sizeOf net path c = Ret r c1 \<and> pay_c c1 = pay_c c) (\<lambda>_ _. True) c"
    using keeps_unchanged [of pay_c "sizeOf net path" c, OF pay.kept_sizeOf] by (auto simp: wp_def split: out.splits)
  have "0 \<le> start" if "src_seek net h start = None" for h start
    using assms that by (metis seeks_from_start_def not_le)
  with True show ?thesis
    unfolding resumeAt_def wp_if wp_seq [of "sizeOf net path"]
    by (simp, intro wp_mono [OF size])
      (auto simp: wp_simps Let_def split: option.split prod.split)
qed (simp add: resumeAt_def wp_ret)

lemma storeLoop_stores:
  assumes src: "reads_file S net" and seek: "seeks_from_start net"
    and "0 \<le> b" "b = 0 \<longrightarrow> srcPos (chist c) = 0"
  shows "wp (storeLoop net fuel k path seekable resume b err) (\<lambda>r c'. \<forall>sz. r = Inr sz \<longrightarrow>
    (\<exists>Y. pay_c c' = Y @ pay_c c \<and> stored S net path Y sz \<and> (0 < b \<longrightarrow> has_seek Y))) (\<lambda>_ _. True) c"
  using assms(3,4)
proof (induction k arbitrary: b err c)
  case (Suc k)
  let ?Q = "\<lambda>r c'. \<forall>sz. r = Inr sz \<longrightarrow>
    (\<exists>Y. pay_c c' = Y @ pay_c c \<and> stored S net path Y sz \<and> (0 < b \<longrightarrow> has_seek Y))"
  have attempt: "wp (transferFromOffset net fuel path False True start) (\<lambda>r c2. uploaded S (pay_c c1) r (pay_c c2)) (\<lambda>_ _. True) c1"
    for start c1 using movesD [OF upload.transfer_effect [of S net fuel path start], of c1] src by simp
  have go_on: "wp (seq (transferFromOffset net fuel path False True start) (\<lambda>(n, err). case err of
        None \<Rightarrow> ret (Inr (start + n))
      | Some e \<Rightarrow> if n = 0 then ret (Inl (tempErr e)) else if \<not> resume then ret (Inl (f e))
          else storeLoop net fuel k path seekable resume (start + n) (Some e))) ?Q (\<lambda>_ _. True) c1"
    if Z: "pay_c c1 = Z @ pay_c c" "srcPos (chist c1) = nat start" "0 \<le> start" "lastSeek Z = start" "sentSince Z = []"
      "0 < b \<longrightarrow> has_seek Z" "start = 0 \<or> (\<exists>c3 c4. sizeOf net path c3 = Ret (start, None) c4)" for start c1 Z f
    unfolding wp_seq
  proof (rule wp_mono [OF attempt], goal_cases)
    case (1 r c2)
    obtain n err' where r: "r = (n, err')" by (cases r)
    with 1 have up: "uploaded S (pay_c c1) (n, err') (pay_c c2)" by simp
    then obtain Y rest where Y: "pay_c c2 = Y @ pay_c c1" "no_seek Y" "int (length (sentSince Y)) = n"
      "drop (nat start) S = sentSince Y @ rest" "err' = None \<longrightarrow> rest = []"
      unfolding Z(2) [symmetric] by (elim uploadedE) (simp add: srcPos_payload)
    show ?case
    proof (cases err')
      case None
      with Y Z no_seek_append [OF Y(2), of Z] have "stored S net path (Y @ Z) (start + n)"
        by (simp add: stored_def)
      moreover have "has_seek (Y @ Z)" if "has_seek Z"
        using Y(2) that by (induction Y) (auto elim: is_seek.elims)
      ultimately show ?thesis using Y(1) Z(1,6) by (auto simp: r None wp_ret intro!: exI [of _ "Y @ Z"])
    next
      case (Some e)
      have "wp (storeLoop net fuel k path seekable resume (start + n) (Some e)) ?Q (\<lambda>_ _. True) c2" if "n \<noteq> 0"
      proof -
        have pos: "0 < start + n" using that Y(3) Z(3) by linarith
        show ?thesis
        proof (rule wp_mono [OF Suc.IH], goal_cases)
          case (3 r' c')
          show ?case
          proof (intro allI impI)
            fix sz assume "r' = Inr sz"
            with 3 pos obtain W where W: "pay_c c' = W @ pay_c c2" "stored S net path W sz" "has_seek W" by blast
            then show "\<exists>Y. pay_c c' = Y @ pay_c c \<and> stored S net path Y sz \<and> (0 < b \<longrightarrow> has_seek Y)"
              using Y(1) Z(1) has_seek_append [OF W(3), of "Y @ Z"]
              by (intro exI [of _ "W @ Y @ Z"]) (simp add: stored_def)
          qed
        qed (use pos in auto)
      qed
      then show ?thesis by (cases resume) (simp_all add: r Some wp_ret wp_if)
    qed
  qed simp
  show ?case
    unfolding storeLoop.simps wp_seq [of "resumeAt _ _ _ _ _"]
  proof (rule wp_mono [OF resumeAt_seeks [OF seek]], goal_cases)
    case (1 r c1)
    show ?case
    proof (cases r)
      case (Inr start)
      show ?thesis
      proof (cases "0 < b")
        case True
        with 1 Inr have seek: "pay_c c1 = [EvSeek start None] @ pay_c c" by simp
        then have pos: "srcPos (chist c1) = nat start"
          by (metis append_Cons append_Nil srcPos.simps(3) srcPos_payload)
        show ?thesis unfolding Inr sum.case by (rule go_on [OF seek pos]) (use 1 Inr True in auto)
      next
        case False
        with 1 Inr Suc.prems have same: "pay_c c1 = [] @ pay_c c" and start: "start = 0" and "srcPos (chist c) = 0" by auto
        then have pos: "srcPos (chist c1) = nat start" by (metis append_Nil nat_0 srcPos_payload)
        show ?thesis unfolding Inr sum.case by (rule go_on [OF same pos]) (use False start in auto)
      qed
    qed (simp add: wp_ret)
  qed simp
qed (simp add: wp_simps)

text \<open>C5. An upload that succeeds is complete. For a source with the content \<open>S\<close> that stands at its start: the last attempt began at the start or at
  a size that the server reported, and from there exactly the rest of \<open>S\<close> went out on the data connection; and the size
  that the server reported at the end, if it reports sizes, is where that ends. So when the server never reports more than it was
  given, the whole source is there.\<close>

theorem Store_complete:
  assumes src: "reads_file S net" and seek: "seeks_from_start net" and start: "srcPos (chist c) = 0"
    and run: "Store net fuel k path seekable c = Ret None c'"
  shows "\<exists>Y size c2. payload (chist c') = Y @ payload (chist c) \<and> 0 \<le> lastSeek Y \<and>
    (lastSeek Y = 0 \<or> (\<exists>c3 c4. sizeOf net path c3 = Ret (lastSeek Y, None) c4)) \<and>
    sentSince Y = drop (nat (lastSeek Y)) S \<and>
    sizeOf net path c2 = Ret (size, None) c' \<and> (size = - 1 \<or> size = lastSeek Y + int (length (sentSince Y)))"
proof -
  let ?Q = "\<lambda>r c'. r = None \<longrightarrow> (\<exists>Y sz size c2. pay_c c' = Y @ pay_c c \<and> stored S net path Y sz \<and>
    sizeOf net path c2 = Ret (size, None) c' \<and> (size = - 1 \<or> size = sz))"
  have check: "wp (seq (sizeOf net path) (\<lambda>(n, err). case err of
        Some e \<Rightarrow> ret (Some e)
      | None \<Rightarrow> if n \<noteq> - 1 \<and> n \<noteq> sz then ret (Some (f n)) else ret None)) ?Q (\<lambda>_ _. True) c2"
    if "pay_c c2 = Y @ pay_c c" "stored S net path Y sz" for c2 Y sz f
  proof -
    have "wp (sizeOf net path) (\<lambda>r c1. sizeOf net path c2 = Ret r c1 \<and> pay_c c1 = pay_c c2) (\<lambda>_ _. True) c2"
      using keeps_unchanged [of pay_c "sizeOf net path" c2, OF pay.kept_sizeOf] by (auto simp: wp_def split: out.splits)
    then show ?thesis
      unfolding wp_seq by (rule wp_mono) (use that in \<open>auto simp: wp_simps split: option.split\<close>, blast+)
  qed
  have resume: "wp (if b then canResume net else ret False) (\<lambda>_ c1. pay_c c1 = pay_c c) (\<lambda>_ _. True) c" for b
    using keeps_unchanged [of pay_c "canResume net" c, OF pay.kept_canResume] by (auto simp: wp_ret elim: wp_mono)
  have "wp (Store net fuel k path seekable) ?Q (\<lambda>_ _. True) c"
    unfolding Store_def wp_seq [of "gets _"] wp_gets wp_seq [of "if _ then _ else _"]
  proof (rule wp_mono [OF resume], goal_cases)
    case (1 r c1)
    then have "srcPos (chist c1) = 0" using start by (metis srcPos_payload)
    then show ?case
      unfolding wp_seq [of "storeLoop _ _ _ _ _ _ _ _"]
      by (intro wp_mono [OF storeLoop_stores [OF src seek]])
        (use 1 check in \<open>auto simp: wp_ret split: sum.split\<close>)
  qed simp
  from wp_RetD [OF this run] show ?thesis unfolding stored_def by blast
qed

text \<open>A source of five bytes that is read at once.\<close>

definition uploadScript :: "string \<Rightarrow> string list" where
  "uploadScript cmd = (if HasPrefix cmd ''STOR'' then [''150 go'', ''226 done''] else downloadScript cmd)"

definition uploading :: "string \<Rightarrow> net" where
  "uploading S = (served uploadScript [] 0)\<lparr>
     src_read := (\<lambda>h. (drop (srcPos h) S, Some EOF)), src_seek := (\<lambda>_ p. if p < 0 then Some (LibError ''negative'') else None)\<rparr>"

lemma uploading_source: "reads_file S (uploading S)" "seeks_from_start (uploading S)"
  by (simp_all add: reads_file_def seeks_from_start_def uploading_def)

theorem Store_complete_witness:
  "\<exists>c' Y size c2. Store (uploading ''hello'') 1 1 ''f'' True sampleClient = Ret None c' \<and>
    payload (chist c') = Y @ payload (chist sampleClient) \<and> 0 \<le> lastSeek Y \<and>
    sentSince Y = drop (nat (lastSeek Y)) ''hello'' \<and>
    sizeOf (uploading ''hello'') ''f'' c2 = Ret (size, None) c' \<and> (size = - 1 \<or> size = lastSeek Y + int (length (sentSince Y)))"
proof -
  have "case Store (uploading ''hello'') 1 1 ''f'' True sampleClient of Ret None _ \<Rightarrow> True | _ \<Rightarrow> False" by code_simp
  then obtain c' where run: "Store (uploading ''hello'') 1 1 ''f'' True sampleClient = Ret None c'"
    by (auto split: out.splits option.splits)
  have "srcPos (chist sampleClient) = 0" by (simp add: sampleClient_def newClient_def)
  from Store_complete [OF uploading_source this run] run show ?thesis by blast
qed

theorem Store_safe_witness:
  "case Store (uploading ''hello'') 1 1 ''f'' False sampleClient of
      Ret r c' \<Rightarrow> pool_ok {} [] [] c' \<and> (\<forall>e. r = Some e \<longrightarrow> is_ftpError e)
    | Abn (Panicked _) _ \<Rightarrow> False
    | Abn Blocked c' \<Rightarrow> stuck {} [] [] c'
    | Abn OutOfFuel _ \<Rightarrow> True"
  by (rule Store_safe) (simp add: sampleClient_def newClient_ok live_def)

end
