(* ===== verification/Resume.thy ===== *)
theory Resume
  imports TransferProps
begin

text \<open>
  Where the bytes of a download belong in the file. A server keeps, for every control connection, the restart marker that \<^verbatim>\<open>REST\<close> sets and
  that the next \<^verbatim>\<open>RETR\<close> uses up, as RFC 3659 says; from it follows the place in the file of every byte that a data connection
  delivers. Against any server that sends the bytes of a file from that place, a download that succeeds has written exactly the
  part of the file that was asked for, however often it was resumed and over whichever connections.
\<close>

section \<open>The restart marker of the server\<close>

definition restArg :: "string \<Rightarrow> nat" where
  "restArg bytes = foldl (\<lambda>n c. 10 * n + digit c) 0 (takeWhile is_digit (drop 5 bytes))"

text \<open>The marker of every control socket, and the place of the next byte of the transfer that was started last.\<close>

fun servMark :: "history \<Rightarrow> handle \<Rightarrow> nat" where
  "servMark [] = (\<lambda>_. 0)"
| "servMark (EvSend c bytes _ # h) =
     (if HasPrefix bytes ''REST '' then (servMark h)(sock c := restArg bytes)
      else if HasPrefix bytes ''RETR '' \<or> HasPrefix bytes ''STOR '' then (servMark h)(sock c := 0)
      else servMark h)"
| "servMark (_ # h) = servMark h"

fun servPos :: "history \<Rightarrow> nat" where
  "servPos [] = 0"
| "servPos (EvSend c bytes _ # h) = (if HasPrefix bytes ''RETR '' then servMark h (sock c) else servPos h)"
| "servPos (EvDataIn _ bs _ # h) = servPos h + length bs"
| "servPos (_ # h) = servPos h"

text \<open>A server that sends the file \<open>S\<close>: a read delivers what comes next in it, as much as the server likes.\<close>

definition serves_file :: "string \<Rightarrow> net \<Rightarrow> bool" where
  "serves_file S net \<longleftrightarrow> (\<forall>h s. \<exists>rest. drop (servPos h) S = fst (net_read net h s) @ rest)"

lemma foldl_digits: "foldl (\<lambda>n c. 10 * n + digit c) 0 (nat_digits n) = n"
proof (induction n rule: nat_digits.induct)
  case (1 n)
  then show ?case by (subst nat_digits.simps) simp
qed

lemma restArg_printed:
  assumes "0 \<le> offset"
  shows "restArg (''REST '' @ Itoa offset @ crlf) = nat offset"
proof -
  have "takeWhile is_digit (nat_digits n @ crlf) = nat_digits n" for n
    using nat_digits_digits by (subst takeWhile_append2) (auto simp: is_digit_def)
  with assms show ?thesis by (simp add: restArg_def Itoa_def foldl_digits)
qed

section \<open>The place as a view of the history\<close>

type_synonym place = "(handle \<Rightarrow> nat) \<times> nat \<times> string"

definition place :: "history \<Rightarrow> place" where
  "place h = (servMark h, servPos h, accepted h)"

definition hears :: "handle \<Rightarrow> string \<Rightarrow> place \<Rightarrow> place" where
  "hears s bytes X = (case X of (m, p, a) \<Rightarrow>
     (if HasPrefix bytes ''REST '' then (m(s := restArg bytes), p, a)
      else if HasPrefix bytes ''RETR '' then (m(s := 0), m s, a)
      else if HasPrefix bytes ''STOR '' then (m(s := 0), p, a)
      else X))"

lemma place_send: "place (EvSend c bytes r # h) = hears (sock c) bytes (place h)"
  by (auto simp: place_def hears_def HasPrefix_iff)

lemma place_other [simp]:
  "place (EvRecv s n # h) = place h" "place (EvLog i f as # h) = place h"
  "place (EvReadDeadline s t # h) = place h" "place (EvWriteDeadline s t # h) = place h"
  by (simp_all add: place_def)

interpretation place: command_view place "\<lambda>bytes. \<not> about_files bytes"
proof
  show "place (ev # h) = place h" if "is_setup ev" for ev h
    using that by (cases ev) (simp_all add: place_def)
qed (auto simp: place_send hears_def about_files_def)

section \<open>A copy from its place\<close>

text \<open>
  \<open>placed S (m, p, a) (n, err) X'\<close>: the writer took \<open>n\<close> bytes more than \<open>a\<close>, those of the file \<open>S\<close> from \<open>p\<close> on, and the markers are as before.
\<close>

definition written :: "string \<Rightarrow> nat \<Rightarrow> string \<Rightarrow> int \<Rightarrow> string \<Rightarrow> bool" where
  "written S p a n a' \<longleftrightarrow> (\<exists>got rest. int (length got) = n \<and> a' = a @ got \<and> drop p S = got @ rest)"

definition placed :: "string \<Rightarrow> place \<Rightarrow> int \<times> goerror option \<Rightarrow> place \<Rightarrow> bool" where
  "placed S X r X' \<longleftrightarrow> fst X' = fst X \<and> written S (fst (snd X)) (snd (snd X)) (fst r) (snd (snd X'))"

lemma written_none [simp]: "written S p a 0 a"
  by (auto simp: written_def intro: exI [of _ "drop p S"])

lemma written_trans:
  assumes "written S p a n a1" "written S (p + nat n) a1 m a2"
  shows "written S p a (n + m) a2"
proof -
  from assms(1) obtain got rest where got: "int (length got) = n" "a1 = a @ got" "drop p S = got @ rest"
    unfolding written_def by blast
  from assms(2) obtain got' rest' where got': "int (length got') = m" "a2 = a1 @ got'" "drop (p + nat n) S = got' @ rest'"
    unfolding written_def by blast
  have "drop (length got) (drop p S) = rest" by (simp add: got(3))
  moreover have "nat n = length got" using got(1) by simp
  ultimately have "rest = got' @ rest'" using got'(3) by (simp add: add.commute)
  with got got' show ?thesis
    unfolding written_def by (intro exI [of _ "got @ got'"] exI [of _ rest']) simp
qed

lemma copy_places:
  assumes serves: "serves_file S net"
  shows "wp (copyLoop (Read net dc) (destWrite net) fuel sofar)
    (\<lambda>r h'. placed S (place h) (fst r - sofar, snd r) (place h')) (\<lambda>_ _. True) h"
proof (induction fuel arbitrary: sofar h)
  case (Suc fuel)
  let ?Q = "\<lambda>r h'. placed S (place h) (fst r - sofar, snd r) (place h')"
  let ?again = "\<lambda>n. wp (copyLoop (Read net dc) (destWrite net) fuel n) ?Q (\<lambda>_ _. True)"
  have turn: "copy_turn ?Q ?again sofar er (n, ew) h2"
    if m: "servMark h2 = servMark h" and w: "written S (servPos h) (accepted h) (int n) (accepted h2)"
      and all: "ew = None \<Longrightarrow> servPos h2 = servPos h + n" for n ew er h2
  proof -
    have "?again (sofar + int n) h2" if "ew = None"
    proof (rule wp_mono [OF Suc], goal_cases)
      case (1 r h')
      then show ?case
        using m w all [OF that] written_trans [OF w, of "fst r - (sofar + int n)" "accepted h'"]
        by (auto simp: placed_def place_def algebra_simps)
    qed simp
    with m w show ?thesis by (auto simp: copy_turn_def placed_def place_def split: option.split)
  qed
  define h0 where "h0 = EvReadDeadline (sock (Conn dc)) (dcTimeout dc) # h"
  obtain buf er where rd: "net_read net h0 (sock (Conn dc)) = (buf, er)" by fastforce
  define h1 where "h1 = EvDataIn (sock (Conn dc)) buf er # h0"
  have h1: "servMark h1 = servMark h" "servPos h1 = servPos h + length buf" "accepted h1 = accepted h"
    by (simp_all add: h1_def h0_def)
  obtain rest where rest: "drop (servPos h) S = buf @ rest"
    using serves [unfolded serves_file_def, rule_format, of h0 "sock (Conn dc)"] rd by (auto simp: h0_def)
  show ?case
  proof (rule wp_copyLoop, unfold wp_Read Let_def split_beta h0_def [symmetric] rd fst_conv snd_conv h1_def [symmetric],
      rule wp_copyWrite, goal_cases)
    case 1
    then show ?case by (intro turn) (simp_all add: h1)
  next
    case 2
    obtain nw ew where wr: "dest_write net h1 buf = (nw, ew)" by fastforce
    obtain n ew' where res: "writeResult buf nw ew = (n, ew')" by fastforce
    note took = writeResult_take [OF res]
    have "copy_turn ?Q ?again sofar er (n, ew') (EvDest buf nw ew # h1)"
    proof (rule turn)
      have "drop (servPos h) S = take n buf @ drop n buf @ rest" using rest by simp
      then show "written S (servPos h) (accepted h) (int n) (accepted (EvDest buf nw ew # h1))"
        unfolding written_def using took h1 by (intro exI [of _ "take n buf"] exI [of _ "drop n buf @ rest"]) simp
    qed (use took h1 in simp_all)
    then show ?case
      unfolding wp_destWrite Let_def wr prod.case res fst_conv snd_conv .
  qed
qed (simp add: wp_simps)

interpretation fetch: copy_effect place "\<lambda>bytes. \<not> about_files bytes" net True "\<lambda>X r X'. serves_file S net \<longrightarrow> placed S X r X'"
  for net S
proof
  show "wp (copyData net fuel True dc) (\<lambda>r h'. serves_file S net \<longrightarrow> placed S (place h) r (place h')) (\<lambda>_ _. True) h"
    for fuel dc h
    using copy_places [of S net dc fuel 0 h] by (auto simp: copyData_def wp_def split_beta split: out.splits)
qed (simp_all add: placed_def)

section \<open>One attempt\<close>

text \<open>A command about files moves the place as the server hears it.\<close>

lemma sendCommandExpected_heard:
  assumes w: "talking cfg s w" and stubs: "stubResponses cfg = Map.empty"
  shows "wp (sendCommandExpected net x f as) (\<lambda>r w'. talking cfg s w' \<and>
    place (hist w') = hears s (Sprintf f as @ crlf) (place (hist w))) never w"
proof -
  from w obtain c where c: "controlConn (pconn w) = Some c" "sock c = s" "config (pconn w) = cfg" by (rule talkingE)
  let ?P = "\<lambda>_ w'. place (hist w') = hears s (Sprintf f as @ crlf) (place (hist w))"
  have "wp (sendCommand net f as) ?P never w"
    using c stubs by (simp add: sendCommand_def readResponse_def wp_simps Let_def place_send split_beta split: option.split)
  then have "wp (sendCommandExpected net x f as) ?P never w"
    unfolding sendCommandExpected_def wp_seq by (rule wp_mono) (simp_all add: wp_simps split: prod.split option.split)
  moreover have "wp (sendCommandExpected net x f as) (\<lambda>_. talking cfg s) never w"
    by (rule wp_mono [OF sendCommandExpected_contract [OF c(1)]]) (use w exchange_talking in blast)+
  ultimately show ?thesis by (auto simp: wp_def split: out.splits)
qed

lemma conn_step_talking: "conn_step w w' \<Longrightarrow> talking cfg s w \<Longrightarrow> talking cfg s w'"
  by (simp add: conn_step_def talking_def del: map_option_eq_Some)

lemma ctl_step_conn: "ctl_step w w' \<Longrightarrow> conn_step w w'"
  by (auto simp: ctl_step_def conn_step_def)

definition noMarks :: "handle \<Rightarrow> nat" where
  "noMarks = (\<lambda>_. 0)"

lemma noMarks_used [simp]: "noMarks(s := 0) = noMarks"
  by (simp add: noMarks_def fun_eq_iff)

text \<open>
  What an attempt from \<open>offset\<close> does to the place, when no marker is set before it: the bytes it wrote are those of the file from \<open>offset\<close> on, and if it wrote
  any, the marker it set has been used up.
\<close>

definition attempted :: "string \<Rightarrow> int \<Rightarrow> string \<Rightarrow> int \<times> goerror option \<Rightarrow> place \<Rightarrow> bool" where
  "attempted S offset a r X' \<longleftrightarrow> written S (nat offset) a (fst r) (snd (snd X')) \<and> (fst r \<noteq> 0 \<longrightarrow> fst X' = noMarks)"

lemma attempted_none: "snd (snd X) = a \<Longrightarrow> attempted S offset a (0, e) X"
  by (simp add: attempted_def)

text \<open>From the command \<^verbatim>\<open>RETR\<close> on, with the marker at the offset.\<close>

lemma retr_places:
  assumes serves: "serves_file S net" and w: "talking cfg s w" and stubs: "stubResponses cfg = Map.empty"
    and m: "servMark (hist w) = noMarks(s := nat offset)"
  shows "wp (dataCommand net p (sendCommandExpected net x ''%s %s'' [AStr ''RETR'', AStr path]) (\<lambda>e. (0, Some e))
      (\<lambda>e. debug g [AErr e]) (transferBody net fuel cmd True))
    (\<lambda>r w'. attempted S offset (accepted (hist w)) r (place (hist w'))) (\<lambda>_ _. True) w"
proof -
  let ?a = "accepted (hist w)" and ?send = "sendCommandExpected net x ''%s %s'' [AStr ''RETR'', AStr path]"
  have cmd: "Sprintf ''%s %s'' [AStr ''RETR'', AStr path] = ''RETR '' @ path" by (simp add: Sprintf_def fmt_arg_def)
  have heard: "hears s ((''RETR '' @ path) @ crlf) (place (hist w)) = (noMarks, nat offset, ?a)"
    using m by (simp add: hears_def place_def HasPrefix_def)
  have "wp (seq (inner ?send) (\<lambda>err. case err of
        Some e \<Rightarrow> ret (0, Some e)
      | None \<Rightarrow> seq (getData net p) (\<lambda>r. case r of
            Inl e \<Rightarrow> inner (seq (debug g [AErr e]) (\<lambda>_. ret (0, Some e)))
          | Inr dc \<Rightarrow> inner (deferred (closeData net dc) (transferBody net fuel cmd True dc)))))
      (\<lambda>r s'. attempted S offset ?a r (place (hist (fst s')))) (\<lambda>_ _. True) (w, b)" for b
    unfolding wp_seq [of "inner ?send"] wp_inner fst_conv snd_conv
  proof (rule wp_mono [OF sendCommandExpected_heard [OF w stubs]], goal_cases)
    case (1 err w1)
    then have pl: "place (hist w1) = (noMarks, nat offset, ?a)" unfolding cmd heard by blast
    show ?case
    proof (cases err)
      case None
      show ?thesis
        unfolding None option.case
        by (rule wp_mono [OF movesD [OF fetch.data_effect]]) (use serves pl in \<open>auto simp: placed_def attempted_def\<close>)
    qed (simp add: wp_ret attempted_none pl)
  qed simp
  then show ?thesis
    unfolding dataCommand_def wp_withCell
    by (intro wp_deferred_kept [where v = "\<lambda>s. place (hist (fst s))", OF _ place.kept_abortData])
qed

lemma withDataConn_places:
  assumes serves: "serves_file S net" and w: "talking cfg s w" "usable w" and stubs: "stubResponses cfg = Map.empty"
    and m: "servMark (hist w) = noMarks(s := nat offset)"
  shows "wp (withDataConn net (sendCommandExpected net x ''%s %s'' [AStr ''RETR'', AStr path]) (\<lambda>e. (0, Some e))
      (\<lambda>e. debug g [AErr e]) (\<lambda>e. debug g' [AErr e]) (transferBody net fuel cmd True))
    (\<lambda>r w'. attempted S offset (accepted (hist w)) r (place (hist w'))) (\<lambda>_ _. True) w"
  unfolding withDataConn_def wp_seq [of "prepareDataConn net"]
proof -
  have "wp (prepareDataConn net) (\<lambda>_ w'. talking cfg s w' \<and> place (hist w') = place (hist w)) (\<lambda>_ _. True) w"
    using prepareDataConn_contract [of w net] w keeps_unchanged [of "w_view place" "prepareDataConn net" w, OF place.kept_prepareDataConn]
    by (auto simp: wp_def usable_def prep_ok_def intro: conn_step_talking split: out.splits)
  then show "wp (prepareDataConn net) (\<lambda>r. wp (case r of
        Inl e \<Rightarrow> seq (debug g [AErr e]) (\<lambda>_. ret (0, Some e))
      | Inr p \<Rightarrow> dataCommand net p (sendCommandExpected net x ''%s %s'' [AStr ''RETR'', AStr path]) (\<lambda>e. (0, Some e))
          (\<lambda>e. debug g' [AErr e]) (transferBody net fuel cmd True))
      (\<lambda>r w'. attempted S offset (accepted (hist w)) r (place (hist w'))) (\<lambda>_ _. True)) (\<lambda>_ _. True) w"
  proof (rule wp_mono, goal_cases)
    case (1 r w1)
    then have w1: "talking cfg s w1" "servMark (hist w1) = noMarks(s := nat offset)" "accepted (hist w1) = accepted (hist w)"
      using m by (simp_all add: place_def)
    show ?case
    proof (cases r)
      case (Inl e)
      with w1(3) show ?thesis by (simp add: wp_simps attempted_none place_def)
    next
      case (Inr p)
      with retr_places [OF serves w1(1) stubs w1(2)] w1(3) show ?thesis by simp
    qed
  qed simp
qed

lemma transferOn_places:
  assumes serves: "serves_file S net" and w: "talking cfg s w" "usable w" and stubs: "stubResponses cfg = Map.empty"
    and m: "servMark (hist w) = noMarks" and offset: "0 \<le> offset"
  shows "wp (transferOn net fuel path True False offset)
    (\<lambda>r w'. attempted S offset (accepted (hist w)) r (place (hist w'))) (\<lambda>_ _. True) w"
proof -
  let ?a = "accepted (hist w)" and ?Q = "\<lambda>r w'. attempted S offset (accepted (hist w)) r (place (hist w'))"
  let ?rest = "if offset > 0 then sendCommandExpected net replyFileActionPending ''REST %d'' [AInt offset] else ret None"
  have cmd: "Sprintf ''REST %d'' [AInt offset] = ''REST '' @ Itoa offset" by (simp add: Sprintf_def fmt_arg_def)
  have marked: "wp ?rest (\<lambda>r w'. conn_step w1 w' \<and> (r = None \<longrightarrow> servMark (hist w') = noMarks(s := nat offset)) \<and>
      accepted (hist w') = ?a) never w1"
    if w1: "talking cfg s w1" "servMark (hist w1) = noMarks" "accepted (hist w1) = ?a" for w1
  proof (cases "offset > 0")
    case True
    have "connected w1" using w1(1) by (auto simp: talking_def connected_def)
    from ctl_okD [OF ctl_ok_sendCommandExpected this, of net replyFileActionPending "''REST %d''" "[AInt offset]"]
      sendCommandExpected_heard [OF w1(1) stubs, of net replyFileActionPending "''REST %d''" "[AInt offset]"]
    show ?thesis
      using True w1(2,3) restArg_printed [OF offset]
      by (auto simp: wp_def cmd hears_def place_def HasPrefix_def ctl_step_conn split: out.splits)
  next
    case False
    with offset w1 show ?thesis by (simp add: wp_ret)
  qed
  have setType: "wp (setType net ''I'') (\<lambda>_ w'. ctl_step w w' \<and> place (hist w') = place (hist w)) (\<lambda>_ _. True) w"
    using ctl_okD [OF ctl_ok_setType, of w net "''I''"] w(2) keeps_unchanged [of "w_view place" "setType net ''I''" w, OF place.kept_setType]
    by (auto simp: wp_def usable_def split: out.splits)
  have cmd': "transferCmd True False = Some ''RETR''" by (simp add: transferCmd_def)
  show ?thesis
    unfolding transferOn_def cmd' option.case wp_seq [of "setType net _"]
  proof (rule wp_mono [OF setType], goal_cases)
    case (1 err w1)
    then have w1: "talking cfg s w1" "servMark (hist w1) = noMarks" "accepted (hist w1) = ?a" "usable w1"
      using m w conn_step_talking [OF ctl_step_conn] tidy_usable [OF ctl_step_tidy] by (auto simp: place_def)
    show ?case
    proof (cases err)
      case None
      show ?thesis
        unfolding None option.case wp_seq [of ?rest]
      proof (rule wp_mono [OF marked [OF w1(1-3)]], goal_cases)
        case (1 err' w2)
        then have w2: "talking cfg s w2" "usable w2" "accepted (hist w2) = ?a"
          using w1 conn_step_talking by (auto simp: usable_def conn_step_def connected_def)
        show ?case
        proof (cases err')
          case None
          with 1 have "servMark (hist w2) = noMarks(s := nat offset)" by simp
          from withDataConn_places [OF serves w2(1,2) stubs this] w2(3) None show ?thesis by simp
        qed (simp add: wp_ret attempted_none place_def w2)
      qed simp
    qed (simp add: wp_ret attempted_none place_def w1)
  qed simp
qed

section \<open>The configuration of the client\<close>

text \<open>No operation of the client changes its configuration.\<close>

abbreviation cfg_is :: "Config \<Rightarrow> client \<Rightarrow> bool" where
  "cfg_is cfg \<equiv> (\<lambda>c. clConfig c = cfg)"

lemma cfg_basic [keeps_rules]:
  "keeps (cfg_is cfg) (onConn r m)" "keeps (cfg_is cfg) (clDebug f as)" "keeps (cfg_is cfg) (returnConn r)"
  by (simp_all add: keeps_def wp_simps returnConn_def wp_def [of m] split: out.split)

lemma cfg_dropBroken [keeps_rules]: "keeps (cfg_is cfg) (dropBroken net why r)"
  unfolding dropBroken_def removeConn_def by (intro keeps_rules) simp_all

lemma cfg_openSlot [keeps_rules]: "keeps (cfg_is cfg) (openSlot net)"
  unfolding openSlot_def reserveSlot_def openConn_def Let_def by (intro keeps_rules) simp_all

lemma cfg_drainFree [keeps_rules]: "keeps (cfg_is cfg) (drainFree net n)"
proof (induction n)
  case 0
  show ?case by (subst drainFree.simps) (auto intro!: keeps_rules)
next
  case (Suc n)
  show ?case by (subst drainFree.simps) (auto intro!: keeps_rules Suc)
qed

lemma cfg_waitFree [keeps_rules]: "keeps (cfg_is cfg) (waitFree net n)"
proof (induction n)
  case 0
  show ?case by (subst waitFree.simps) (auto intro!: keeps_rules)
next
  case (Suc n)
  show ?case by (subst waitFree.simps) (auto intro!: keeps_rules Suc)
qed

lemma cfg_getIdleConn [keeps_rules]: "keeps (cfg_is cfg) (getIdleConn net)"
  unfolding getIdleConn_def by (intro keeps_rules)

lemma cfg_withIdle [keeps_rules]: "keeps (cfg_is cfg) (withIdle net fail body)"
  unfolding withIdle_def bracketed_def by (intro keeps_rules)

section \<open>Resuming in the right place\<close>

text \<open>
  The state between the attempts of a caller: the pool is in order, nothing is answered by stubs, and no marker is set.
\<close>

definition between :: "handle set \<Rightarrow> string list \<Rightarrow> nat list \<Rightarrow> client \<Rightarrow> bool" where
  "between L pend held c \<longleftrightarrow> pool_ok L pend held c \<and> stubResponses (clConfig c) = Map.empty \<and> servMark (chist c) = noMarks"

text \<open>A method that keeps the place leads from one such state to another.\<close>

lemma between_kept:
  assumes ok: "cl_ok F m Q" and pl: "\<And>X. kept_c place X m" and cfg: "\<And>X. keeps (cfg_is X) m" and c: "between L pend held c"
  shows "wp m (\<lambda>a c'. Q a \<and> between L pend held c' \<and> accepted (chist c') = accepted (chist c)) (\<lambda>_ _. True) c"
  using cl_okD [OF ok, of L pend held c] keeps_unchanged [of "c_view place" m c, OF pl] keeps_unchanged [of clConfig m c, OF cfg] c
  by (auto simp: between_def wp_def place_def split: out.splits)

lemma transfer_places:
  assumes serves: "serves_file S net" and c: "between L pend held c" and offset: "0 \<le> offset"
  shows "wp (transferFromOffset net fuel path True False offset) (\<lambda>(n, _) c'.
    written S (nat offset) (accepted (chist c)) n (accepted (chist c')) \<and> (n \<noteq> 0 \<longrightarrow> between L pend held c')) (\<lambda>_ _. True) c"
proof -
  let ?m = "transferFromOffset net fuel path True False offset" and ?a = "accepted (chist c)"
  have cok: "pool_ok L pend held c" using c by (simp add: between_def)
  have cfg: "keeps (cfg_is X) ?m" for X unfolding transferFromOffset_def by (intro keeps_rules)
  have get: "wp (getIdleConn net) (\<lambda>r c1. got_conn L pend held r c1 \<and> place (chist c1) = place (chist c) \<and> clConfig c1 = clConfig c)
      (\<lambda>_ _. True) c"
    using getIdleConn_ok [OF cok, of net] keeps_unchanged [of "c_view place" "getIdleConn net" c, OF place.kept_getIdleConn]
      keeps_unchanged [of clConfig "getIdleConn net" c, OF cfg_getIdleConn]
    by (auto simp: wp_def split: out.splits)
  have "wp ?m (\<lambda>r c'. attempted S offset ?a r (place (chist c'))) (\<lambda>_ _. True) c"
    unfolding transferFromOffset_def withIdle_def bracketed_def wp_seq [of "getIdleConn net"]
  proof (rule wp_mono [OF get], goal_cases)
    case (1 r c1)
    then have pl: "servMark (chist c1) = noMarks" "accepted (chist c1) = ?a"
      and stubs: "stubResponses (clConfig c1) = Map.empty" using c by (simp_all add: between_def place_def)
    show ?case
    proof (cases r)
      case (Inr p)
      let ?w = "\<lparr>pconn = heap c1 p, hist = chist c1\<rparr>"
      from 1 Inr have "conns_ok (p # held) c1" by (simp add: got_conn_def pool_ok_def)
      then obtain k where k: "controlConn (heap c1 p) = Some k" "config (heap c1 p) = clConfig c1"
        and "usable ?w" by (auto simp: conns_ok_def usable_def connected_def)
      then have "wp (transferOn net fuel path True False offset) (\<lambda>r w'. attempted S offset (accepted (hist ?w)) r (place (hist w')))
          (\<lambda>_ _. True) ?w"
        by (intro transferOn_places [OF serves _ _ stubs _ offset, where s = "sock k"]) (simp_all add: talking_def pl)
      then have "wp (deferred (returnConn p) (onConn p (transferOn net fuel path True False offset)))
          (\<lambda>r c'. attempted S offset ?a r (place (chist c'))) (\<lambda>_ _. True) c1"
        by (intro wp_deferred_kept [where v = "c_view place", OF _ place.kept_returnConn]) (simp add: wp_onConn pl)
      with Inr show ?thesis by simp
    qed (simp add: wp_ret attempted_none place_def pl)
  qed simp
  with cl_okD [OF transferFromOffset_ok cok, of True False net fuel path offset]
    keeps_unchanged [of clConfig ?m c, OF cfg] c
  show ?thesis by (auto simp: wp_def attempted_def place_def between_def split: out.splits)
qed

lemma retrieveLoop_places:
  assumes serves: "serves_file S net" and "between L pend held c" and "0 \<le> bytesSoFar"
  shows "wp (retrieveLoop net fuel k path resume bytesSoFar) (\<lambda>r c'. \<forall>b. r = Inr b \<longrightarrow>
    written S (nat bytesSoFar) (accepted (chist c)) (b - bytesSoFar) (accepted (chist c'))) (\<lambda>_ _. True) c"
  using assms(2,3)
proof (induction k arbitrary: c bytesSoFar)
  case (Suc k)
  let ?Q = "\<lambda>r c'. \<forall>b. r = Inr b \<longrightarrow> written S (nat bytesSoFar) (accepted (chist c)) (b - bytesSoFar) (accepted (chist c'))"
  show ?case
    unfolding retrieveLoop.simps wp_seq
  proof (rule wp_mono [OF transfer_places [OF serves Suc.prems]], goal_cases)
    case (1 r c1)
    then obtain n err where r: "r = (n, err)"
      and got: "written S (nat bytesSoFar) (accepted (chist c)) n (accepted (chist c1))"
      and btw: "n \<noteq> 0 \<longrightarrow> between L pend held c1" by (cases r) auto
    from got have n: "0 \<le> n" by (auto simp: written_def)
    have "wp (retrieveLoop net fuel k path resume (bytesSoFar + n)) ?Q (\<lambda>_ _. True) c1" if "n \<noteq> 0"
      by (rule wp_mono [OF Suc.IH]) (use that btw n Suc.prems(2) written_trans [OF got] in \<open>fastforce simp: nat_add_distrib algebra_simps\<close>)+
    with got show ?case by (cases resume) (simp_all add: r wp_simps split: option.split)
  qed simp
qed (simp add: wp_abort_with)

text \<open>C3. A download that succeeds has written the right bytes. Take any server that keeps a restart marker for every control connection, as
  \<^verbatim>\<open>REST\<close> sets it and \<^verbatim>\<open>RETR\<close> uses it up, and on a data connection sends what stands in the file from there on, in pieces of any size
  and with failures at any point; it reads one command from each write, as it does for a path without line breaks. When the server reported the size \<open>n\<close> and no marker is left
  over from before, a successful \<open>RetrieveFrom\<close> has handed the caller's writer exactly the part of the file from the offset to \<open>n\<close>,
  each byte once and in its place, however often the transfer was resumed and on whichever connections. With a writer that takes everything they are
  also exactly the bytes that the data connections delivered.\<close>

theorem RetrieveFrom_complete:
  assumes pool: "pool_ok L pend held c" and stubs: "stubResponses (clConfig c) = Map.empty"
    and marks: "\<And>s. servMark (chist c) s = 0" and serves: "serves_file S net"
    and size: "sizeOf net path c = Ret (n, None) c1" "n \<noteq> - 1"
    and run: "RetrieveFrom net fuel k path offset c = Ret None c'"
  shows "\<exists>got. accepted (chist c') = accepted (chist c) @ got \<and> int (length got) = n - offset \<and>
    got = take (nat (n - offset)) (drop (nat offset) S) \<and>
    (takes_all net \<longrightarrow> received (chist c') = received (chist c) @ got)"
proof -
  let ?a = "accepted (chist c)"
  let ?Q = "\<lambda>r c'. r = None \<longrightarrow> written S (nat offset) ?a (n - offset) (accepted (chist c'))"
  from run have offset: "0 \<le> offset" by (auto simp: RetrieveFrom_def ret_def split: if_splits)
  have "servMark (chist c) = noMarks" using marks by (simp add: noMarks_def fun_eq_iff)
  with pool stubs have c: "between L pend held c" by (simp add: between_def)
  have size_cfg: "keeps (cfg_is X) (sizeOf net path)" for X unfolding sizeOf_def by (intro keeps_rules)
  have res_cfg: "keeps (cfg_is X) (canResume net)" for X unfolding canResume_def by (intro keeps_rules)
  from wp_RetD [OF between_kept [OF sizeOf_ok place.kept_sizeOf size_cfg c] size(1)]
  have c1: "between L pend held c1" "accepted (chist c1) = ?a" by blast+
  have loop: "wp (seq (retrieveLoop net fuel k path resume offset) (\<lambda>r. case r of
        Inl e \<Rightarrow> ret (Some e)
      | Inr b \<Rightarrow> if n \<noteq> - 1 \<and> b \<noteq> n then ret (Some (err b)) else ret None)) ?Q (\<lambda>_ _. True) c2"
    if "between L pend held c2" "accepted (chist c2) = ?a" for resume c2 err
    unfolding wp_seq
    by (rule wp_mono [OF retrieveLoop_places [OF serves that(1) offset]]) (use that(2) size(2) in \<open>auto simp: wp_simps split: sum.splits\<close>)
  have "wp (seq (canResume net) (\<lambda>resume.
        if offset > 0 \<and> \<not> resume then ret (Some e)
        else if offset = n then ret None
        else seq (retrieveLoop net fuel k path resume offset) (\<lambda>r. case r of
          Inl e \<Rightarrow> ret (Some e)
        | Inr b \<Rightarrow> if n \<noteq> - 1 \<and> b \<noteq> n then ret (Some (err b)) else ret None))) ?Q (\<lambda>_ _. True) c1" for e err
    unfolding wp_seq [of "canResume net"]
    by (rule wp_mono [OF between_kept [OF canResume_ok place.kept_canResume res_cfg c1(1)]]) (use c1 loop in \<open>simp_all add: wp_ret\<close>)
  then have "wp (RetrieveFrom net fuel k path offset) ?Q (\<lambda>_ _. True) c"
    unfolding RetrieveFrom_def wp_if wp_seq [of "sizeOf net path"]
    by (simp add: wp_def [of "sizeOf net path"] size wp_ret)
  from wp_RetD [OF this run] obtain got rest where got: "int (length got) = n - offset" "accepted (chist c') = ?a @ got"
    "drop (nat offset) S = got @ rest" by (auto simp: written_def)
  moreover have "got = take (nat (n - offset)) (drop (nat offset) S)"
    unfolding got(3) using got(1) by (simp flip: got(1))
  moreover have "takes_all net \<longrightarrow> received (chist c') = received (chist c) @ got"
    using RetrieveFrom_counts [OF size run] got(2) by auto
  ultimately show ?thesis by blast
qed

text \<open>
  A server that resumes, and loses the first data connection after three bytes of the file. It answers the command that was sent last on the
  same control connection, so that the connection that is opened for the second attempt is greeted like the first.
\<close>

fun lastOn :: "handle \<Rightarrow> history \<Rightarrow> string \<times> nat" where
  "lastOn s [] = ([], 0)"
| "lastOn s (EvSend c bytes _ # h) = (if sock c = s then (bytes, 0) else lastOn s h)"
| "lastOn s (EvRecv t n # h) = (if t = s then map_prod id ((+) n) (lastOn s h) else lastOn s h)"
| "lastOn s (_ # h) = lastOn s h"

definition resumeScript :: "string \<Rightarrow> string list" where
  "resumeScript cmd =
     (if HasPrefix cmd ''FEAT'' then [''211-Features'', '' SIZE'', '' REST STREAM'', ''211 End'']
      else if HasPrefix cmd ''REST'' then [''350 go on'']
      else downloadScript cmd)"

definition resumable :: net where
  "resumable = (served resumeScript [] 9)\<lparr>
     net_lines := (\<lambda>h s. case lastOn s h of (cmd, n) \<Rightarrow> (drop n (resumeScript cmd), EOF)),
     net_read := (\<lambda>h _.
     if servPos h = 0 then (''hel'', Some (LibError ''reset'')) else (drop (servPos h) ''hello'', Some EOF))\<rparr>"

theorem RetrieveFrom_complete_witness:
  "\<exists>c1 c'. sizeOf resumable ''f'' sampleClient = Ret (5, None) c1 \<and>
     RetrieveFrom resumable 1 2 ''f'' 0 sampleClient = Ret None c' \<and>
     (\<exists>got. accepted (chist c') = accepted (chist sampleClient) @ got \<and> int (length got) = 5 - 0 \<and>
       got = take (nat (5 - 0)) (drop (nat 0) ''hello'') \<and>
       (takes_all resumable \<longrightarrow> received (chist c') = received (chist sampleClient) @ got))"
proof -
  have "case sizeOf resumable ''f'' sampleClient of Ret (n, None) _ \<Rightarrow> n = 5 | _ \<Rightarrow> False" by code_simp
  then obtain c1 where size: "sizeOf resumable ''f'' sampleClient = Ret (5, None) c1"
    by (auto split: out.splits prod.splits option.splits)
  have "case RetrieveFrom resumable 1 2 ''f'' 0 sampleClient of Ret None _ \<Rightarrow> True | _ \<Rightarrow> False" by code_simp
  then obtain c' where run: "RetrieveFrom resumable 1 2 ''f'' 0 sampleClient = Ret None c'"
    by (auto split: out.splits option.splits)
  have "\<exists>rest. drop (servPos h) ''hello'' = fst (net_read resumable h s) @ rest" for h s
    by (simp add: resumable_def)
  then have serves: "serves_file ''hello'' resumable" by (simp add: serves_file_def)
  have pool: "pool_ok {} [] [] sampleClient" by (simp add: sampleClient_def newClient_ok live_def)
  have "stubResponses (clConfig sampleClient) = Map.empty" "\<And>s. servMark (chist sampleClient) s = 0"
    by (simp_all add: sampleClient_def newClient_def defaultConfig_def sampleConfig_def zeroConfig_def)
  from RetrieveFrom_complete [OF pool this serves size _ run] size run show ?thesis by auto
qed

end
