(* ===== verification/Checksums.thy ===== *)
theory Checksums
  imports FileProps "HOL-Library.List_Lexorder" "HOL-Library.Char_ord"
begin

text \<open>
  Checksums computed by the server (\<^verbatim>\<open>checksum.go\<close>): which algorithms a server offers, the choice among them, and
  the two families of commands, \<^verbatim>\<open>HASH\<close> and the older ones. Go ranges over a map in no particular order: \<open>order\<close> is the order
  of this run, a list of the elements of the set it is given.
\<close>

section \<open>What a server offers\<close>

definition checksumPreference :: "string list" where
  "checksumPreference = [''SHA-512'', ''SHA-256'', ''SHA-1'', ''MD5'', ''CRC32'']"

definition legacyChecksumCommands :: "(string \<times> string) list" where
  "legacyChecksumCommands =
     [(''XSHA512'', ''SHA-512''), (''XSHA256'', ''SHA-256''), (''XSHA1'', ''SHA-1''), (''XSHA'', ''SHA-1''),
      (''XMD5'', ''MD5''), (''MD5'', ''MD5''), (''XCRC'', ''CRC32'')]"

definition hashAlgorithms :: "string \<Rightarrow> string list" where
  "hashAlgorithms arg =
     map ToUpper (filter (\<lambda>a. a \<noteq> [])
       (map (\<lambda>algo. TrimSpace (TrimSuffix (TrimSpace algo) ''*'')) (Split arg '';'')))"

definition foundAlgorithms :: "persistentConn \<Rightarrow> string set" where
  "foundAlgorithms pc =
     (case features pc ''HASH'' of None \<Rightarrow> {} | Some arg \<Rightarrow> set (hashAlgorithms arg)) \<union>
     set (map (\<lambda>(_, algo). ToUpper algo) (filter (\<lambda>(cmd, _). hasFeature pc cmd) legacyChecksumCommands))"

text \<open>The algorithms in order of preference, and what is left of the set.\<close>

fun takePreferred :: "string list \<Rightarrow> string set \<Rightarrow> string list \<times> string set" where
  "takePreferred [] found = ([], found)"
| "takePreferred (algo # ps) found =
     (if ToUpper algo \<in> found then
        (case takePreferred ps (found - {ToUpper algo}) of (out, rest) \<Rightarrow> (algo # out, rest))
      else takePreferred ps found)"

definition checksumAlgorithms :: "(string set \<Rightarrow> string list) \<Rightarrow> persistentConn \<Rightarrow> string list" where
  "checksumAlgorithms order pc =
     (case takePreferred checksumPreference (foundAlgorithms pc) of (out, rest) \<Rightarrow> out @ order rest)"

definition ChecksumAlgorithms :: "net \<Rightarrow> (string set \<Rightarrow> string list) \<Rightarrow> (goerror + string list, client) go" where
  "ChecksumAlgorithms net order = withIdle net Inl
     (seq (gets pconn) (\<lambda>pc. ret (Inr (checksumAlgorithms order pc))))"

section \<open>Asking for a checksum\<close>

definition lastLine :: "string \<Rightarrow> string" where
  "lastLine msg =
     (case find (\<lambda>l. TrimSpace l \<noteq> []) (rev (Split (Replace msg crlf [CHR 0x0A]) [CHR 0x0A])) of
        None \<Rightarrow> [] | Some l \<Rightarrow> TrimSpace l)"

definition containsFold :: "string list \<Rightarrow> string \<Rightarrow> bool" where
  "containsFold haystack needle = list_ex (\<lambda>h. EqualFold h needle) haystack"

definition hashChecksum :: "net \<Rightarrow> string \<Rightarrow> string \<Rightarrow> (goerror + string, pworld) go" where
  "hashChecksum net path algorithm =
     seq (sendCommand net ''OPTS HASH %s'' [AStr algorithm]) (\<lambda>(_, _, err).
     case err of
       Some e \<Rightarrow> ret (Inl e)
     | None \<Rightarrow>
         seq (sendCommand net ''HASH %s'' [AStr path]) (\<lambda>(code, msg, err).
         case err of
           Some e \<Rightarrow> ret (Inl e)
         | None \<Rightarrow>
             if \<not> positiveCompletionReply code then ret (Inl (replyErr code msg))
             else
               let fields = Fields (lastLine msg)
               in if length fields < 3
                  then ret (Inl (wrapErr (Errorf ''cannot read a checksum from %q'' [AStr msg])))
                  else ret (Inr (ToLower (fields ! 2)))))"

definition legacyChecksum :: "net \<Rightarrow> string \<Rightarrow> string \<Rightarrow> (goerror + string, pworld) go" where
  "legacyChecksum net command path =
     seq (sendCommand net ''%s %s'' [AStr command, AStr path]) (\<lambda>(code, msg, err).
     case err of
       Some e \<Rightarrow> ret (Inl e)
     | None \<Rightarrow>
         if \<not> positiveCompletionReply code then ret (Inl (replyErr code msg))
         else
           let fields = Fields (lastLine msg)
           in if fields = []
              then ret (Inl (wrapErr (Errorf ''cannot read a checksum from %q'' [AStr msg])))
              else ret (Inr (ToLower (last fields))))"

text \<open>The first of the older commands that computes the algorithm and that the server has.\<close>

definition legacyCommand :: "persistentConn \<Rightarrow> string \<Rightarrow> string option" where
  "legacyCommand pc algorithm =
     map_option fst (find (\<lambda>(cmd, algo). EqualFold algo algorithm \<and> hasFeature pc cmd) legacyChecksumCommands)"

definition chosenAlgorithm :: "string list \<Rightarrow> string \<Rightarrow> goerror + string" where
  "chosenAlgorithm available algorithm =
     (if available = [] then
        Inl (wrapErr (Errorf ''the server computes no checksums: it advertises neither HASH nor any of the older per-algorithm commands'' []))
      else if algorithm = [] then Inr (hd available)
      else if \<not> containsFold available algorithm then
        Inl (wrapErr (Errorf ''the server cannot compute %s; it offers %s'' [AStr algorithm, AStr (Join available '', '')]))
      else Inr algorithm)"

definition checksumOn :: "net \<Rightarrow> (string set \<Rightarrow> string list) \<Rightarrow> string \<Rightarrow> string \<Rightarrow> (goerror + string, pworld) go" where
  "checksumOn net order path algorithm =
     seq (gets pconn) (\<lambda>pc.
     case chosenAlgorithm (checksumAlgorithms order pc) algorithm of
       Inl e \<Rightarrow> ret (Inl e)
     | Inr algo \<Rightarrow>
         if hasFeature pc ''HASH'' then hashChecksum net path algo
         else
           (case legacyCommand pc algo of
              Some cmd \<Rightarrow> legacyChecksum net cmd path
            | None \<Rightarrow> ret (Inl (wrapErr (Errorf ''no command available for %s'' [AStr algo])))))"

definition Checksum :: "net \<Rightarrow> (string set \<Rightarrow> string list) \<Rightarrow> string \<Rightarrow> string \<Rightarrow> (goerror + string, client) go" where
  "Checksum net order path algorithm = withIdle net Inl (checksumOn net order path algorithm)"

section \<open>The order of the algorithms\<close>

lemma takePreferred_eq:
  assumes "distinct ps" "\<And>a. a \<in> set ps \<Longrightarrow> ToUpper a = a"
  shows "takePreferred ps found = (filter (\<lambda>a. a \<in> found) ps, found - set ps)"
  using assms
proof (induction ps arbitrary: found)
  case (Cons a ps)
  have "filter (\<lambda>b. b \<in> found - {a}) ps = filter (\<lambda>b. b \<in> found) ps"
    using Cons.prems(1) by (intro filter_cong) auto
  moreover have "ToUpper a = a" using Cons.prems(2) by simp
  ultimately show ?case using Cons.prems by (auto simp: Cons.IH)
qed simp

lemma preference_upper: "a \<in> set checksumPreference \<Longrightarrow> ToUpper a = a" "distinct checksumPreference"
  by (auto simp: checksumPreference_def ToUpper_def upper_char_def)

lemma checksumAlgorithms_eq:
  "checksumAlgorithms order pc = filter (\<lambda>a. a \<in> foundAlgorithms pc) checksumPreference @
     order (foundAlgorithms pc - set checksumPreference)"
  by (simp add: checksumAlgorithms_def takePreferred_eq [OF preference_upper(2,1)])

lemma finite_foundAlgorithms [simp]: "finite (foundAlgorithms pc)"
  by (simp add: foundAlgorithms_def split: option.split)

text \<open>C22. The algorithms are listed strongest first: those the package knows in its order of preference, then the rest of what
  the server announced in the order of the map, each once and none invented. Deleting from the set while the known ones are
  taken out amounts to one filter over the preferences.\<close>

theorem checksumAlgorithms_strongest_first:
  assumes "\<And>S. finite S \<Longrightarrow> set (order S) = S \<and> distinct (order S)"
  shows "checksumAlgorithms order pc = filter (\<lambda>a. a \<in> foundAlgorithms pc) checksumPreference @
      order (foundAlgorithms pc - set checksumPreference) \<and>
    distinct (checksumAlgorithms order pc) \<and> set (checksumAlgorithms order pc) = foundAlgorithms pc"
  using assms [of "foundAlgorithms pc - set checksumPreference"] preference_upper(2)
  by (auto simp: checksumAlgorithms_eq)

definition hashServer :: persistentConn where
  "hashServer = sampleConn\<lparr>features := [''HASH'' \<mapsto> ''CRC32;sha-1*;SHA-256;Whirlpool;'']\<rparr>"

theorem checksumAlgorithms_strongest_first_witness:
  "checksumAlgorithms sorted_list_of_set hashServer = [''SHA-256'', ''SHA-1'', ''CRC32'', ''WHIRLPOOL''] \<and>
   distinct (checksumAlgorithms sorted_list_of_set hashServer)"
proof -
  have *: "foundAlgorithms hashServer = {''CRC32'', ''SHA-1'', ''SHA-256'', ''WHIRLPOOL''}" by code_simp
  show ?thesis
    using checksumAlgorithms_strongest_first [of sorted_list_of_set hashServer] unfolding *
    by (auto simp: checksumPreference_def)
qed

section \<open>An algorithm has a command\<close>

lemma legacy_upper: "(cmd, algo) \<in> set legacyChecksumCommands \<Longrightarrow> ToUpper algo = algo \<and> algo \<in> set checksumPreference"
  by (auto simp: legacyChecksumCommands_def checksumPreference_def ToUpper_def upper_char_def)

lemma found_without_hash:
  assumes "features pc ''HASH'' = None"
  shows "foundAlgorithms pc = {algo. \<exists>cmd. (cmd, algo) \<in> set legacyChecksumCommands \<and> hasFeature pc cmd}"
  using legacy_upper assms by (force simp: foundAlgorithms_def)

lemma chosenAlgorithm_available:
  "chosenAlgorithm available algorithm = Inr algo \<Longrightarrow> \<exists>a \<in> set available. EqualFold a algo"
  by (cases available) (auto simp: chosenAlgorithm_def containsFold_def list_ex_iff EqualFold_def split: if_splits)

lemma legacyCommand_sound:
  "legacyCommand pc algo = Some cmd \<Longrightarrow>
     hasFeature pc cmd \<and> (\<exists>a. (cmd, a) \<in> set legacyChecksumCommands \<and> EqualFold a algo)"
  unfolding legacyCommand_def map_option_eq_Some by (fastforce simp: find_Some_iff set_conv_nth)

text \<open>C24. On a server without \<^verbatim>\<open>HASH\<close>, an algorithm that passes the check against what the server offers always has a command
  that the server announced and that computes it, in whatever case the caller wrote its name. The last error of \<open>Checksum\<close>,
  that no command is available, is therefore never returned.\<close>

theorem legacy_command_available:
  assumes order: "\<And>S. finite S \<Longrightarrow> set (order S) = S \<and> distinct (order S)"
    and hash: "features pc ''HASH'' = None"
    and chosen: "chosenAlgorithm (checksumAlgorithms order pc) algorithm = Inr algo"
  shows "\<exists>cmd a. legacyCommand pc algo = Some cmd \<and> hasFeature pc cmd \<and>
    (cmd, a) \<in> set legacyChecksumCommands \<and> EqualFold a algo"
proof -
  have "set (order (foundAlgorithms pc - set checksumPreference)) = foundAlgorithms pc - set checksumPreference"
    using order by simp
  with chosenAlgorithm_available [OF chosen] obtain a where "a \<in> foundAlgorithms pc" "EqualFold a algo"
    by (auto simp: checksumAlgorithms_eq)
  then obtain cmd where "(cmd, a) \<in> set legacyChecksumCommands" "hasFeature pc cmd" "EqualFold a algo"
    by (auto simp: found_without_hash [OF hash])
  then have "find (\<lambda>(cmd, a). EqualFold a algo \<and> hasFeature pc cmd) legacyChecksumCommands \<noteq> None"
    by (auto simp: find_None_iff)
  then obtain cmd' where "legacyCommand pc algo = Some cmd'" by (auto simp: legacyCommand_def)
  with legacyCommand_sound [OF this] show ?thesis by blast
qed

definition legacyServer :: persistentConn where
  "legacyServer = sampleConn\<lparr>features := [''XCRC'' \<mapsto> [], ''XSHA'' \<mapsto> []]\<rparr>"

theorem legacy_command_available_witness:
  "legacyCommand legacyServer ''sha-1'' = Some ''XSHA'' \<and> hasFeature legacyServer ''XSHA'' \<and>
   (\<exists>a. (''XSHA'', a) \<in> set legacyChecksumCommands \<and> EqualFold a ''sha-1'')"
proof -
  have hash: "features legacyServer ''HASH'' = None" by (simp add: legacyServer_def)
  have chosen: "chosenAlgorithm (checksumAlgorithms sorted_list_of_set legacyServer) ''sha-1'' = Inr ''sha-1''"
    by code_simp
  have "legacyCommand legacyServer ''sha-1'' = Some ''XSHA''" by code_simp
  with legacy_command_available [OF _ hash chosen] show ?thesis by simp
qed

section \<open>Reading the digest\<close>

lemma Fields_blank: "list_all is_space s \<Longrightarrow> Fields s = []"
  by (subst Fields.simps) (auto simp: Let_def dropWhile_eq_Nil_conv list_all_iff)

lemma Fields_word: "d \<noteq> [] \<Longrightarrow> list_all (\<lambda>c. \<not> is_space c) d \<Longrightarrow> Fields d = [d]"
proof -
  assume d: "d \<noteq> []" "list_all (\<lambda>c. \<not> is_space c) d"
  then have "dropWhile is_space d = d" by (cases d) auto
  moreover have "takeWhile (\<lambda>c. \<not> is_space c) d = d" "dropWhile (\<lambda>c. \<not> is_space c) d = []"
    using d by (auto simp: takeWhile_eq_all_conv dropWhile_eq_Nil_conv list_all_iff)
  ultimately show ?thesis using d Fields_blank [of "[]"]
    by (subst Fields.simps) (simp add: Let_def del: dropWhile_eq_Nil_conv)
qed

lemma Fields_space:
  assumes c: "is_space c"
  shows "Fields (p @ c # q) = Fields p @ Fields q"
proof (induction p rule: Fields.induct)
  case (1 p)
  let ?t = "dropWhile is_space p" and ?ns = "\<lambda>c. \<not> is_space c"
  have q: "Fields (c # q) = Fields q" using c by (subst (1 2) Fields.simps) simp
  show ?case
  proof (cases "?t = []")
    case True
    then have p: "list_all is_space p" by (auto simp: dropWhile_eq_Nil_conv list_all_iff)
    then have "dropWhile is_space (p @ c # q) = dropWhile is_space q"
      using c by (simp add: dropWhile_append2 list_all_iff)
    then have "Fields (p @ c # q) = Fields q" by (subst (1 2) Fields.simps) simp
    with Fields_blank [OF p] show ?thesis by simp
  next
    case False
    then have t: "dropWhile is_space (p @ c # q) = ?t @ c # q"
      by (auto simp: dropWhile_eq_Nil_conv dropWhile_append1)
    have w: "takeWhile ?ns (?t @ c # q) = takeWhile ?ns ?t"
      using c by (cases "\<exists>x \<in> set ?t. is_space x") (auto simp: takeWhile_append takeWhile_eq_all_conv [THEN iffD2])
    have d: "dropWhile ?ns (?t @ c # q) = dropWhile ?ns ?t @ c # q"
      using c by (cases "\<exists>x \<in> set ?t. is_space x") (auto simp: dropWhile_append)
    have "Fields (p @ c # q) = takeWhile ?ns ?t # Fields (dropWhile ?ns ?t @ c # q)"
      by (subst Fields.simps) (simp add: Let_def t w d)
    also have "\<dots> = takeWhile ?ns ?t # Fields (dropWhile ?ns ?t) @ Fields q" using 1 [OF refl False] by simp
    also have "\<dots> = Fields p @ Fields q" using False by (subst (3) Fields.simps) (simp add: Let_def)
    finally show ?thesis .
  qed
qed

lemma Fields_TrimSpace [simp]: "Fields (TrimSpace s) = Fields s"
proof -
  have right: "Fields (p @ sp) = Fields p" if "list_all is_space sp" for p sp
    using that Fields_space [of "hd sp" p "tl sp"] Fields_blank [of "tl sp"] by (cases sp) auto
  let ?t = "dropWhile is_space s"
  have "Fields (TrimSpace s) = Fields (TrimSpace s @ rev (takeWhile is_space (rev ?t)))"
    by (rule right [symmetric]) (auto simp: list_all_iff dest: set_takeWhileD)
  also have "TrimSpace s @ rev (takeWhile is_space (rev ?t)) = ?t"
    unfolding TrimSpace_def rev_append [symmetric] takeWhile_dropWhile_id by simp
  also have "Fields ?t = Fields s" by (subst (1 2) Fields.simps) simp
  finally show ?thesis .
qed

lemma TrimSpace_Fields: "Fields s \<noteq> [] \<Longrightarrow> TrimSpace s \<noteq> []"
  using Fields_blank [of "[]"] Fields_TrimSpace [of s] by (auto simp del: Fields_TrimSpace)

lemma Replace_crlf: "CHR 0x0D \<notin> set s \<Longrightarrow> Replace s crlf t = s"
proof -
  assume cr: "CHR 0x0D \<notin> set s"
  then have "Index s crlf = -1"
    by (induction s) (auto simp: HasPrefix_def)
  then show ?thesis by (subst Replace.simps) simp
qed

text \<open>The last line of a reply is the last one that has a field; lines before it do not matter.\<close>

lemma lastLine_fields:
  assumes "CHR 0x0D \<notin> set (Join (ls @ [l]) [CHR 0x0A])" "\<And>x. x \<in> set (ls @ [l]) \<Longrightarrow> CHR 0x0A \<notin> set x"
    and "Fields l \<noteq> []"
  shows "Fields (lastLine (Join (ls @ [l]) [CHR 0x0A])) = Fields l"
  using TrimSpace_Fields [OF assms(3)] Split_Join [of "ls @ [l]" "CHR 0x0A"] assms(2)
  by (simp add: lastLine_def Replace_crlf [OF assms(1)])

lemma hashChecksum_after:
  assumes "sendCommand net ''OPTS HASH %s'' [AStr algorithm] w = Ret (code0, msg0, None) w1"
    and "sendCommand net ''HASH %s'' [AStr path] w1 = Ret (code, msg, None) w2"
    and "positiveCompletionReply code" "3 \<le> length (Fields (lastLine msg))"
  shows "hashChecksum net path algorithm w = Ret (Inr (ToLower (Fields (lastLine msg) ! 2))) w2"
  using assms by (simp add: hashChecksum_def seq_def ret_def Let_def)

text \<open>C27. A reply to \<^verbatim>\<open>HASH\<close> is read as the draft standard writes it: on its last line, after any number of other lines, the
  algorithm, the range, the digest and the name. The digest is returned in lower case. The algorithm that the server
  names is not compared with the one asked for, and the reply to \<^verbatim>\<open>OPTS HASH\<close> may be a refusal, so the digest may be that of
  another algorithm.\<close>

theorem hashChecksum_reads_digest:
  assumes opts: "sendCommand net ''OPTS HASH %s'' [AStr algorithm] w = Ret (code0, msg0, None) w1"
    and reply: "sendCommand net ''HASH %s'' [AStr path] w1 =
      Ret (code, Join (ls @ [used @ '' '' @ span @ '' '' @ digest @ '' '' @ name]) [CHR 0x0A], None) w2"
    and code: "positiveCompletionReply code"
    and words: "\<forall>x \<in> {used, span, digest}. x \<noteq> [] \<and> list_all (\<lambda>c. \<not> is_space c) x"
    and lines: "\<forall>x \<in> set (name # ls). CHR 0x0A \<notin> set x \<and> CHR 0x0D \<notin> set x"
  shows "hashChecksum net path algorithm w = Ret (Inr (ToLower digest)) w2"
proof -
  let ?l = "used @ '' '' @ span @ '' '' @ digest @ '' '' @ name"
  have sp: "is_space CHR '' ''" "is_space CHR 0x0A" "is_space CHR 0x0D" by (simp_all add: is_space_def)
  have fields: "Fields ?l = used # span # digest # Fields name"
    using words Fields_space [OF sp(1)] by (simp add: Fields_word)
  have ends: "CHR 0x0A \<notin> set ?l" "CHR 0x0D \<notin> set ?l" using words lines sp by (auto simp: list_all_iff)
  have cr: "CHR 0x0D \<notin> set (Join xs [CHR 0x0A])" if "\<And>x. x \<in> set xs \<Longrightarrow> CHR 0x0D \<notin> set x" for xs
    using that by (induction xs "[CHR 0x0A]" rule: Join.induct) auto
  have "Fields (lastLine (Join (ls @ [?l]) [CHR 0x0A])) = Fields ?l"
    by (rule lastLine_fields, rule cr) (use lines ends fields in auto)
  with fields hashChecksum_after [OF opts reply code] show ?thesis by simp
qed

text \<open>The server refuses the algorithm asked for and answers with another.\<close>

definition stubbornServer :: net where
  "stubbornServer = scripted (\<lambda>cmd. if HasPrefix cmd ''OPTS'' then [''501 no''] else
     [''213-Computing'', ''213 MD5 0-12 D41D8CD9 a.txt'']) []"

theorem hashChecksum_reads_digest_witness:
  "\<exists>w'. hashChecksum stubbornServer ''a.txt'' ''SHA-256'' sampleWorld = Ret (Inr ''d41d8cd9'') w'"
proof -
  let ?opts = "sendCommand stubbornServer ''OPTS HASH %s'' [AStr ''SHA-256'']"
  let ?hash = "sendCommand stubbornServer ''HASH %s'' [AStr ''a.txt'']"
  let ?reply = "Join ([''Computing''] @ [''MD5'' @ '' '' @ ''0-12'' @ '' '' @ ''D41D8CD9'' @ '' '' @ ''a.txt'']) [CHR 0x0A]"
  have "wp ?opts (\<lambda>r _. r = (501, ''no'', None)) never sampleWorld"
    "wp (seq ?opts (\<lambda>_. ?hash)) (\<lambda>r _. r = (213, ?reply, None)) never sampleWorld" by code_simp+
  then obtain w1 w2 where run: "?opts sampleWorld = Ret (501, ''no'', None) w1" "?hash w1 = Ret (213, ?reply, None) w2"
    by (auto dest!: wp_never_returns simp: seq_def)
  have "hashChecksum stubbornServer ''a.txt'' ''SHA-256'' sampleWorld = Ret (Inr (ToLower ''D41D8CD9'')) w2"
    by (rule hashChecksum_reads_digest [OF run])
      (simp_all add: positiveCompletionReply_def sdiv_100_eq is_space_def)
  moreover have "ToLower ''D41D8CD9'' = ''d41d8cd9''" by code_simp
  ultimately show ?thesis by auto
qed

section \<open>The methods\<close>

text \<open>The rule for \<^verbatim>\<open>code, msg, err := pconn.sendCommand(...)\<close> followed by a test of \<open>err\<close>.\<close>

lemma conn_ok_send:
  assumes "\<And>e. is_ftpError e \<Longrightarrow> Q (Inl e)" and "\<And>code msg. conn_ok F (f code msg) Q"
  shows "conn_ok F (seq (sendCommand net x as) (\<lambda>(code, msg, err).
     case err of Some e \<Rightarrow> ret (Inl e) | None \<Rightarrow> f code msg)) Q"
  by (rule conn_ok_seq [OF conn_ok_ctl [OF ctl_ok_sendCommand]])
    (use assms in \<open>auto intro!: conn_ok_ret split: option.split\<close>)

text \<open>A digest is a word in lower case.\<close>

definition digest_result :: "goerror + string \<Rightarrow> bool" where
  "digest_result r = (case r of Inl e \<Rightarrow> is_ftpError e
     | Inr d \<Rightarrow> d \<noteq> [] \<and> ToLower d = d \<and> list_all (\<lambda>c. \<not> is_space c) d)"

lemma lower_char_idem [simp]: "lower_char (lower_char c) = lower_char c"
  by (auto simp: lower_char_def)

lemma is_space_lower [simp]: "is_space (lower_char c) = is_space c"
proof -
  have space: "is_space c \<longleftrightarrow> (of_char c :: nat) \<in> {9, 10, 11, 12, 13, 32}" for c
    unfolding is_space_def insert_iff of_char_eq_iff [symmetric, where 'a = nat] by simp
  show ?thesis by (auto simp: space lower_char_def)
qed

lemma Fields_are_words: "d \<in> set (Fields s) \<Longrightarrow> d \<noteq> [] \<and> list_all (\<lambda>c. \<not> is_space c) d"
proof (induction s rule: Fields.induct)
  case (1 s)
  let ?t = "dropWhile is_space s"
  have fields: "Fields s = (if ?t = [] then [] else takeWhile (\<lambda>c. \<not> is_space c) ?t #
      Fields (dropWhile (\<lambda>c. \<not> is_space c) ?t))" by (subst Fields.simps) (simp only: Let_def)
  with 1(2) have t: "?t \<noteq> []" by (metis empty_iff empty_set)
  then have "\<not> is_space (hd ?t)" by (rule hd_dropWhile)
  with t have "takeWhile (\<lambda>c. \<not> is_space c) ?t \<noteq> []" by (simp add: takeWhile_eq_Nil_iff)
  moreover have "list_all (\<lambda>c. \<not> is_space c) (takeWhile (\<lambda>c. \<not> is_space c) ?t)"
    by (auto simp: list_all_iff dest: set_takeWhileD)
  moreover have "d = takeWhile (\<lambda>c. \<not> is_space c) ?t \<or> d \<in> set (Fields (dropWhile (\<lambda>c. \<not> is_space c) ?t))"
    using 1(2) unfolding fields if_not_P [OF t] by (rule set_ConsD)
  ultimately show ?case using 1(1) [OF refl t] by metis
qed

lemma digest_resultI: "d \<in> set (Fields s) \<Longrightarrow> digest_result (Inr (ToLower d))"
  by (auto simp: digest_result_def ToLower_def list_all_iff dest!: Fields_are_words)

lemma hashChecksum_ok: "conn_ok F (hashChecksum net path algorithm) digest_result"
  unfolding hashChecksum_def
  by (intro conn_ok_send)
    (auto simp: Let_def digest_result_def [of "Inl _"] intro!: conn_ok_ret digest_resultI nth_mem)

lemma legacyChecksum_ok: "conn_ok F (legacyChecksum net command path) digest_result"
  unfolding legacyChecksum_def
  by (intro conn_ok_send)
    (auto simp: Let_def digest_result_def [of "Inl _"] intro!: conn_ok_ret digest_resultI last_in_set)

lemma conn_ok_gets: "conn_ok F (gets f) (\<lambda>_. True)"
  by (simp add: conn_ok_def wp_gets)

lemma chosenAlgorithm_error: "chosenAlgorithm as a = Inl e \<Longrightarrow> is_ftpError e"
  by (auto simp: chosenAlgorithm_def split: if_splits)

lemma Checksum_ok: "cl_ok F (Checksum net order path algorithm) digest_result"
  unfolding Checksum_def checksumOn_def
  by (intro withIdle_ok conn_ok_seq [OF conn_ok_gets])
    (auto simp: digest_result_def [of "Inl _"] intro!: conn_ok_ret hashChecksum_ok legacyChecksum_ok
      split: sum.split option.split dest: chosenAlgorithm_error)

lemma ChecksumAlgorithms_ok: "cl_ok F (ChecksumAlgorithms net order) (\<lambda>r. ftpErr (errOf r))"
  unfolding ChecksumAlgorithms_def
  by (intro withIdle_ok conn_ok_seq [OF conn_ok_gets] conn_ok_ret) simp_all

interpretation checksum: terminating_method "Checksum net order path algorithm" digest_result for net order path algorithm
  by unfold_locales (rule Checksum_ok)

interpretation algorithms: terminating_method "ChecksumAlgorithms net order" "\<lambda>r. ftpErr (errOf r)" for net order
  by unfold_locales (rule ChecksumAlgorithms_ok)

text \<open>C23. \<open>Checksum\<close> always answers a caller that is alone with the client: with an \<open>ftpError\<close>, or with one non-empty word in
  lower case, whatever the server sends and whichever command it has. It never panics, the connection goes back to the pool and no socket is
  left behind.\<close>

theorem Checksum_answers:
  assumes "pool_ok L [] [] c"
  shows "\<exists>r c'. Checksum net order path algorithm c = Ret r c' \<and> pool_ok L [] [] c' \<and>
    (case r of Inl e \<Rightarrow> is_ftpError e
     | Inr d \<Rightarrow> d \<noteq> [] \<and> ToLower d = d \<and> list_all (\<lambda>ch. \<not> is_space ch) d)"
  using checksum.returns [OF assms, of net order path algorithm] by (simp add: digest_result_def)

theorem Checksum_answers_witness:
  "\<exists>r c'. Checksum stubbornServer sorted_list_of_set ''a.txt'' [] sampleClient = Ret r c' \<and> pool_ok {} [] [] c' \<and>
    (case r of Inl e \<Rightarrow> is_ftpError e
     | Inr d \<Rightarrow> d \<noteq> [] \<and> ToLower d = d \<and> list_all (\<lambda>ch. \<not> is_space ch) d)"
  by (rule Checksum_answers [OF sampleClient_ok])

end
