(* ===== verification/Dialling.thy ===== *)
theory Dialling
  imports ClientOps Regex
begin

text \<open>
  Creating a client (\<^verbatim>\<open>goftp.go\<close>): the hosts a caller names are turned into addresses with a port, names through the resolver,
  and the client may open its first connection at once. The addresses the resolver gives are bytes, four or sixteen
  of them.
\<close>

section \<open>Hosts and addresses\<close>

definition LookupIP :: "net \<Rightarrow> string \<Rightarrow> (goerror + IP list) io" where
  "LookupIP net name h =
     Ret (case net_lookupIP net h name of Inl e \<Rightarrow> Inl e | Inr ips \<Rightarrow> Inr (map (map of_char) ips)) (EvResolve name # h)"

definition hostWithPort :: "string \<Rightarrow> string" where
  "hostWithPort given = (if \<not> hasPort given then Sprintf ''[%s]:21'' [AStr given] else given)"

definition ipAndPort :: "IP \<Rightarrow> string \<Rightarrow> string" where
  "ipAndPort ip port = Sprintf ''[%s]:%s'' [AStr (ipString ip), AStr port]"

definition isOnlyIPv6 :: "bool \<Rightarrow> IP \<Rightarrow> bool" where
  "isOnlyIPv6 ipv6Lookup ip \<longleftrightarrow> To4 ip = None \<and> \<not> ipv6Lookup"

text \<open>The loop over the hosts, with the two lists it appends to.\<close>

fun expandHosts :: "net \<Rightarrow> bool \<Rightarrow> string list \<Rightarrow> string list \<Rightarrow> string list \<Rightarrow> (goerror + string list \<times> string list) io" where
  "expandHosts net ipv6Lookup [] out ipv6 = ret (Inr (out, ipv6))"
| "expandHosts net ipv6Lookup (given # hs) out ipv6 =
     (let addr = hostWithPort given
      in case SplitHostPort addr of
           Inl _ \<Rightarrow> ret (Inl (Errorf ''invalid host \"%s\"'' [AStr given]))
         | Inr (hostnameOrIP, port) \<Rightarrow>
             if ParseIP hostnameOrIP \<noteq> None then expandHosts net ipv6Lookup hs (out @ [addr]) ipv6
             else
               seq (LookupIP net hostnameOrIP) (\<lambda>r.
               case r of
                 Inl e \<Rightarrow> ret (Inl (Errorf ''error resolving host \"%s\": %s'' [AStr hostnameOrIP, AErr e]))
               | Inr ips \<Rightarrow>
                   expandHosts net ipv6Lookup hs
                     (out @ map (\<lambda>ip. ipAndPort ip port) (filter (\<lambda>ip. \<not> isOnlyIPv6 ipv6Lookup ip) ips))
                     (ipv6 @ map (\<lambda>ip. ipAndPort ip port) (filter (isOnlyIPv6 ipv6Lookup) ips))))"

definition lookupHosts :: "net \<Rightarrow> string list \<Rightarrow> bool \<Rightarrow> (goerror + string list) io" where
  "lookupHosts net hs ipv6Lookup =
     (if hs = [] then ret (Inl (Errorf ''must specify at least one host'' []))
      else
        seq (expandHosts net ipv6Lookup hs [] []) (\<lambda>r.
        case r of
          Inl e \<Rightarrow> ret (Inl e)
        | Inr (out, ipv6) \<Rightarrow> if out = [] \<and> ipv6 \<noteq> [] then ret (Inr ipv6) else ret (Inr out)))"

section \<open>The client\<close>

text \<open>Work on a client that is being made, in the world as it is.\<close>

definition onClientOf :: "client \<Rightarrow> ('a, client) go \<Rightarrow> ('a \<times> client) io" where
  "onClientOf c m h =
     (case m (c\<lparr>chist := h\<rparr>) of Ret a c' \<Rightarrow> Ret (a, c') (chist c') | Abn e c' \<Rightarrow> Abn e (chist c'))"

definition eagerConnect :: "net \<Rightarrow> (nat set \<Rightarrow> nat list) \<Rightarrow> (goerror option, client) go" where
  "eagerConnect net order =
     seq (getIdleConn net) (\<lambda>r.
     case r of
       Inl e \<Rightarrow> seq (Close net order) (\<lambda>_. ret (Some e))
     | Inr p \<Rightarrow> seq (returnConn p) (\<lambda>_. ret None))"

definition DialConfig :: "net \<Rightarrow> (nat set \<Rightarrow> nat list) \<Rightarrow> Config \<Rightarrow> string list \<Rightarrow> (goerror + client) io" where
  "DialConfig net order cfg hs =
     seq (lookupHosts net hs (IPv6Lookup cfg)) (\<lambda>r.
     case r of
       Inl e \<Rightarrow> ret (Inl e)
     | Inr expandedHosts \<Rightarrow>
         seq (onClientOf (newClient cfg expandedHosts [])
           (if EagerConnect cfg then eagerConnect net order else ret None)) (\<lambda>(err, c).
         case err of Some e \<Rightarrow> ret (Inl e) | None \<Rightarrow> ret (Inr c)))"

definition Dial :: "net \<Rightarrow> (nat set \<Rightarrow> nat list) \<Rightarrow> string list \<Rightarrow> (goerror + client) io" where
  "Dial net order hs = DialConfig net order zeroConfig hs"

section \<open>What the addresses are\<close>

text \<open>
  The addresses of one host, each with whether it waits for want of a better one, when the resolver answers
  \<open>dns\<close>.
\<close>

definition addressesOf :: "(string \<Rightarrow> goerror + string list) \<Rightarrow> bool \<Rightarrow> string \<Rightarrow> (bool \<times> string) list option" where
  "addressesOf dns ipv6Lookup given =
     (case SplitHostPort (hostWithPort given) of
        Inl _ \<Rightarrow> None
      | Inr (name, port) \<Rightarrow>
          if ParseIP name \<noteq> None then Some [(False, hostWithPort given)]
          else (case dns name of
                  Inl _ \<Rightarrow> None
                | Inr ips \<Rightarrow> Some (map (\<lambda>bs. let ip = map of_char bs in (isOnlyIPv6 ipv6Lookup ip, ipAndPort ip port)) ips)))"

definition preferred :: "(bool \<times> string) list \<Rightarrow> string list" where
  "preferred cs = (if list_all fst cs then map snd cs else map snd (filter (\<lambda>c. \<not> fst c) cs))"

lemma expandHosts_eq:
  assumes "\<And>h name. net_lookupIP net h name = dns name"
  shows "case those (map (addressesOf dns ipv6ok) hs) of
      None \<Rightarrow> \<exists>e h'. expandHosts net ipv6ok hs out ipv6 h = Ret (Inl e) h' \<and> live h' = live h
    | Some css \<Rightarrow> \<exists>h'. expandHosts net ipv6ok hs out ipv6 h =
        Ret (Inr (out @ map snd (filter (\<lambda>c. \<not> fst c) (concat css)), ipv6 @ map snd (filter fst (concat css)))) h' \<and> live h' = live h"
proof (induction hs arbitrary: out ipv6 h)
  case (Cons given hs)
  show ?case
  proof (cases "SplitHostPort (hostWithPort given)")
    case (Inr np)
    obtain name port where np: "np = (name, port)" by (cases np)
    show ?thesis
    proof (cases "ParseIP name = None")
      case True
      show ?thesis
      proof (cases "dns name")
        case (Inr ips)
        have part: "map (\<lambda>ip. ipAndPort ip port) (filter P (map (map of_char) ips)) =
            map snd (filter (\<lambda>c. Q (fst c)) (map (\<lambda>bs. (isOnlyIPv6 ipv6ok (map of_char bs), ipAndPort (map of_char bs) port)) ips))"
          if "\<And>ip. P ip = Q (isOnlyIPv6 ipv6ok ip)" for P Q
          by (simp add: filter_map o_def that)
        show ?thesis
          using Cons.IH [of "out @ map (\<lambda>ip. ipAndPort ip port) (filter (\<lambda>ip. \<not> isOnlyIPv6 ipv6ok ip) (map (map of_char) ips))"
              "ipv6 @ map (\<lambda>ip. ipAndPort ip port) (filter (isOnlyIPv6 ipv6ok) (map (map of_char) ips))" "EvResolve name # h"]
            True Inr \<open>SplitHostPort _ = Inr np\<close> np assms part [of "\<lambda>ip. \<not> isOnlyIPv6 ipv6ok ip" Not] part [of "isOnlyIPv6 ipv6ok" "\<lambda>x. x"]
          by (auto simp: addressesOf_def seq_def LookupIP_def Let_def split: option.splits)
      qed (use True \<open>SplitHostPort _ = Inr np\<close> np assms in \<open>auto simp: addressesOf_def seq_def LookupIP_def ret_def\<close>)
    next
      case False
      with Cons.IH [of "out @ [hostWithPort given]" ipv6 h] Inr np show ?thesis
        by (auto simp: addressesOf_def Let_def split: option.splits)
    qed
  qed (auto simp: addressesOf_def ret_def Let_def)
qed (simp add: ret_def)

text \<open>C21. \<open>lookupHosts\<close> against its specification, for a resolver that answers the same name the same way: the result is the
  addresses of the hosts in their order, an IPv6 address of a name only when \<open>IPv6Lookup\<close> is set or when there is no
  other address at all; it fails exactly when a host cannot be read or resolved, or when there is none.\<close>

theorem lookupHosts_spec:
  assumes "\<And>h name. net_lookupIP net h name = dns name"
  shows "case those (map (addressesOf dns ipv6ok) hs) of
      Some css \<Rightarrow> hs \<noteq> [] \<longrightarrow> (\<exists>h'. lookupHosts net hs ipv6ok h = Ret (Inr (preferred (concat css))) h')
    | None \<Rightarrow> \<exists>e h'. lookupHosts net hs ipv6ok h = Ret (Inl e) h'"
proof (cases "those (map (addressesOf dns ipv6ok) hs)")
  case None
  with expandHosts_eq [OF assms, of ipv6ok hs "[]" "[]" h] show ?thesis
    by (auto simp: lookupHosts_def seq_def ret_def)
next
  case (Some css)
  have "preferred (concat css) = (let out = map snd (filter (\<lambda>c. \<not> fst c) (concat css)); ipv6 = map snd (filter fst (concat css))
      in if out = [] \<and> ipv6 \<noteq> [] then ipv6 else out)"
    by (auto simp: preferred_def Let_def filter_empty_conv list_all_iff intro: filter_True [THEN arg_cong])
  with Some expandHosts_eq [OF assms, of ipv6ok hs "[]" "[]" h] show ?thesis
    by (auto simp: lookupHosts_def seq_def ret_def Let_def)
qed

definition sampleDNS :: "string \<Rightarrow> goerror + string list" where
  "sampleDNS name = (if name = ''ftp.example'' then
     Inr [map char_of (replicate 15 0 @ [1 :: nat]), map char_of [192, 0, 2, 7 :: nat]] else Inl (LibError ''no such host''))"

definition resolving :: "(string \<Rightarrow> string list) \<Rightarrow> net" where
  "resolving script = (scripted script [])\<lparr>net_lookupIP := (\<lambda>_. sampleDNS)\<rparr>"

theorem lookupHosts_spec_witness:
  "\<exists>h'. lookupHosts (resolving (\<lambda>_. [])) [''10.0.0.9'', ''ftp.example:2121''] False [] =
     Ret (Inr [''[10.0.0.9]:21'', ''[192.0.2.7]:2121'']) h'"
proof -
  have css: "those (map (addressesOf sampleDNS False) [''10.0.0.9'', ''ftp.example:2121'']) =
      Some [[(False, ''[10.0.0.9]:21'')], [(True, ''[::1]:2121''), (False, ''[192.0.2.7]:2121'')]]" by code_simp
  show ?thesis
    using lookupHosts_spec [where net = "resolving (\<lambda>_. [])" and dns = sampleDNS and ipv6ok = False
      and hs = "[''10.0.0.9'', ''ftp.example:2121'']" and h = "[]"]
    unfolding css option.case by (simp add: preferred_def resolving_def)
qed

section \<open>The port\<close>

lemma greedy_split: "greedy p s k = Some v \<Longrightarrow> \<exists>a b. s = a @ b \<and> list_all p a \<and> k b = Some v"
proof (induction p s k rule: greedy.induct)
  case (2 p c t k)
  show ?case
  proof (cases "p c \<and> greedy p t k = Some v")
    case True
    with 2 obtain a b where "t = a @ b" "list_all p a" "k b = Some v" by blast
    with True show ?thesis by (intro exI [of _ "c # a"] exI [of _ b]) simp
  next
    case False
    with 2(2) have "k (c # t) = Some v" by (auto split: if_splits option.splits)
    then show ?thesis by (intro exI [of _ "[]"] exI [of _ "c # t"]) simp
  qed
qed simp

lemma match_Plus_split:
  assumes "match (Plus p) s cs k = Some v"
  shows "\<exists>a b. s = a @ b \<and> a \<noteq> [] \<and> list_all p a \<and> k b cs = Some v"
proof -
  from assms obtain c t where s: "s = c # t" "p c" "greedy p t (\<lambda>s'. k s' cs) = Some v"
    by (auto split: list.splits if_splits)
  from greedy_split [OF s(3)] obtain a b where "t = a @ b" "list_all p a" "k b cs = Some v" by blast
  with s show ?thesis by (intro exI [of _ "c # a"] exI [of _ b]) simp
qed

lemma lits_split: "lits l s = Some t \<Longrightarrow> s = l @ t"
  by (induction l s rule: lits.induct) (auto split: if_splits)

lemma search_split: "search r s \<longleftrightarrow> (\<exists>a b. s = a @ b \<and> match r b [] (\<lambda>_ cs. Some cs) \<noteq> None)"
proof (induction r s rule: search.induct)
  case (2 r c t)
  then show ?case by (auto simp: Cons_eq_append_conv)
qed simp

text \<open>\<open>hasPort\<close> in words: one colon with something before it, or a closing bracket and a colon, and then digits to the end.\<close>

definition all_digits :: "string \<Rightarrow> bool" where
  "all_digits d \<longleftrightarrow> d \<noteq> [] \<and> list_all is_digit d"

lemma match_port: "match (Then (Lit l) (Then (Plus is_digit) EndText)) s cs k \<noteq> None \<longleftrightarrow>
    (\<exists>d. s = l @ d \<and> all_digits d \<and> k [] cs \<noteq> None)" (is "?L \<longleftrightarrow> ?R")
proof
  assume ?L
  then obtain t v where "s = l @ t" "match (Plus is_digit) t cs (\<lambda>s' cs'. match EndText s' cs' k) = Some v"
    by (auto split: option.splits dest!: lits_split simp del: match.simps(1) simp: match.simps(4,5))
  from this(1) match_Plus_split [OF this(2)] show ?R by (auto simp: all_digits_def split: if_splits)
next
  assume ?R
  then obtain d v where d: "s = l @ d" "all_digits d" "k [] cs = Some v" by auto
  then have "match (Plus is_digit) (d @ []) cs (\<lambda>s' cs'. match EndText s' cs' k) = Some v"
    by (intro match_Plus) (simp_all add: all_digits_def)
  with d(1) show ?L by simp
qed

lemma hasPort_iff:
  "hasPort s \<longleftrightarrow> (\<exists>a d. a \<noteq> [] \<and> colon \<notin> set a \<and> all_digits d \<and> s = a @ '':'' @ d) \<or>
     (\<exists>a d. all_digits d \<and> s = a @ '']:'' @ d)"
proof -
  let ?k = "\<lambda>_ cs. Some cs" and ?p = "\<lambda>c. c \<noteq> colon"
  let ?r = "Then (Lit '':'') (Then (Plus is_digit) EndText)"
  have "match (Then (Plus ?p) ?r) s [] ?k \<noteq> None \<longleftrightarrow>
      (\<exists>a d. a \<noteq> [] \<and> colon \<notin> set a \<and> all_digits d \<and> s = a @ '':'' @ d)" (is "?L \<longleftrightarrow> ?R")
  proof
    assume ?L
    then obtain v where "match (Plus ?p) s [] (\<lambda>s' cs'. match ?r s' cs' ?k) = Some v"
      by (auto simp del: match.simps(1) simp: match.simps(5))
    from match_Plus_split [OF this] obtain a b
      where ab: "s = a @ b" "a \<noteq> []" "list_all ?p a" "match ?r b [] ?k \<noteq> None" by auto
    from ab(4) [unfolded match_port] obtain d where "b = '':'' @ d" "all_digits d" by blast
    moreover from ab(3) have "colon \<notin> set a" by (auto simp: list_all_iff)
    ultimately show ?R using ab by auto
  next
    assume ?R
    then obtain a d where d: "a \<noteq> []" "colon \<notin> set a" "all_digits d" "s = a @ '':'' @ d" by blast
    then have "match ?r ('':'' @ d) [] ?k \<noteq> None" unfolding match_port by blast
    then obtain v where v: "match ?r ('':'' @ d) [] ?k = Some v" by blast
    have "match (Then (Plus ?p) ?r) (a @ '':'' @ d) [] ?k = Some v"
      by (rule match_then_Plus [OF v d(1)]) (use d(2) in \<open>auto simp: list_all_iff\<close>)
    with d(4) show ?L by simp
  qed
  then show ?thesis unfolding hasPort_def search_split match_port by blast
qed

lemma SplitHostPort_brackets:
  assumes "set name \<inter> {lbracket, rbracket} = {}" "set port \<inter> {colon, lbracket, rbracket} = {}"
  shows "SplitHostPort (''['' @ name @ '']:'' @ port) = Inr (name, port)"
proof -
  define s where "s = ''['' @ name @ '']:'' @ port"
  have "LastIndex ((''['' @ name @ '']'') @ colon # port) [colon] = int (length (''['' @ name @ '']''))"
    using assms by (intro LastIndex_char) auto
  then have last: "LastIndex s '':'' = int (length name) + 2" by (simp add: s_def)
  have "Index ((''['' @ name) @ rbracket # (colon # port)) [rbracket] = int (length (''['' @ name))"
    using assms by (intro Index_char) auto
  then have first: "Index s '']'' = int (length name) + 1" by (simp add: s_def)
  have "hd s = lbracket" "length s = length name + 3 + length port"
    "drop (nat (3 + int (length name))) s = port" "drop (nat (2 + int (length name))) s = colon # port"
    "take (length name) (drop (Suc 0) s) = name" "tl s = name @ '']:'' @ port"
    by (simp_all add: s_def nat_add_distrib numeral_3_eq_3)
  then have "SplitHostPort s = Inr (name, port)"
    unfolding SplitHostPort_def Let_def last first using assms by (simp add: GoStrings.slice_def)
  then show ?thesis by (simp only: s_def)
qed

lemma digits_no_sep: "all_digits d \<Longrightarrow> set d \<inter> {colon, lbracket, rbracket} = {}"
  by (auto simp: all_digits_def list_all_iff is_digit_def)

text \<open>C26. The port of a host. A name or address without brackets that does not end in a port gets port 21, and this includes an
  IPv6 address with its colons; \<^verbatim>\<open>name:port\<close> and \<^verbatim>\<open>[address]:port\<close> keep their port. In each case the address that is dialled
  splits into exactly these two parts.\<close>

theorem hostWithPort_splits:
  assumes "set name \<inter> {lbracket, rbracket} = {}"
  shows "(\<not> hasPort name \<longrightarrow> SplitHostPort (hostWithPort name) = Inr (name, ''21'')) \<and>
    (all_digits port \<longrightarrow> SplitHostPort (hostWithPort (''['' @ name @ '']:'' @ port)) = Inr (name, port)) \<and>
    (all_digits port \<and> name \<noteq> [] \<and> colon \<notin> set name \<longrightarrow>
       SplitHostPort (hostWithPort (name @ '':'' @ port)) = Inr (name, port)) \<and>
    (colon \<notin> set name \<or> (\<exists>a b d. name = a @ '':'' @ b @ '':'' @ d) \<longrightarrow> \<not> hasPort name)"
proof (intro conjI impI)
  assume "\<not> hasPort name"
  then have "hostWithPort name = ''['' @ name @ '']:'' @ ''21''"
    by (simp add: hostWithPort_def Sprintf_def fmt_arg_def)
  then show "SplitHostPort (hostWithPort name) = Inr (name, ''21'')"
    using SplitHostPort_brackets [OF assms, of "''21''"] by simp
next
  assume "all_digits port"
  then have "hasPort (''['' @ name @ '']:'' @ port)" unfolding hasPort_iff by (metis append_assoc)
  then show "SplitHostPort (hostWithPort (''['' @ name @ '']:'' @ port)) = Inr (name, port)"
    using SplitHostPort_brackets [OF assms digits_no_sep [OF \<open>all_digits port\<close>]] by (simp add: hostWithPort_def)
next
  assume p: "all_digits port \<and> name \<noteq> [] \<and> colon \<notin> set name"
  then have "hasPort (name @ '':'' @ port)" unfolding hasPort_iff by blast
  then show "SplitHostPort (hostWithPort (name @ '':'' @ port)) = Inr (name, port)"
    using SplitHostPort_JoinHostPort [OF assms digits_no_sep [of port]] p by (simp add: hostWithPort_def JoinHostPort_def)
next
  assume c: "colon \<notin> set name \<or> (\<exists>a b d. name = a @ '':'' @ b @ '':'' @ d)"
  show "\<not> hasPort name"
  proof
    assume "hasPort name"
    with assms obtain a d where a: "colon \<notin> set a" "all_digits d" "name = a @ colon # d" unfolding hasPort_iff by auto
    then have "filter (\<lambda>x. x = colon) a = []" "filter (\<lambda>x. x = colon) d = []"
      using digits_no_sep [OF a(2)] by (auto simp: filter_empty_conv)
    with a(3) have one: "filter (\<lambda>x. x = colon) name = [colon]" and "colon \<in> set name" by simp_all
    with c obtain x y z where "name = x @ '':'' @ y @ '':'' @ z" by blast
    from one [unfolded this] show False by simp
  qed
qed

theorem hostWithPort_splits_witness:
  "SplitHostPort (hostWithPort ''fe80::1'') = Inr (''fe80::1'', ''21'') \<and>
   SplitHostPort (hostWithPort ''[fe80::1]:2121'') = Inr (''fe80::1'', ''2121'')"
proof -
  have "set ''fe80::1'' \<inter> {lbracket, rbracket} = {}" "all_digits ''2121''" by (simp_all add: all_digits_def is_digit_def)
  moreover have "''fe80::1'' = ''fe80'' @ '':'' @ [] @ '':'' @ ''1''" by simp
  ultimately show ?thesis using hostWithPort_splits [of "''fe80::1''" "''2121''"] by (metis append_Cons append_Nil)
qed

section \<open>The client is ready or nothing is left\<close>

lemma wp_onClientOf:
  "wp (onClientOf c m) Q E h = wp m (\<lambda>a c'. Q (a, c') (chist c')) (\<lambda>e c'. E e (chist c')) (c\<lparr>chist := h\<rparr>)"
  by (simp add: wp_def onClientOf_def split: out.split)

lemma wp_LookupIP [wp_simps]:
  "wp (LookupIP net name) Q E h =
     Q (case net_lookupIP net h name of Inl e \<Rightarrow> Inl e | Inr ips \<Rightarrow> Inr (map (map of_char) ips)) (EvResolve name # h)"
  by (simp add: LookupIP_def wp_def)

lemma expandHosts_ok:
  assumes "[] \<notin> set out" "[] \<notin> set ipv6"
  shows "wp (expandHosts net ipv6ok hs out ipv6) (\<lambda>r h'. live h' = live h \<and>
     (\<forall>as bs. r = Inr (as, bs) \<longrightarrow> [] \<notin> set as \<and> [] \<notin> set bs)) never h"
  using assms
proof (induction hs arbitrary: out ipv6 h)
  case (Cons given hs)
  have ip: "ipAndPort ip port \<noteq> []" for ip port by (simp add: ipAndPort_def Sprintf_def)
  have ne: "hostWithPort given \<noteq> []" if "SplitHostPort (hostWithPort given) = Inr np" for np
    using that by (auto simp: SplitHostPort_def)
  have next_host: "wp (expandHosts net ipv6ok hs out' ipv6') (\<lambda>r h''. live h'' = live h \<and>
      (\<forall>as bs. r = Inr (as, bs) \<longrightarrow> [] \<notin> set as \<and> [] \<notin> set bs)) never h'"
    if "[] \<notin> set out'" "[] \<notin> set ipv6'" "live h' = live h" for out' ipv6' h'
    using Cons.IH [OF that(1,2), of h'] that(3) by simp
  show ?case
    by (auto simp: Let_def wp_seq wp_ret wp_LookupIP intro!: next_host split: sum.split)
      (use Cons.prems ne ip ip [symmetric] in auto)
qed (simp add: wp_ret)

lemma lookupHosts_ok:
  "wp (lookupHosts net hs ipv6ok) (\<lambda>r h'. live h' = live h \<and> (\<forall>as. r = Inr as \<longrightarrow> [] \<notin> set as)) never h"
  unfolding lookupHosts_def
  by (auto simp: wp_ret wp_seq intro!: wp_mono [OF expandHosts_ok] split: sum.split)

text \<open>The first connection of a new client: nothing is free and no slot is taken, so that a connection is opened.\<close>

lemma openSlot_frame:
  "wp (openSlot net) (\<lambda>r c'. freeConnCh c' = freeConnCh c \<and> closed c' = closed c \<and> hosts c' = hosts c \<and>
     (\<forall>e. r = Inl e \<longrightarrow> allCons c' = allCons c \<and> live (chist c') = live (chist c))) (\<lambda>_ _. True) c"
proof -
  have slot: "wp reserveSlot (\<lambda>_ c'. freeConnCh c' = freeConnCh c \<and> closed c' = closed c \<and> hosts c' = hosts c \<and> allCons c' = allCons c \<and>
      chist c' = chist c) (\<lambda>_ _. True) c"
    by (simp add: reserveSlot_def wp_simps Let_def)
  show ?thesis
    unfolding openSlot_def wp_seq
  proof (rule wp_mono [OF slot], goal_cases)
    case (1 ih c1)
    show ?case
      unfolding wp_case_prod wp_seq [of "openConn net _ _"]
      by (cases ih, simp, rule wp_mono [OF openConn_contract])
        (use 1 in \<open>auto simp: opened_conn_def open_frame_def wp_simps split: sum.splits\<close>)
  qed simp
qed

lemma getIdleConn_fresh: "freeConnCh c = [] \<Longrightarrow> canOpen c \<Longrightarrow> getIdleConn net c = openSlot net c"
  by (simp add: getIdleConn_def seq_def gets_def ret_def drainFree.simps waitFree.simps)

lemma eagerConnect_ok:
  assumes ok: "pool_ok L [] [] c" and fresh: "freeConnCh c = []" "allCons c = Map.empty"
    and order: "\<And>S. finite S \<Longrightarrow> set (order S) = S"
  shows "wp (eagerConnect net order) (\<lambda>r c'. hosts c' = hosts c \<and> (case r of
      None \<Rightarrow> pool_ok L [] [] c' \<and> length (freeConnCh c') = 1
    | Some e \<Rightarrow> is_ftpError e \<and> live (chist c') = live (chist c))) never c"
proof -
  have room: "canOpen c"
    using not_stuck [of L c] ok fresh by (simp add: stuck_def)
  have empty: "order {} = []" using order [of "{}"] by simp
  have "wp (getIdleConn net) (\<lambda>r c'. got_conn L [] [] r c' \<and> freeConnCh c' = [] \<and> hosts c' = hosts c \<and>
      (\<forall>e. r = Inl e \<longrightarrow> allCons c' = Map.empty \<and> live (chist c') = live (chist c))) never c"
    unfolding wp_def getIdleConn_fresh [OF fresh(1) room]
    using openSlot_ok [OF ok room, of net] openSlot_frame [of net c] fresh
    by (auto simp: wp_def split: out.splits)
  then show ?thesis
    unfolding eagerConnect_def wp_seq
  proof (rule wp_mono, goal_cases)
    case (1 r c1)
    show ?case
    proof (cases r)
      case (Inl e)
      with 1 empty show ?thesis
        by (auto simp: Close_def wp_simps got_conn_def)
    next
      case (Inr p)
      with 1 have p: "pool_ok L [] [p] c1" "freeConnCh c1 = []" "hosts c1 = hosts c" by (auto simp: got_conn_def)
      have "wp (returnConn p) (\<lambda>_ c'. hosts c' = hosts c \<and> pool_ok L [] [] c' \<and> freeConnCh c' = [p]) never c1"
        using returnConn_ok [OF p(1)] p(2,3) by (auto simp: returnConn_def wp_simps split: if_splits)
      then show ?thesis
        unfolding Inr sum.case wp_seq wp_ret by (rule wp_mono) simp_all
    qed
  qed simp
qed

text \<open>C20. \<open>DialConfig\<close> with hosts that expand to distinct addresses always returns. A client it returns has its pool in order and the
  addresses as its hosts; with \<open>EagerConnect\<close> exactly one connection waits in the pool, otherwise none. When the
  first connection fails, the error is an \<open>ftpError\<close> and no socket is left open.\<close>

theorem DialConfig_ready:
  assumes look: "lookupHosts net hs (IPv6Lookup cfg) h = Ret (Inr addrs) h1"
    and addrs: "distinct addrs" "addrs \<noteq> []"
    and order: "\<And>S. finite S \<Longrightarrow> set (order S) = S"
  shows "case DialConfig net order cfg hs h of
      Ret (Inr c) h' \<Rightarrow> pool_ok (live h) [] [] c \<and> hosts c = addrs \<and> chist c = h' \<and>
        length (freeConnCh c) = (if EagerConnect cfg then 1 else 0)
    | Ret (Inl e) h' \<Rightarrow> EagerConnect cfg \<and> is_ftpError e \<and> live h' = live h
    | Abn _ _ \<Rightarrow> False"
proof -
  have h1: "live h1 = live h" "[] \<notin> set addrs" using wp_RetD [OF lookupHosts_ok look] by auto
  let ?c = "newClient cfg addrs h1"
  have ok: "pool_ok (live h) [] [] ?c" using newClient_ok [OF addrs(1) h1(2) addrs(2)] h1(1) by simp
  have c: "(newClient cfg addrs [])\<lparr>chist := h1\<rparr> = ?c" by (simp add: newClient_def)
  have fresh: "freeConnCh ?c = []" "allCons ?c = Map.empty" "chist ?c = h1" "hosts ?c = addrs"
    by (simp_all add: newClient_def)
  have eager: "wp (eagerConnect net order) (\<lambda>r c'. hosts c' = addrs \<and> (case r of
      None \<Rightarrow> pool_ok (live h) [] [] c' \<and> length (freeConnCh c') = 1
    | Some e \<Rightarrow> is_ftpError e \<and> live (chist c') = live h)) never ?c"
    using eagerConnect_ok [OF ok fresh(1,2) order, of net] fresh(3) h1(1) by (simp add: newClient_def cong: option.case_cong)
  let ?Q = "\<lambda>r h'. case r of
      Inr c \<Rightarrow> pool_ok (live h) [] [] c \<and> hosts c = addrs \<and> chist c = h' \<and>
        length (freeConnCh c) = (if EagerConnect cfg then 1 else 0)
    | Inl e \<Rightarrow> EagerConnect cfg \<and> is_ftpError e \<and> live h' = live h"
  have rest: "wp (onClientOf (newClient cfg addrs []) (if EagerConnect cfg then eagerConnect net order else ret None))
      (\<lambda>x. wp (case x of (err, c) \<Rightarrow> case err of Some e \<Rightarrow> ret (Inl e) | None \<Rightarrow> ret (Inr c)) ?Q never) never h1"
    unfolding wp_onClientOf c
    using ok fresh by (auto simp: wp_ret intro!: wp_mono [OF eager] split: option.splits)
  have "wp (lookupHosts net hs (IPv6Lookup cfg)) (\<lambda>r h'. r = Inr addrs \<and> h' = h1) never h"
    by (simp add: wp_def look)
  then have "wp (DialConfig net order cfg hs) ?Q never h"
    unfolding DialConfig_def wp_seq [of "lookupHosts _ _ _"]
  proof (rule wp_mono, goal_cases)
    case (1 r h')
    with rest show ?case by (simp only: sum.case wp_seq)
  qed
  then show ?thesis by (auto simp: wp_def split: out.splits sum.splits)
qed

theorem DialConfig_ready_witness:
  "case DialConfig (resolving (\<lambda>_. [''220 ready''])) sorted_list_of_set (zeroConfig\<lparr>EagerConnect := True\<rparr>) [''ftp.example''] [] of
      Ret (Inr c) h' \<Rightarrow> pool_ok (live []) [] [] c \<and> hosts c = [''[192.0.2.7]:21''] \<and> chist c = h' \<and>
        length (freeConnCh c) = (if EagerConnect (zeroConfig\<lparr>EagerConnect := True\<rparr>) then 1 else 0)
    | Ret (Inl e) h' \<Rightarrow> EagerConnect (zeroConfig\<lparr>EagerConnect := True\<rparr>) \<and> is_ftpError e \<and> live h' = live []
    | Abn _ _ \<Rightarrow> False"
proof -
  have "wp (lookupHosts (resolving (\<lambda>_. [''220 ready''])) [''ftp.example''] (IPv6Lookup (zeroConfig\<lparr>EagerConnect := True\<rparr>)))
      (\<lambda>r _. r = Inr [''[192.0.2.7]:21'']) never []" by code_simp
  then obtain h1 where "lookupHosts (resolving (\<lambda>_. [''220 ready''])) [''ftp.example''] (IPv6Lookup (zeroConfig\<lparr>EagerConnect := True\<rparr>)) [] =
      Ret (Inr [''[192.0.2.7]:21'']) h1" by (auto dest: wp_never_returns)
  from DialConfig_ready [OF this, of sorted_list_of_set] show ?thesis by simp
qed

section \<open>Connections outside the pool\<close>

text \<open>The exported interface \<open>RawConn\<close> of a connection. The abort of a prepared data connection is not handed out.\<close>

definition RawSendCommand :: "net \<Rightarrow> string \<Rightarrow> goarg list \<Rightarrow> (int \<times> string \<times> goerror option, pworld) go" where
  "RawSendCommand net f as = sendCommand net f as"

definition RawPrepareDataConn :: "net \<Rightarrow> (goerror + prepared, pworld) go" where
  "RawPrepareDataConn net = prepareDataConn net"

definition RawReadResponse :: "net \<Rightarrow> (int \<times> string \<times> goerror option, pworld) go" where
  "RawReadResponse net = readResponse net"

definition RawClose :: "net \<Rightarrow> (goerror option, pworld) go" where
  "RawClose net = close net"

text \<open>C25. A raw connection is outside the pool: opening one leaves the counts, the channel and the map of all connections as
  they were, so the pool stays in order for everyone else and the connection does not count against \<open>ConnectionsPerHost\<close>.
  Hosts are taken in turn. The connection is new, nobody else has it, it is usable, and closing it closes its sockets and no
  others.\<close>

theorem OpenRawConn_outside_pool:
  assumes ok: "pool_ok L pend held c" and idx: "0 \<le> rawConnIdx c"
  shows "\<exists>r c'. OpenRawConn net c = Ret r c' \<and>
    numConnsPerHost c' = numConnsPerHost c \<and> freeConnCh c' = freeConnCh c \<and> allCons c' = allCons c \<and>
    rawConnIdx c' = rawConnIdx c + 1 \<and>
    (case r of
       Inl e \<Rightarrow> is_ftpError e \<and> pool_ok L pend held c'
     | Inr p \<Rightarrow> p \<notin> set (freeConnCh c' @ held) \<and> pool_ok (L \<union> conn_socks (heap c' p)) pend held c' \<and>
         host (heap c' p) = hosts c ! (nat (rawConnIdx c) mod length (hosts c)) \<and> idx (heap c' p) < 0 \<and>
         usable \<lparr>pconn = heap c' p, hist = chist c'\<rparr> \<and>
         (\<exists>err w'. RawClose net \<lparr>pconn = heap c' p, hist = chist c'\<rparr> = Ret err w' \<and> live (hist w') = live (chist c)))"
proof -
  let ?i = "- (rawConnIdx c + 1)" and ?h = "hosts c ! (nat (rawConnIdx c) mod length (hosts c))"
  let ?c = "c\<lparr>rawConnIdx := rawConnIdx c + 1\<rparr>"
  have "pool_ok L pend held ?c = pool_ok L pend held c"
    by (simp add: pool_ok_def pool_inv_def units_def numConns_def conns_ok_def hosts_ok_def no_leak_def)
  with ok have c: "pool_ok L pend held ?c" by simp
  obtain r c' where run: "openConn net ?i ?h ?c = Ret r c'" and op: "opened_conn ?c ?i ?h r c'"
    using wp_never_returns [OF openConn_contract] by blast
  have raw: "OpenRawConn net c = Ret r c'"
    using run pool_ok_hosts [OF ok] by (simp add: OpenRawConn_def seq_def gets_def modify_def hosts_ok_def Let_def)
  have frame: "open_frame ?c c'" using op by (simp add: opened_conn_def)
  have opened: "p \<notin> set (freeConnCh c' @ held) \<and> pool_ok (L \<union> conn_socks (heap c' p)) pend held c' \<and>
         host (heap c' p) = ?h \<and> idx (heap c' p) < 0 \<and> usable \<lparr>pconn = heap c' p, hist = chist c'\<rparr> \<and>
         (\<exists>err w'. RawClose net \<lparr>pconn = heap c' p, hist = chist c'\<rparr> = Ret err w' \<and> live (hist w') = live (chist c))"
    if r: "r = Inr p" for p
  proof (intro conjI)
    from op r have p: "p = nextRef c" "idx (heap c' p) = ?i" "host (heap c' p) = ?h" "controlConn (heap c' p) \<noteq> None"
      "config (heap c' p) = clConfig c" "live (chist c') - conn_socks (heap c' p) = live (chist c)"
      by (auto simp: opened_conn_def)
    show "p \<notin> set (freeConnCh c' @ held)"
      using pool_refs [OF pool_ok_inv [OF ok]] frame p(1) by (auto simp: open_frame_def)
    note fr = open_frame_ok [OF c frame]
    have "no_leak (L \<union> conn_socks (heap c' p)) held c'"
      using pool_ok_leak [OF c] fr(4) frame p(6) by (fastforce simp: no_leak_def open_frame_def)
    with fr show "pool_ok (L \<union> conn_socks (heap c' p)) pend held c'" by (simp add: pool_ok_def)
    show "host (heap c' p) = ?h" "idx (heap c' p) < 0" using p idx by simp_all
    show "usable \<lparr>pconn = heap c' p, hist = chist c'\<rparr>"
      using p pool_ok_conns [OF ok] by (auto simp: usable_def connected_def conns_ok_def)
    show "\<exists>err w'. RawClose net \<lparr>pconn = heap c' p, hist = chist c'\<rparr> = Ret err w' \<and> live (hist w') = live (chist c)"
      using wp_never_returns [OF close_contract [of net "\<lparr>pconn = heap c' p, hist = chist c'\<rparr>"]] p(6)
      by (auto simp: RawClose_def)
  qed
  have "is_ftpError e \<and> pool_ok L pend held c'" if "r = Inl e" for e
    using op that open_failed_ok [OF c frame] by (simp add: opened_conn_def)
  with opened op raw frame idx show ?thesis
    by (intro exI [of _ r] exI [of _ c']) (auto simp: opened_conn_def open_frame_def split: sum.splits)
qed

theorem OpenRawConn_outside_pool_witness:
  "\<exists>r c'. OpenRawConn (scripted (\<lambda>_. [''220 ready'']) []) sampleClient = Ret r c' \<and>
    numConnsPerHost c' = [] \<and> freeConnCh c' = [] \<and> rawConnIdx c' = 1 \<and>
    (\<forall>p. r = Inr p \<longrightarrow> host (heap c' p) = ''10.0.0.2:21'' \<and> idx (heap c' p) < 0)"
proof -
  have idx: "0 \<le> rawConnIdx sampleClient" by (simp add: sampleClient_def newClient_def)
  have ok: "pool_ok {} [] [] sampleClient" by (simp add: sampleClient_def newClient_ok live_def)
  have fields: "numConnsPerHost sampleClient = []" "freeConnCh sampleClient = []" "rawConnIdx sampleClient = 0"
    "hosts sampleClient = [''10.0.0.2:21'', ''10.0.0.3:21'']" by (simp_all add: sampleClient_def newClient_def)
  from OpenRawConn_outside_pool [OF ok idx, of "scripted (\<lambda>_. [''220 ready'']) []"] obtain r c'
    where run: "OpenRawConn (scripted (\<lambda>_. [''220 ready'']) []) sampleClient = Ret r c'"
      "numConnsPerHost c' = []" "freeConnCh c' = []" "rawConnIdx c' = 1"
      "\<And>p. r = Inr p \<Longrightarrow> host (heap c' p) = ''10.0.0.2:21'' \<and> idx (heap c' p) < 0"
    unfolding fields by (fastforce split: sum.splits)
  then show ?thesis by blast
qed

end
