(* ===== verification/PoolSteps.thy ===== *)
theory PoolSteps
  imports ClientOps
begin

text \<open>
  The pool with any number of goroutines. Each goroutine that uses the client is in one of the places of \<open>getIdleConn\<close> and its
  callers where another goroutine can come between (\<open>gor\<close>), and takes one step at a time (\<open>lstep\<close>): a receive from the
  channel, a critical section under the client's lock, opening a connection, work on a connection it holds, giving it back, removing a
  connection. \<open>Close\<close> collects the connections in one critical section and then removes them one by one. A broken connection that was received
  from the channel is no longer counted from the critical section that gives its slot back, although it is closed only after it. The
  steps are the operations of the model of one goroutine; opening and working run against an environment of their own, chosen
  anew at each step, so that they may observe anything.

  The invariant of the pool holds in every reachable state, hence the limits and the exclusive use of a connection hold
  under every interleaving. One goroutine alone takes exactly the steps of \<open>getIdleConn\<close>.
\<close>

section \<open>Goroutines and their steps\<close>

datatype gor =
    AtRest
  | Drain
  | DropDrain nat
  | RemoveDrain nat
  | Check
  | Wait
  | DropWait nat
  | RemoveWait nat
  | Opening int string
  | Release string
  | Hold nat
  | Closing "nat list"
  | Crashed

inductive lstep :: "gor \<Rightarrow> client \<Rightarrow> gor \<Rightarrow> client \<Rightarrow> bool" where
  call: "lstep AtRest c Drain c"
| log: "lstep g c g (c\<lparr>chist := EvLog None f as # chist c\<rparr>)"
| ready: "freeConnCh c = r # rest \<Longrightarrow> \<not> broken (heap c r) \<Longrightarrow> lstep Drain c (Hold r) (c\<lparr>freeConnCh := rest\<rparr>)"
| ready_broken: "freeConnCh c = r # rest \<Longrightarrow> broken (heap c r) \<Longrightarrow> lstep Drain c (DropDrain r) (c\<lparr>freeConnCh := rest\<rparr>)"
| drop_drain: "lstep (DropDrain r) c (RemoveDrain r) (addConns (host (heap c r)) (- 1) c)"
| remove_drain: "removeConn net r c = Ret u c' \<Longrightarrow> lstep (RemoveDrain r) c Drain c'"
| none_ready: "freeConnCh c = [] \<Longrightarrow> lstep Drain c Check c"
| reserve: "canOpen c \<Longrightarrow> reserveSlot c = Ret (k, h) c' \<Longrightarrow> lstep Check c (Opening k h) c'"
| crash: "canOpen c \<Longrightarrow> reserveSlot c = Abn e c' \<Longrightarrow> lstep Check c Crashed c'"
| full: "\<not> canOpen c \<Longrightarrow> lstep Check c Wait c"
| opened: "openConn net k h c = Ret (Inr p) c' \<Longrightarrow> lstep (Opening k h) c (Hold p) c'"
| open_failed: "openConn net k h c = Ret (Inl e) c' \<Longrightarrow> lstep (Opening k h) c (Release h) c'"
| release: "lstep (Release h) c AtRest (addConns h (- 1) c)"
| received: "freeConnCh c = r # rest \<Longrightarrow> \<not> broken (heap c r) \<Longrightarrow> lstep Wait c (Hold r) (c\<lparr>freeConnCh := rest\<rparr>)"
| received_broken: "freeConnCh c = r # rest \<Longrightarrow> broken (heap c r) \<Longrightarrow> lstep Wait c (DropWait r) (c\<lparr>freeConnCh := rest\<rparr>)"
| drop_wait: "lstep (DropWait r) c (RemoveWait r) (addConns (host (heap c r)) (- 1) c)"
| remove_wait: "removeConn net r c = Ret u c' \<Longrightarrow> lstep (RemoveWait r) c Check c'"
| work: "conn_ok F m Q \<Longrightarrow> onConn r m c = Ret (a :: unit) c' \<Longrightarrow> lstep (Hold r) c (Hold r) c'"
| give_back: "returnConn r c = Ret u c' \<Longrightarrow> lstep (Hold r) c AtRest c'"
| close_again: "closed c \<Longrightarrow> lstep AtRest c AtRest c"
| close_start: "\<not> closed c \<Longrightarrow> lstep AtRest c (Closing (order (ran (allCons c)))) (c\<lparr>closed := True\<rparr>)"
| close_next: "removeConn net r c = Ret u c' \<Longrightarrow> lstep (Closing (r # rs)) c (Closing rs) c'"
| close_done: "lstep (Closing []) c AtRest c"

inductive_cases wait_stepE: "lstep Wait c g' c'"

text \<open>The system: the client and its goroutines; one of them takes a step.\<close>

type_synonym sys = "client \<times> gor list"

inductive step :: "nat \<Rightarrow> sys \<Rightarrow> sys \<Rightarrow> bool" where
  step: "i < length gs \<Longrightarrow> lstep (gs ! i) c g' c' \<Longrightarrow> step i (c, gs) (c', gs[i := g'])"

inductive_simps step_simps: "step i (c, gs) s'"

inductive reach :: "sys \<Rightarrow> sys \<Rightarrow> bool" for s0 where
  start: "reach s0 s0"
| move: "reach s0 s \<Longrightarrow> step i s s' \<Longrightarrow> reach s0 s'"

section \<open>Invariants\<close>

locale step_invariant =
  fixes I :: "sys \<Rightarrow> bool"
  assumes preserved: "\<And>i s s'. I s \<Longrightarrow> step i s s' \<Longrightarrow> I s'"
begin

lemma reach_invariant: "reach s0 s \<Longrightarrow> I s0 \<Longrightarrow> I s"
  by (induction rule: reach.induct) (auto intro: preserved)

end

text \<open>What a goroutine holds: a connection, or a slot that is reserved for one.\<close>

fun held_by :: "gor \<Rightarrow> nat list" where
  "held_by (DropDrain r) = [r]"
| "held_by (DropWait r) = [r]"
| "held_by (Hold r) = [r]"
| "held_by _ = []"

fun slot_of :: "gor \<Rightarrow> string list" where
  "slot_of (Opening _ h) = [h]"
| "slot_of (Release h) = [h]"
| "slot_of _ = []"

abbreviation helds :: "gor list \<Rightarrow> nat list" where
  "helds gs \<equiv> concat (map held_by gs)"

abbreviation slots :: "gor list \<Rightarrow> string list" where
  "slots gs \<equiv> concat (map slot_of gs)"

definition others :: "nat \<Rightarrow> gor list \<Rightarrow> gor list" where
  "others i gs = take i gs @ drop (Suc i) gs"

definition sys_inv :: "sys \<Rightarrow> bool" where
  "sys_inv s \<longleftrightarrow> pool_ok UNIV (slots (snd s)) (helds (snd s)) (fst s) \<and> Crashed \<notin> set (snd s)"

lemma pool_ok_perm:
  assumes "pool_ok L pend held c" "mset held' = mset held" "mset pend' = mset pend"
  shows "pool_ok L pend' held' c"
  using assms mset_eq_setD [OF assms(2)]
  by (auto simp: pool_ok_def conns_ok_def no_leak_def intro: pool_inv_perm)

lemma mset_others:
  assumes "i < length gs"
  shows "mset (concat (map f (gs[i := g]))) = mset (f g @ concat (map f (others i gs)))"
    "mset (concat (map f gs)) = mset (f (gs ! i) @ concat (map f (others i gs)))"
proof -
  show "mset (concat (map f (gs[i := g]))) = mset (f g @ concat (map f (others i gs)))" for g
    using assms by (simp add: upd_conv_take_nth_drop others_def)
  from this [of "gs ! i"] show "mset (concat (map f gs)) = mset (f (gs ! i) @ concat (map f (others i gs)))" by simp
qed

text \<open>The invariant, seen from one goroutine.\<close>

lemma sys_inv_local:
  assumes "i < length gs"
  shows "sys_inv (c, gs[i := g]) \<longleftrightarrow> pool_ok UNIV (slot_of g @ slots (others i gs)) (held_by g @ helds (others i gs)) c \<and>
    g \<noteq> Crashed \<and> Crashed \<notin> set (others i gs)"
proof -
  have "set (gs[i := g]) = insert g (set (others i gs))"
    using assms by (simp add: upd_conv_take_nth_drop others_def)
  then show ?thesis
    unfolding sys_inv_def fst_conv snd_conv
    using pool_ok_perm mset_others(1) [OF assms, of held_by g] mset_others(1) [OF assms, of slot_of g] by (metis insert_iff)
qed

lemma pool_ok_frame [simp]:
  "pool_ok UNIV pend held (c\<lparr>allCons := m\<rparr>) = pool_ok UNIV pend held c"
  "pool_ok UNIV pend held (c\<lparr>chist := h\<rparr>) = pool_ok UNIV pend held c"
  "pool_ok UNIV pend held (c\<lparr>closed := b\<rparr>) = pool_ok UNIV pend held c"
  by (simp_all add: pool_ok_def no_leak_def pool_inv_def units_def numConns_def conns_ok_def hosts_ok_def)

section \<open>Every step keeps the pool in order\<close>

lemma removeConn_frame: "wp (removeConn net r) (\<lambda>_ c'. \<exists>m h. c' = c\<lparr>allCons := m, chist := h\<rparr>) never c"
  unfolding removeConn_def wp_seq wp_modify wp_ret
  by (rule wp_on_close) blast

lemma pool_ok_release: "pool_ok L (h # pend) held c \<Longrightarrow> pool_ok L pend held (addConns h (- 1) c)"
  using pool_release [of h pend held c] by (simp add: pool_ok_def)

lemma pool_ok_detach: "pool_ok UNIV pend (r # held) c \<Longrightarrow> pool_ok UNIV (host (heap c r) # pend) held c"
  using pool_detach [of pend r held c] by (simp add: pool_ok_def conns_ok_def no_leak_def)

lemma work_ok:
  assumes ok: "pool_ok UNIV P (r # H) c" and m: "conn_ok F m Q" and run: "onConn r m c = Ret a c'"
  shows "pool_ok UNIV P (r # H) c'"
proof -
  have "usable \<lparr>pconn = heap c r, hist = chist c\<rparr>"
    using ok by (simp add: usable_def connected_def pool_ok_def conns_ok_def)
  from conn_okD [OF m this] have "wp (onConn r m) (\<lambda>_. pool_ok UNIV P (r # H)) (\<lambda>_ _. True) c"
    unfolding wp_onConn by (rule wp_mono) (use pool_ok_onConn [OF ok] in \<open>blast, simp\<close>)
  from wp_RetD [OF this run] show ?thesis .
qed

lemma lstep_keeps:
  assumes "lstep g c g' c'" "pool_ok UNIV (slot_of g @ P) (held_by g @ H) c" "g \<noteq> Crashed"
  shows "pool_ok UNIV (slot_of g' @ P) (held_by g' @ H) c' \<and> g' \<noteq> Crashed"
  using assms
proof (induction rule: lstep.induct)
  case (remove_drain net r c u c')
  then show ?case using wp_RetD [OF removeConn_frame] by fastforce
next
  case (remove_wait net r c u c')
  then show ?case using wp_RetD [OF removeConn_frame] by fastforce
next
  case (reserve c k h c')
  then show ?case using wp_RetD [OF reserveSlot_ok] by fastforce
next
  case (crash c e c')
  then show ?case using wp_AbnD [OF reserveSlot_ok] by fastforce
next
  case (opened net k h c p c')
  then show ?case using wp_RetD [OF openConn_contract, of net k h c] opened_conn_ok by fastforce
next
  case (open_failed net k h c e c')
  then show ?case using wp_RetD [OF openConn_contract, of net k h c] open_failed_ok [of UNIV "h # P" H c c']
    by (fastforce simp: opened_conn_def)
next
  case (work F m Q r c c')
  then show ?case using work_ok by fastforce
next
  case (give_back r c u c')
  then show ?case using wp_RetD [OF returnConn_ok] by fastforce
next
  case (close_next net r c u c' rs)
  then show ?case using wp_RetD [OF removeConn_frame] by fastforce
qed (auto dest: pool_ok_receive intro: pool_ok_release pool_ok_detach)

interpretation pool_steps: step_invariant sys_inv
proof
  fix i and s s' :: sys assume "sys_inv s" "step i s s'"
  from this(2,1) show "sys_inv s'"
  proof (induction rule: step.induct)
    case (step i gs c g' c')
    from step.prems have "sys_inv (c, gs[i := gs ! i])" by simp
    then have "pool_ok UNIV (slot_of (gs ! i) @ slots (others i gs)) (held_by (gs ! i) @ helds (others i gs)) c"
      "gs ! i \<noteq> Crashed" "Crashed \<notin> set (others i gs)" unfolding sys_inv_local [OF step.hyps(1)] by auto
    with lstep_keeps [OF step.hyps(2)] show ?case unfolding sys_inv_local [OF step.hyps(1)] by blast
  qed
qed

lemma start_inv: "distinct hs \<Longrightarrow> [] \<notin> set hs \<Longrightarrow> hs \<noteq> [] \<Longrightarrow> sys_inv (newClient cfg hs h, replicate n AtRest)"
  by (simp add: sys_inv_def newClient_ok)

text \<open>C2. With any number of goroutines and under every interleaving of their steps: no connection is held by two goroutines or held and free at
  the same time; no host has more than \<open>ConnectionsPerHost\<close> connections, counting the free ones, the held ones and those being opened;
  the panic of \<open>getIdleConn\<close> is not reached; and a goroutine that holds a connection can always give it back without
  blocking.\<close>

theorem pool_safe_concurrently:
  assumes "distinct hs" "[] \<notin> set hs" "hs \<noteq> []"
    and run: "reach (newClient cfg hs h0, replicate n AtRest) (c, gs)"
  shows "distinct (freeConnCh c @ helds gs) \<and>
    (\<forall>h. int (count_list (map (\<lambda>r. host (heap c r)) (freeConnCh c @ helds gs) @ slots gs) h) \<le> ConnectionsPerHost (clConfig c)) \<and>
    Crashed \<notin> set gs \<and>
    (\<forall>r. Hold r \<in> set gs \<longrightarrow> (\<exists>c'. returnConn r c = Ret () c'))"
proof -
  have inv: "sys_inv (c, gs)" by (rule pool_steps.reach_invariant [OF run start_inv]) (use assms in simp_all)
  then have ok: "pool_ok UNIV (slots gs) (helds gs) c" and nc: "Crashed \<notin> set gs" by (simp_all add: sys_inv_def)
  note p = pool_invD [OF pool_ok_inv [OF ok]]
  have gives: "\<exists>c'. returnConn r c = Ret () c'" if "Hold r \<in> set gs" for r
  proof -
    from that obtain i where i: "i < length gs" "gs ! i = Hold r" by (metis in_set_conv_nth)
    then have "gs[i := Hold r] = gs" by (metis list_update_id)
    with inv sys_inv_local [OF i(1), of c "Hold r"] have "pool_ok UNIV (slots (others i gs)) (r # helds (others i gs)) c" by simp
    from wp_never_returns [OF returnConn_ok [OF this]] show ?thesis by auto
  qed
  have "int (count_list (map (\<lambda>r. host (heap c r)) (freeConnCh c @ helds gs) @ slots gs) h) \<le> ConnectionsPerHost (clConfig c)" for h
    using p(6) [of h] p(7) [of h] by (simp add: units_def)
  with p(3) nc gives show ?thesis by blast
qed

section \<open>One goroutine alone\<close>

abbreviation lstep_pair :: "gor \<times> client \<Rightarrow> gor \<times> client \<Rightarrow> bool" where
  "lstep_pair a b \<equiv> lstep (fst a) (snd a) (fst b) (snd b)"

definition lsteps :: "gor \<Rightarrow> client \<Rightarrow> gor \<Rightarrow> client \<Rightarrow> bool" where
  "lsteps g c g' c' = lstep_pair\<^sup>*\<^sup>* (g, c) (g', c')"

lemma lsteps_refl [simp, intro]: "lsteps g c g c"
  by (simp add: lsteps_def)

lemma lsteps_trans [trans]: "lsteps g c g' c' \<Longrightarrow> lsteps g' c' g'' c'' \<Longrightarrow> lsteps g c g'' c''"
  unfolding lsteps_def by (rule rtranclp_trans)

lemma lsteps_one: "lstep g c g' c' \<Longrightarrow> lsteps g c g' c'"
  unfolding lsteps_def by (rule r_into_rtranclp) simp

lemma lsteps_debug: "wp (clDebug f as) (\<lambda>_ c'. lsteps g c g c' \<and> heap c' = heap c \<and> freeConnCh c' = freeConnCh c) never c"
  by (auto simp: wp_clDebug intro: lsteps_one lstep.log)

text \<open>Removing a broken connection: two critical sections and the closing of the connection.\<close>

lemma lsteps_drop:
  assumes drop: "\<And>c. lstep (G r) c (G' r) (addConns (host (heap c r)) (- 1) c)"
    and remove: "\<And>c u c'. removeConn net r c = Ret u c' \<Longrightarrow> lstep (G' r) c G'' c'"
  shows "wp (dropBroken net why r) (\<lambda>_ c'. lsteps (G r) c G'' c' \<and> freeConnCh c' = freeConnCh c) never c"
  unfolding dropBroken_def wp_seq wp_gets
proof (rule wp_mono [OF lsteps_debug [of _ _ "G r"]], goal_cases)
  case (1 u c1)
  let ?c = "addConns (host (heap c r)) (- 1) c1"
  have "wp (removeConn net r) (\<lambda>_ c'. lsteps (G r) c G'' c' \<and> freeConnCh c' = freeConnCh c) never ?c"
  proof -
    obtain u c' where run: "removeConn net r ?c = Ret u c'" "freeConnCh c' = freeConnCh c"
      using wp_never_returns [OF removeConn_frame [of net r ?c]] 1 by auto
    have "lsteps (G r) c (G r) c1" using 1 by simp
    also have "lsteps (G r) c1 (G' r) ?c" using drop [of c1] 1 by (intro lsteps_one) simp
    also have "lsteps (G' r) ?c G'' c'" by (rule lsteps_one [OF remove [OF run(1)]])
    finally show ?thesis using run by (simp add: wp_def)
  qed
  then show ?case by (simp add: wp_modify)
qed simp

lemma drainFree_steps:
  assumes "length (freeConnCh c) \<le> n"
  shows "wp (drainFree net n) (\<lambda>r c'. case r of
      Some p \<Rightarrow> lsteps Drain c (Hold p) c' | None \<Rightarrow> lsteps Drain c Check c' \<and> freeConnCh c' = []) never c"
  using assms
proof (induction n arbitrary: c)
  case 0
  then show ?case by (subst drainFree.simps) (auto simp: wp_simps intro!: lsteps_one lstep.none_ready)
next
  case (Suc n)
  let ?Q = "\<lambda>r c'. case r of
      Some p \<Rightarrow> lsteps Drain c (Hold p) c' | None \<Rightarrow> lsteps Drain c Check c' \<and> freeConnCh c' = []"
  show ?case
  proof (cases "freeConnCh c")
    case Nil
    then show ?thesis by (subst drainFree.simps) (auto simp: wp_simps intro!: lsteps_one lstep.none_ready)
  next
    case (Cons r rest)
    let ?c = "c\<lparr>freeConnCh := rest\<rparr>"
    show ?thesis
    proof (cases "broken (heap c r)")
      case True
      have start: "lsteps Drain c (DropDrain r) ?c" by (rule lsteps_one, rule lstep.ready_broken [OF Cons True])
      have "wp (seq (dropBroken net why r) (\<lambda>_. drainFree net n)) ?Q never ?c" for why
        unfolding wp_seq
      proof (rule wp_mono [OF lsteps_drop [of DropDrain r RemoveDrain net Drain]], goal_cases)
        case (3 u c1)
        then have "lsteps Drain c Drain c1" "length (freeConnCh c1) \<le> n" using start Suc.prems Cons by (auto dest: lsteps_trans)
        then show ?case by (intro wp_mono [OF Suc.IH]) (auto split: option.splits dest: lsteps_trans)
      qed (auto intro: lstep.intros)
      with Cons True show ?thesis by (subst drainFree.simps) (simp add: wp_seq wp_gets wp_modify)
    next
      case False
      have "lsteps Drain c (Hold r) ?c" by (rule lsteps_one, rule lstep.ready [OF Cons False])
      then have "wp (seq (clDebug f as) (\<lambda>_. ret (Some r))) ?Q never ?c" for f as
        unfolding wp_seq by (intro wp_mono [OF lsteps_debug [of _ _ "Hold r"]]) (auto simp: wp_ret intro: lsteps_trans)
      with Cons False show ?thesis by (subst drainFree.simps) (simp add: wp_seq wp_gets wp_modify)
    qed
  qed
qed

text \<open>Where a goroutine stands when \<open>getIdleConn\<close> ends.\<close>

definition got_steps :: "gor \<Rightarrow> client \<Rightarrow> goerror + nat \<Rightarrow> client \<Rightarrow> bool" where
  "got_steps g c r c' = (case r of Inr p \<Rightarrow> lsteps g c (Hold p) c' | Inl e \<Rightarrow> lsteps g c AtRest c')"

definition left_steps :: "gor \<Rightarrow> client \<Rightarrow> abn \<Rightarrow> client \<Rightarrow> bool" where
  "left_steps g c e c' = (case e of Blocked \<Rightarrow> lsteps g c Wait c' \<and> freeConnCh c' = [] | Panicked _ \<Rightarrow> lsteps g c Crashed c' | OutOfFuel \<Rightarrow> False)"

lemma reserveSlot_steps:
  assumes "canOpen c"
  shows "wp reserveSlot (\<lambda>(k, h) c'. lstep Check c (Opening k h) c') (\<lambda>e c'. (\<exists>m. e = Panicked m) \<and> lstep Check c Crashed c') c"
proof -
  have "wp reserveSlot (\<lambda>_ _. True) (\<lambda>e _. \<exists>m. e = Panicked m) c" by (simp add: reserveSlot_def wp_simps Let_def)
  with lstep.reserve [OF assms] lstep.crash [OF assms] show ?thesis by (auto simp: wp_def split: out.splits)
qed

lemma openSlot_steps:
  assumes "canOpen c"
  shows "wp (openSlot net) (got_steps Check c) (left_steps Check c) c"
  unfolding openSlot_def wp_seq [of reserveSlot]
proof (rule wp_mono [OF reserveSlot_steps [OF assms]], goal_cases)
  case (1 kh c1)
  obtain k h where kh: "kh = (k, h)" by (cases kh)
  with 1 have start: "lsteps Check c (Opening k h) c1" by (auto intro: lsteps_one)
  obtain r c2 where run: "openConn net k h c1 = Ret r c2" using wp_never_returns [OF openConn_contract] by blast
  show ?case
  proof (cases r)
    case (Inr p)
    then have "lsteps (Opening k h) c1 (Hold p) c2" using run by (auto intro: lsteps_one lstep.opened)
    with start Inr run show ?thesis
      by (auto simp: kh wp_seq wp_def [of "openConn net k h"] wp_ret got_steps_def intro: lsteps_trans)
  next
    case (Inl e)
    then have "lsteps (Opening k h) c1 (Release h) c2" using run by (auto intro: lsteps_one lstep.open_failed)
    also have "lsteps (Release h) c2 AtRest (addConns h (- 1) c2)" by (rule lsteps_one, rule lstep.release)
    finally have "lsteps Check c AtRest (addConns h (- 1) c2)" using start lsteps_trans by blast
    then have "wp (seq (clDebug f as) (\<lambda>_. ret (Inl e))) (got_steps Check c) (left_steps Check c) (addConns h (- 1) c2)" for f as
      unfolding wp_seq by (intro wp_mono [OF lsteps_debug [of _ _ AtRest]]) (auto simp: wp_ret got_steps_def intro: lsteps_trans)
    with Inl run show ?thesis by (simp add: kh wp_seq [of "openConn net k h"] wp_def [of "openConn net k h"] wp_seq [of "modify _"] wp_modify)
  qed
qed (auto simp: left_steps_def intro: lsteps_one)

lemma steps_after: "lsteps g c g' c' \<Longrightarrow> got_steps g' c' r c'' \<Longrightarrow> got_steps g c r c''"
  "lsteps g c g' c' \<Longrightarrow> left_steps g' c' e c'' \<Longrightarrow> left_steps g c e c''"
  by (auto simp: got_steps_def left_steps_def split: sum.splits abn.splits intro: lsteps_trans)

lemma waitFree_steps: "freeConnCh c = [] \<Longrightarrow> wp (waitFree net n) (got_steps Check c) (left_steps Check c) c"
  by (subst waitFree.simps) (auto simp: wp_simps left_steps_def intro!: openSlot_steps lsteps_one lstep.full)

text \<open>C6. The steps are those of the code: what \<open>getIdleConn\<close> does when it runs without interruption is a run of the steps of one
  goroutine. It ends holding the connection that is returned, or at rest when an error is returned, or waiting on the empty channel
  when it blocks, or crashed when it panics; each in the same state of the client.\<close>

theorem getIdleConn_refines_steps:
  "case getIdleConn net c of
     Ret (Inr p) c' \<Rightarrow> lsteps AtRest c (Hold p) c'
   | Ret (Inl e) c' \<Rightarrow> lsteps AtRest c AtRest c'
   | Abn Blocked c' \<Rightarrow> lsteps AtRest c Wait c' \<and> freeConnCh c' = []
   | Abn (Panicked _) c' \<Rightarrow> lsteps AtRest c Crashed c'
   | Abn OutOfFuel _ \<Rightarrow> False"
proof -
  have call: "lsteps AtRest c Drain c" by (rule lsteps_one, rule lstep.call)
  have "wp (getIdleConn net) (got_steps AtRest c) (left_steps AtRest c) c"
    unfolding getIdleConn_def wp_seq wp_gets
  proof (rule wp_mono [OF drainFree_steps [OF order.refl]], goal_cases)
    case (1 r c1)
    then show ?case
      by (cases r) (auto simp: wp_ret got_steps_def intro: lsteps_trans [OF call]
          wp_mono [OF waitFree_steps] steps_after [OF lsteps_trans [OF call]])
  qed simp
  then show ?thesis by (auto simp: wp_def got_steps_def left_steps_def split: out.splits sum.splits abn.splits)
qed

text \<open>The same for \<open>Close\<close>.\<close>

lemma removeAll_steps: "wp (removeAll net rs) (\<lambda>_ c'. lsteps (Closing rs) c AtRest c') never c"
proof (induction rs arbitrary: c)
  case Nil
  show ?case by (simp add: wp_ret lsteps_one lstep.close_done)
next
  case (Cons r rs)
  obtain u c1 where run: "removeConn net r c = Ret u c1"
    using wp_never_returns [OF removeConn_frame [of net r c]] by blast
  have first: "lsteps (Closing (r # rs)) c (Closing rs) c1" by (rule lsteps_one, rule lstep.close_next [OF run])
  have "wp (removeAll net rs) (\<lambda>_ c'. lsteps (Closing (r # rs)) c AtRest c') never c1"
    by (rule wp_mono [OF Cons.IH]) (use first in \<open>auto intro: lsteps_trans\<close>)
  with run show ?case by (simp add: wp_seq wp_def [of "removeConn net r"])
qed

lemma Close_steps: "wp (Close net order) (\<lambda>_ c'. lsteps AtRest c AtRest c') never c"
proof (cases "closed c")
  case False
  let ?rs = "order (ran (allCons c))" and ?c = "c\<lparr>closed := True\<rparr>"
  have start: "lsteps AtRest c (Closing ?rs) ?c" by (rule lsteps_one, rule lstep.close_start [OF False])
  have "wp (removeAll net ?rs) (\<lambda>_ c'. lsteps AtRest c AtRest c') never ?c"
    by (rule wp_mono [OF removeAll_steps]) (use start in \<open>auto intro: lsteps_trans\<close>)
  with False show ?thesis by (simp add: Close_def wp_seq wp_gets wp_modify wp_ret_fun)
qed (simp add: Close_def wp_seq wp_gets wp_ret)

section \<open>A goroutine that is left waiting\<close>

text \<open>A client with one slot, and a network on which nothing can be dialled.\<close>

definition oneSlot :: client where
  "oneSlot = newClient (sampleConfig\<lparr>ConnectionsPerHost := 1\<rparr>) [''10.0.0.2:21''] []"

definition unreachable :: net where
  "unreachable = (scripted (\<lambda>_. []) [])\<lparr>net_dialTimeout := (\<lambda>_ _ _ _. Some (NetError ''refused'' False))\<rparr>"

lemma reach_step:
  "reach s0 (c, gs) \<Longrightarrow> lstep g c g' c' \<Longrightarrow> i < length gs \<Longrightarrow> gs ! i = g \<Longrightarrow> gs' = gs[i := g'] \<Longrightarrow> reach s0 (c', gs')"
  by (auto intro: reach.move step.step)

text \<open>Two goroutines and one slot: the second claims it, the first finds it taken and waits, and then the second cannot connect.\<close>

lemma waiting_run:
  obtains c1 c2 where "reach (oneSlot, [AtRest, AtRest]) (c1, [Wait, Opening 1 ''10.0.0.2:21''])"
    "reach (oneSlot, [AtRest, AtRest]) (addConns ''10.0.0.2:21'' (- 1) c2, [Wait, AtRest])"
    "numConnsPerHost c2 = [(''10.0.0.2:21'', 1)]" "hosts c2 = [''10.0.0.2:21'']" "freeConnCh c2 = []" "ConnectionsPerHost (clConfig c2) = 1"
proof -
  let ?h = "''10.0.0.2:21''" and ?R = "reach (oneSlot, [AtRest, AtRest])"
  define c1 where "c1 = addConns ?h 1 (oneSlot\<lparr>connIdx := 1\<rparr>)"
  have slot: "canOpen oneSlot" "reserveSlot oneSlot = Ret (1, ?h) c1"
    by (simp_all add: canOpen_def numOpenConns_def oneSlot_def newClient_def sampleConfig_def zeroConfig_def defaultConfig_def
        reserveSlot_def seq_def gets_def modify_def ret_def numConns_def c1_def Let_def)
  have c1: "freeConnCh c1 = []" "numConnsPerHost c1 = [(?h, 1)]" "hosts c1 = [?h]" "ConnectionsPerHost (clConfig c1) = 1"
    by (simp_all add: c1_def addConns_def numConns_def oneSlot_def newClient_def sampleConfig_def zeroConfig_def defaultConfig_def)
  have fresh: "freeConnCh oneSlot = []" by (simp add: oneSlot_def newClient_def)
  have "wp (openConn unreachable 1 ?h) (\<lambda>r _. isl r) never c1"
    unfolding c1_def by code_simp
  from wp_never_returns [OF this] obtain e c2 where fail: "openConn unreachable 1 ?h c1 = Ret (Inl e) c2"
    by (auto simp: isl_def)
  have c2: "numConnsPerHost c2 = [(?h, 1)]" "hosts c2 = [?h]" "freeConnCh c2 = []" "ConnectionsPerHost (clConfig c2) = 1"
    using wp_RetD [OF openConn_contract fail] c1 by (auto simp: opened_conn_def open_frame_def)
  have "?R (oneSlot, [AtRest, Drain])" by (rule reach_step [OF reach.start lstep.call, where i = 1]) simp_all
  then have "?R (oneSlot, [AtRest, Check])" by (rule reach_step [OF _ lstep.none_ready [OF fresh], where i = 1]) simp_all
  then have "?R (c1, [AtRest, Opening 1 ?h])" by (rule reach_step [OF _ lstep.reserve [OF slot], where i = 1]) simp_all
  then have "?R (c1, [Drain, Opening 1 ?h])" by (rule reach_step [OF _ lstep.call, where i = 0]) simp_all
  then have "?R (c1, [Check, Opening 1 ?h])" by (rule reach_step [OF _ lstep.none_ready [OF c1(1)], where i = 0]) simp_all
  then have waits: "?R (c1, [Wait, Opening 1 ?h])"
    by (rule reach_step [OF _ lstep.full, where i = 0]) (simp_all add: canOpen_def numOpenConns_def c1)
  then have "?R (c2, [Wait, Release ?h])" by (rule reach_step [OF _ lstep.open_failed [OF fail], where i = 1]) simp_all
  then have left: "?R (addConns ?h (- 1) c2, [Wait, AtRest])" by (rule reach_step [OF _ lstep.release, where i = 1]) simp_all
  show thesis by (rule that [OF waits left c2])
qed

text \<open>C33. A goroutine can be left waiting for ever. A connection attempt that fails gives its slot back without waking those who wait on the channel: a
  state is reachable in which no connection is open, no goroutine but one uses the client, a connection could be opened, and
  yet that one stands at the channel with nothing to receive and no step of its own to leave it.\<close>

theorem waiter_left_behind:
  "\<exists>c. reach (oneSlot, [AtRest, AtRest]) (c, [Wait, AtRest]) \<and> canOpen c \<and> numOpenConns c = 0 \<and> freeConnCh c = [] \<and>
     \<not> (\<exists>g' c'. lstep Wait c g' c' \<and> g' \<noteq> Wait)"
proof (rule waiting_run)
  fix c2 assume run: "reach (oneSlot, [AtRest, AtRest]) (addConns ''10.0.0.2:21'' (- 1) c2, [Wait, AtRest])"
    and c2: "numConnsPerHost c2 = [(''10.0.0.2:21'', 1)]" "hosts c2 = [''10.0.0.2:21'']" "freeConnCh c2 = []"
      "ConnectionsPerHost (clConfig c2) = 1"
  let ?c = "addConns ''10.0.0.2:21'' (- 1) c2"
  have "numOpenConns ?c = 0" "canOpen ?c" "freeConnCh ?c = []"
    by (simp_all add: canOpen_def numOpenConns_def addConns_def numConns_def c2)
  moreover have "\<not> (\<exists>g' c'. lstep Wait ?c g' c' \<and> g' \<noteq> Wait)"
    using \<open>freeConnCh ?c = []\<close> by (auto elim: wait_stepE)
  ultimately show ?thesis using run by blast
qed

theorem pool_safe_concurrently_witness:
  "\<exists>c :: client. distinct (freeConnCh c @ helds [Wait, Opening 1 ''10.0.0.2:21'']) \<and>
    int (count_list (map (\<lambda>r. host (heap c r)) (freeConnCh c @ helds [Wait, Opening 1 ''10.0.0.2:21'']) @
      slots [Wait, Opening 1 ''10.0.0.2:21'']) ''10.0.0.2:21'') \<le> ConnectionsPerHost (clConfig c)"
proof (rule waiting_run)
  fix c1 assume "reach (oneSlot, [AtRest, AtRest]) (c1, [Wait, Opening 1 ''10.0.0.2:21''])"
  then have run: "reach (newClient (sampleConfig\<lparr>ConnectionsPerHost := 1\<rparr>) [''10.0.0.2:21''] [], replicate 2 AtRest)
      (c1, [Wait, Opening 1 ''10.0.0.2:21''])" by (simp add: oneSlot_def numeral_2_eq_2)
  have hs: "distinct [''10.0.0.2:21'']" "[] \<notin> set [''10.0.0.2:21'']" "[''10.0.0.2:21''] \<noteq> []" by simp_all
  note safe = pool_safe_concurrently [OF hs run]
  show ?thesis
    by (rule exI [of _ c1], rule conjI [OF conjunct1 [OF safe] spec [OF conjunct1 [OF conjunct2 [OF safe]]]])
qed

end
