(* ===== verification/Spec2Isabelle.thy ===== *)
theory Spec2Isabelle
  imports FileProps StoreProps Resume Checksums Dialling PoolSteps
begin

text \<open>
  A verification of goftp, an FTP client library in Go. This theory gathers the development; the text below says
  what is modelled, how it corresponds to the code under \<^verbatim>\<open>src/\<close>, and what is proved.

  \<^bold>\<open>The program.\<close> A \<open>Client\<close> (\<^verbatim>\<open>client.go\<close>) is made by \<open>Dial\<close> or \<open>DialConfig\<close> (\<^verbatim>\<open>goftp.go\<close>) from a list of hosts. It keeps a pool of
  connections: a channel of free ones, a count for each host, a map of all of them. Every method takes a connection from the
  pool (\<open>getIdleConn\<close>), works on it and gives it back (\<open>returnConn\<close>). A connection (\<^verbatim>\<open>persistent_connection.go\<close>) has a
  control channel on which commands and replies alternate, and opens data channels, in passive or in active mode, with or without TLS.
  On top of it are the methods on files and directories (\<^verbatim>\<open>file_system.go\<close>), with the parsers of three listing
  formats, the transfers with their resumption (\<^verbatim>\<open>transfer.go\<close>), and the checksums (\<^verbatim>\<open>checksum.go\<close>). Reply codes are in \<^verbatim>\<open>reply_codes.go\<close>.

  \<^bold>\<open>How Go is represented.\<close> A function that changes state is a function from a state to an outcome (\<open>go\<close> in \<open>Prelude\<close>): it
  returns a value and a state, or it ends abnormally with a panic, by blocking for ever, or out of fuel. \<open>seq\<close> is sequencing,
  \<open>deferred\<close> is \<^verbatim>\<open>defer\<close>, and \<open>wp\<close> is the weakest precondition with one postcondition for values and one for
  abnormal ends. Three kinds of state are used: the history of the outside world (\<open>io\<close>), one connection with the
  history (\<open>pworld\<close>), and the client with its store of connections and the history (\<open>client\<close>); \<open>zoom\<close> runs an operation on a part.
  Errors are values of \<open>goerror\<close>; a pair of a value and an error is a sum when the code returns one or the other, and a pair
  when it returns both. An error message is kept as its format and operands; text that goes over the wire is
  rendered by \<open>Sprintf\<close>.

  \<^bold>\<open>The environment\<close> (\<open>Net\<close>). The sockets, the resolver, TLS, the caller's reader and writer are a record \<open>net\<close> of answers, each a function of
  the history so far, and nothing is assumed about them unless a theorem says so. The history records every byte sent and
  received, every socket opened and closed, every deadline and every line of the log, so safety statements are statements about it;
  \<open>live\<close> is the set of sockets that are open after it, \<open>dialogue\<close> what was said and heard on a control socket, with the code of each reply, and
  \<open>commandLines\<close> the lines a server reads from what was written to it.

  \<^bold>\<open>Theories, in the order of their imports.\<close>
  \<^item> \<open>Prelude\<close>: outcomes, \<open>wp\<close> and its rules (\<open>wp_simps\<close>), and the operations that keep a predicate (\<open>keeps_rules\<close>).
  \<^item> \<open>GoStrings\<close>, \<open>GoNum\<close>, \<open>Regex\<close>, \<open>TimeParse\<close>, \<open>NetAddr\<close>, \<open>IPAddr\<close>: what the code uses of the packages \<^verbatim>\<open>strings\<close>, \<^verbatim>\<open>path\<close>, \<^verbatim>\<open>strconv\<close>,
    \<^verbatim>\<open>regexp\<close>, \<^verbatim>\<open>time\<close> and \<^verbatim>\<open>net\<close>, as executable functions with their laws. Strings are lists of bytes; case folding and white space are those of ASCII.
  \<^item> \<open>Errors\<close>: reply codes, \<open>ftpError\<close> and its methods, \<open>Sprintf\<close>.
  \<^item> \<open>Net\<close>: configuration, connections, events, system calls, and \<open>textproto.Reader.ReadResponse\<close>.
  \<^item> \<open>Control\<close>: \<open>persistentConn\<close>, commands and replies, features, login, the transfer type, TLS of the channels. The locale \<open>control_op\<close>
    is the contract of an operation on the control channel and is interpreted for each of them.
  \<^item> \<open>Dialogue\<close>: \<open>speaks\<close>, the part of the dialogue an operation adds, composed along the code; what a successful login has said and heard.
  \<^item> \<open>Views\<close>: functions of the history that an operation may leave as they are. The locale \<open>event_view\<close> is for those that only see what is said and
    what is transferred, its extension \<open>command_view\<close> for those that do not see the commands outside file transfers; interpreted for the dialogue,
    for the payload (\<open>Payload\<close>) and for the place in the file (\<open>Resume\<close>).
  \<^item> \<open>Pool\<close>, \<open>PoolInv\<close>, \<open>Session\<close>, \<open>PoolOps\<close>: the client, its pool as one goroutine runs it, the invariant (\<open>pool_ok\<close>: what is free, held and being
    opened adds up to the counts, nothing is shared, no socket is lost), opening a connection, and the locale \<open>resource_pool\<close> of
    acquiring and releasing with the bracket that every method is built on.
  \<^item> \<open>PoolSteps\<close>: the same pool with any number of goroutines, as a step relation whose steps are the operations of \<open>Pool\<close>; a broken
    connection gives its slot back in one step and is closed in the next, and \<open>Close\<close> collects the connections in one step and closes them one by one. The invariant
    holds in every reachable state, and \<open>getIdleConn\<close> refines the steps of one goroutine.
  \<^item> \<open>DataChannel\<close>: \<open>prepareDataConn\<close> with its getter and its abort, \<open>requestPassive\<close>, \<open>listenActive\<close>, and the shape of a command that needs a data
    connection.
  \<^item> \<open>ClientOps\<close>: the shape of a method (\<open>withIdle\<close>), its contract (\<open>cl_ok\<close>) and the locales \<open>client_method\<close> and \<open>terminating_method\<close>,
    interpreted for the methods in the theories that define them.
  \<^item> \<open>Listing\<close>: \<open>parseLIST\<close>, \<open>parseDOSLIST\<close>, \<open>parseMLST\<close>, with the locale \<open>entry_parser\<close>.
  \<^item> \<open>FileSystem\<close>, \<open>FileProps\<close>: the methods of \<^verbatim>\<open>file_system.go\<close>, with \<open>bufio.Scanner\<close>, and what they do.
  \<^item> \<open>FileTransfer\<close>, \<open>TransferOk\<close>, \<open>Payload\<close>, \<open>TransferProps\<close>, \<open>StoreProps\<close>, \<open>Resume\<close>: the methods of \<^verbatim>\<open>transfer.go\<close>, with \<open>io.Copy\<close>; their contracts; the
    operations that move no file data; downloads and uploads; and where the bytes of a download belong in the file. The locales \<open>copy_effect\<close>
    and \<open>transfer_effect\<close> say that the effect of an attempt on what is seen is the effect of its copy, and are interpreted for both directions and for the place.
  \<^item> \<open>Checksums\<close>: the methods of \<^verbatim>\<open>checksum.go\<close>.
  \<^item> \<open>Dialling\<close>: \<open>lookupHosts\<close>, \<open>DialConfig\<close>, \<open>Dial\<close>, and the connections outside the pool.

  \<^bold>\<open>What the theorems show.\<close> Of the pool: exclusive use, limits and absence of panics for distinct hosts, alone and under every
  interleaving; giving back never blocks; \<open>Close\<close> closes everything. Of every method: it never panics, it keeps the pool in
  order, it leaves no socket behind in passive mode, and it blocks only when every slot is taken; its error is an \<open>ftpError\<close>, except
  that a download may return the error of \<open>io.Copy\<close> as it is; all but the transfers answer a caller that is alone with the client when the
  server ends its data connections. Of the channels: one command is one write and one reply, and the server reads as many command lines from it as it has line feeds, so that a line break
  in a path makes a second command; a connection that is handed out is logged in; the password is not logged; \<^verbatim>\<open>RNTO\<close> follows only the reply that asks for it;
  with TLS nothing but \<^verbatim>\<open>AUTH TLS\<close> is sent in the clear and data connections are encrypted. Of the parsers: what a server prints is read
  back. Of transfers: a successful download has written the bytes of the file from the offset on, each in its place, however
  often it was resumed; a download ends; a successful upload has sent the rest of the
  source from the size the server reported. Of checksums and addresses: the order of preference, the form of the result, the
  choice of addresses and ports. Theorems of kind error state behaviour that is not what the code or its documentation
  means: the inverted cache of \<open>setType\<close>, a leaked listener, a host named twice, lost errors, a percent sign in a path, an unchecked
  algorithm; \<open>waiter_left_behind\<close> states a missing wake-up.

  \<^bold>\<open>Loops and fuel.\<close> The loops over the free channel take the length of the channel as their bound, which is enough for one goroutine
  (\<open>drainFree_ok\<close>, \<open>getIdleConn_ok\<close>). \<open>scanLines\<close> and \<open>copyLoop\<close> take a number of reads; a server whose data connections deliver at most \<open>N\<close> pieces
  (\<open>ends_within N\<close>), or a source that ends within \<open>N\<close> reads (\<open>src_ends N\<close>), needs \<open>N + 1\<close>. The resuming loops take a number of attempts: for
  downloads \<open>M + 1\<close> are enough when the writer has room for \<open>M\<close> bytes (\<open>RetrieveFrom_ends\<close>). For uploads no bound exists: an attempt
  counts as progress when it sent bytes, whatever the server kept. \<open>fillBuffer\<close> gives up after 101 empty reads, as \<open>bufio.Scanner\<close> does.

  \<^bold>\<open>Bounds.\<close> Sizes in listings are read as \<open>uint64\<close> and converted to \<open>int64\<close> with wrap-around (\<open>int64\<close> in \<open>Listing\<close>); file modes and IP
  addresses are words. Offsets and counts of transfers are unbounded integers, since no file has \<open>2 ^ 63\<close> bytes. Counters of connections are unbounded.

  \<^bold>\<open>Not modelled.\<close> Time stamps and prefixes of log lines; Unicode beyond ASCII in case folding and trimming; the contents of TLS; that two
  goroutines' writes to the log interleave. Between goroutines, opening a connection and work on a held connection are single steps of
  \<open>PoolSteps\<close>: they touch only that connection and the history, and each runs against an environment of its own. The tests, the
  scripts and containers they use, and the documentation are not part of the model.
\<close>

end
